(* ===== verification/Prelude.thy ===== *)
theory Prelude
  imports Main "HOL-Library.Word"
begin

text \<open>
  Shared vocabulary of the development: the error values of the Go code (gRPC status
  errors and plain errors), machine integers written as \<open>int\<close> with their wrap-around,
  and the generic lemmas the component theories share.

  Conventions used by every theory:
  \<^item> a Go function that may panic returns an \<open>option\<close>; \<open>None\<close> is the run-time panic
    (index out of range, nil dereference, explicit \<^verbatim>\<open>panic\<close>);
  \<^item> a Go pair \<^verbatim>\<open>(T, error)\<close> is a sum \<open>error + 'a\<close>, \<open>Inl\<close> for a non-nil error;
  \<^item> a message built by \<^verbatim>\<open>Errorf\<close> is represented by its format string: no caller reads the
    formatted text, callers only compare against \<^verbatim>\<open>nil\<close> or read the status code.
\<close>

section \<open>Automation\<close>

named_theorems go_simps \<open>evaluation rules for the models of Go's integer operations\<close>

section \<open>Errors\<close>

text \<open>
  The status codes of \<^verbatim>\<open>google.golang.org/grpc/codes\<close> that the source names, and \<open>Code n\<close> for
  any other number.
\<close>

datatype code =
    OK
  | Unknown
  | InvalidArgument
  | NotFound
  | AlreadyExists
  | PermissionDenied
  | ResourceExhausted
  | FailedPrecondition
  | Aborted
  | OutOfRange
  | Unimplemented
  | Internal
  | Unavailable
  | Code nat

datatype go_error =
    Status code string
  | Plain string

text \<open>\<^verbatim>\<open>status.Code(err)\<close>: \<^verbatim>\<open>OK\<close> for nil, the code of a status error, \<^verbatim>\<open>Unknown\<close> otherwise.\<close>

fun error_code :: "go_error \<Rightarrow> code" where
  "error_code (Status c _) = c"
| "error_code (Plain _) = Unknown"

text \<open>The numbers of the codes on the wire: \<^verbatim>\<open>uint32(code)\<close> and \<^verbatim>\<open>codes.Code(n)\<close>.\<close>

fun code_number :: "code \<Rightarrow> nat" where
  "code_number OK = 0"
| "code_number Unknown = 2"
| "code_number InvalidArgument = 3"
| "code_number NotFound = 5"
| "code_number AlreadyExists = 6"
| "code_number PermissionDenied = 7"
| "code_number ResourceExhausted = 8"
| "code_number FailedPrecondition = 9"
| "code_number Aborted = 10"
| "code_number OutOfRange = 11"
| "code_number Unimplemented = 12"
| "code_number Internal = 13"
| "code_number Unavailable = 14"
| "code_number (Code n) = n"

definition named_codes :: "code list" where
  "named_codes = [OK, Unknown, InvalidArgument, NotFound, AlreadyExists, PermissionDenied,
     ResourceExhausted, FailedPrecondition, Aborted, OutOfRange, Unimplemented, Internal, Unavailable]"

definition code_of_number :: "nat \<Rightarrow> code" where
  "code_of_number n =
     (case find (\<lambda>c. code_number c = n) named_codes of Some c \<Rightarrow> c | None \<Rightarrow> Code n)"

lemma code_of_code_number: "c \<in> set named_codes \<Longrightarrow> code_of_number (code_number c) = c"
  by (auto simp: named_codes_def code_of_number_def)

lemma code_number_of: "code_number (code_of_number n) = n"
  by (auto simp: code_of_number_def find_Some_iff split: option.splits)

fun result_code :: "go_error + 'a \<Rightarrow> code" where
  "result_code (Inl e) = error_code e"
| "result_code (Inr _) = OK"

section \<open>Machine integers\<close>

text \<open>Signed 32-bit and unsigned 64-bit wrap-around, Go's truncating division and shifts.\<close>

definition i32 :: "int \<Rightarrow> int" where
  "i32 x = (x + 2 ^ 31) mod 2 ^ 32 - 2 ^ 31"

definition i64 :: "int \<Rightarrow> int" where
  "i64 x = (x + 2 ^ 63) mod 2 ^ 64 - 2 ^ 63"

definition u64 :: "int \<Rightarrow> int" where
  "u64 x = x mod 2 ^ 64"

definition go_div :: "int \<Rightarrow> int \<Rightarrow> int" where
  "go_div a b = sgn a * sgn b * (\<bar>a\<bar> div \<bar>b\<bar>)"

lemma i32_id [simp]: "- (2 ^ 31) \<le> x \<Longrightarrow> x < 2 ^ 31 \<Longrightarrow> i32 x = x"
  by (simp add: i32_def)

lemma i32_nat: "n \<le> 2 ^ 30 \<Longrightarrow> i32 (int n) = int n"
  by (simp add: i32_def)

lemma i32_range: "- (2 ^ 31) \<le> i32 x \<and> i32 x < 2 ^ 31"
  by (simp add: i32_def)

lemma i64_id: "- (2 ^ 63) \<le> x \<Longrightarrow> x < 2 ^ 63 \<Longrightarrow> i64 x = x"
  by (simp add: i64_def)

lemma u64_id: "0 \<le> x \<Longrightarrow> x < 2 ^ 64 \<Longrightarrow> u64 x = x"
  by (simp add: u64_def)

lemma go_div_nonneg: "0 \<le> a \<Longrightarrow> 0 < b \<Longrightarrow> go_div a b = a div b"
  by (cases "a = 0") (simp_all add: go_div_def)

lemmas [go_simps] = i32_def i64_def u64_def go_div_def

lemma add_power_le_imp_less:
  assumes "a + 2 ^ k \<le> (n::nat)"
  shows "a < n"
proof -
  have "(0::nat) < 2 ^ k" by simp
  with assms show ?thesis by linarith
qed

text \<open>
  \<^verbatim>\<open>bits.OnesCount\<close> and the number of binary digits of a number; \<open>floor_log2\<close> is
  \<^verbatim>\<open>int(math.Log2(float64(n)))\<close>, which is exact on the positions it is applied to
  (below \<open>2 ^ 31\<close>, so the float64 argument is exact and its logarithm is not rounded
  across an integer).
\<close>

fun ones_count :: "nat \<Rightarrow> nat" where
  "ones_count n = (if n = 0 then 0 else n mod 2 + ones_count (n div 2))"

fun bit_depth :: "nat \<Rightarrow> nat" where
  "bit_depth n = (if n = 0 then 0 else Suc (bit_depth (n div 2)))"

fun floor_log2 :: "nat \<Rightarrow> nat" where
  "floor_log2 n = (if n \<le> 1 then 0 else Suc (floor_log2 (n div 2)))"

declare ones_count.simps [simp del] bit_depth.simps [simp del] floor_log2.simps [simp del]

lemmas [go_simps] = ones_count.simps bit_depth.simps floor_log2.simps

lemma floor_log2_bounds:
  assumes "2 ^ l \<le> n" and "n < 2 ^ Suc l"
  shows "floor_log2 n = l"
  using assms
proof (induction l arbitrary: n)
  case 0
  then show ?case by (simp add: floor_log2.simps)
next
  case (Suc l)
  have "2 ^ l \<le> n div 2" and "n div 2 < 2 ^ Suc l"
    using Suc.prems by auto
  then have "floor_log2 (n div 2) = l" by (rule Suc.IH)
  moreover have "1 < n"
  proof -
    have "(1::nat) \<le> 2 ^ l" by simp
    with Suc.prems(1) show ?thesis by (simp only: power_Suc)
  qed
  ultimately show ?case by (simp add: floor_log2.simps [of n])
qed

lemma bit_depth_power: "bit_depth (2 ^ k) = Suc k"
proof (induction k)
  case 0
  then show ?case by (simp add: bit_depth.simps)
next
  case (Suc k)
  then show ?case by (subst bit_depth.simps) simp
qed

lemma ones_count_power: "ones_count (2 ^ k) = 1"
proof (induction k)
  case 0
  then show ?case by (simp add: ones_count.simps)
next
  case (Suc k)
  then show ?case by (subst ones_count.simps) simp
qed

lemma ones_count_pos: "0 < n \<Longrightarrow> 0 < ones_count n"
proof (induction n rule: ones_count.induct)
  case (1 n)
  then show ?case
    by (cases "n mod 2 = 0") (auto simp: ones_count.simps [of n] elim: evenE)
qed

lemma ones_count_one_iff: "ones_count n = 1 \<longleftrightarrow> (\<exists>k. n = 2 ^ k)"
proof
  show "ones_count n = 1 \<Longrightarrow> \<exists>k. n = 2 ^ k"
  proof (induction n rule: ones_count.induct)
    case (1 n)
    from 1(2) have n0: "n \<noteq> 0" by (cases "n = 0") (simp_all add: ones_count.simps [of 0])
    show ?case
    proof (cases "even n")
      case True
      have "ones_count (n div 2) = 1"
        using True n0 1(2) by (simp add: ones_count.simps [of n])
      with n0 1(1) obtain k where k: "n div 2 = 2 ^ k" by auto
      from True have "n = 2 * (n div 2)" by simp
      with k have "n = 2 ^ Suc k" by simp
      then show ?thesis ..
    next
      case False
      with n0 1(2) have "ones_count (n div 2) = 0"
        by (simp add: ones_count.simps [of n] odd_iff_mod_2_eq_one)
      then have "n div 2 = 0" using ones_count_pos by fastforce
      with n0 have "n = 2 ^ 0" by simp
      then show ?thesis ..
    qed
  qed
qed (auto simp: ones_count_power)

end
