(* ===== verification/Disk.thy ===== *)
theory Disk
  imports Prelude
begin

text \<open>
  Bytes and files, as \<^verbatim>\<open>pkg/diskrpc/mailbox.go\<close> uses them: little-endian 32-bit fields in byte
  strings, and a file handle with its offset. A handle carries a fault plan: after so many
  further operations the device dies, and a write that is under way then leaves arbitrary
  bytes in the region it was writing. Every error branch of the code is reachable that way,
  and so is every crash between two writes.
\<close>

section \<open>Bytes\<close>

definition zeros :: "nat \<Rightarrow> string" where
  "zeros n = replicate n (char_of (0::nat))"

text \<open>\<^verbatim>\<open>binary.LittleEndian.PutUint32\<close> and \<^verbatim>\<open>Uint32\<close>; \<open>u32\<close> is the conversion \<^verbatim>\<open>uint32(x)\<close>.\<close>

definition u32 :: "int \<Rightarrow> nat" where
  "u32 x = nat (x mod 2 ^ 32)"

definition le32 :: "nat \<Rightarrow> string" where
  "le32 n = [char_of n, char_of (n div 256), char_of (n div 65536), char_of (n div 16777216)]"

definition get32 :: "string \<Rightarrow> nat" where
  "get32 s = of_char (s ! 0) + 256 * of_char (s ! 1) + 65536 * of_char (s ! 2)
     + 16777216 * of_char (s ! 3)"

text \<open>Overwriting in place from offset \<open>p\<close>; past the end the gap is filled with zeros.\<close>

definition overwrite :: "nat \<Rightarrow> string \<Rightarrow> string \<Rightarrow> string" where
  "overwrite p bs s = take p (s @ zeros (p - length s)) @ bs @ drop (p + length bs) s"

text \<open>The bytes \<open>[p, p + n)\<close>.\<close>

definition slice :: "nat \<Rightarrow> nat \<Rightarrow> string \<Rightarrow> string" where
  "slice p n s = take n (drop p s)"

section \<open>Files\<close>

record file_handle =
  content :: string
  blockdev :: bool
  offset :: nat
  faults :: "nat option"
  torn :: "string \<Rightarrow> string \<Rightarrow> string"

type_synonym 'a io = "file_handle \<Rightarrow> ((go_error + 'a) \<times> file_handle) option"

definition return_ok :: "'a \<Rightarrow> 'a io" where
  "return_ok x f = Some (Inr x, f)"

definition fail_with :: "string \<Rightarrow> 'a io" where
  "fail_with msg f = Some (Inl (Plain msg), f)"

text \<open>
  \<open>check m msg k\<close> is the idiom \<^verbatim>\<open>x, err := m; if err != nil { return fmt.Errorf(msg) }; k\<close>,
  \<open>attempt m k\<close> returns the error as it is, \<open>check_pure\<close> is the same for a computation that does no input or output, and \<open>guard_panic\<close>
  continues with a value that a run-time panic may have prevented.
\<close>

definition check :: "'a io \<Rightarrow> string \<Rightarrow> ('a \<Rightarrow> 'b io) \<Rightarrow> 'b io" where
  "check m msg k f =
     (case m f of
        None \<Rightarrow> None
      | Some (Inl _, f') \<Rightarrow> Some (Inl (Plain msg), f')
      | Some (Inr x, f') \<Rightarrow> k x f')"

definition attempt :: "'a io \<Rightarrow> ('a \<Rightarrow> 'b io) \<Rightarrow> 'b io" where
  "attempt m k f =
     (case m f of
        None \<Rightarrow> None
      | Some (Inl e, f') \<Rightarrow> Some (Inl e, f')
      | Some (Inr x, f') \<Rightarrow> k x f')"

definition check_pure :: "go_error + 'a \<Rightarrow> string \<Rightarrow> ('a \<Rightarrow> 'b io) \<Rightarrow> 'b io" where
  "check_pure r msg k f = (case r of Inl _ \<Rightarrow> Some (Inl (Plain msg), f) | Inr x \<Rightarrow> k x f)"

definition guard_panic :: "'a option \<Rightarrow> ('a \<Rightarrow> 'b io) \<Rightarrow> 'b io" where
  "guard_panic r k f = (case r of None \<Rightarrow> None | Some x \<Rightarrow> k x f)"

definition tick :: "unit io" where
  "tick f =
     (case faults f of
        None \<Rightarrow> Some (Inr (), f)
      | Some 0 \<Rightarrow> Some (Inl (Plain ''input/output error''), f)
      | Some (Suc n) \<Rightarrow> Some (Inr (), f\<lparr>faults := Some n\<rparr>))"

definition seek :: "int \<Rightarrow> unit io" where
  "seek off f =
     (if off < 0 then Some (Inl (Plain ''invalid argument''), f)
      else Some (Inr (), f\<lparr>offset := nat off\<rparr>))"

text \<open>\<^verbatim>\<open>file.Stat().Size()\<close>: a block device reports 0.\<close>

definition stat_size :: "nat io" where
  "stat_size f =
     (case tick f of
        Some (Inr _, f') \<Rightarrow> Some (Inr (if blockdev f then 0 else length (content f)), f')
      | _ \<Rightarrow> Some (Inl (Plain ''input/output error''), f))"

definition seek_end :: "nat io" where
  "seek_end f = Some (Inr (length (content f)), f\<lparr>offset := length (content f)\<rparr>)"

text \<open>\<^verbatim>\<open>io.ReadFull\<close>: all \<open>n\<close> bytes or an error.\<close>

definition read_full :: "nat \<Rightarrow> string io" where
  "read_full n f =
     (case tick f of
        Some (Inr _, f') \<Rightarrow>
          if offset f + n \<le> length (content f)
          then Some (Inr (slice (offset f) n (content f)), f'\<lparr>offset := offset f + n\<rparr>)
          else Some (Inl (Plain ''unexpected EOF''), f')
      | _ \<Rightarrow> Some (Inl (Plain ''input/output error''), f))"

definition write_file :: "string \<Rightarrow> unit io" where
  "write_file bs f =
     (case tick f of
        Some (Inr _, f') \<Rightarrow>
          Some (Inr (), f'\<lparr>content := overwrite (offset f) bs (content f),
                           offset := offset f + length bs\<rparr>)
      | _ \<Rightarrow>
          Some (Inl (Plain ''input/output error''),
                f\<lparr>content := overwrite (offset f)
                    (torn f (slice (offset f) (length bs) (content f)) bs) (content f)\<rparr>))"

section \<open>Lemmas on bytes\<close>

lemma length_zeros [simp]: "length (zeros n) = n"
  by (simp add: zeros_def)

lemma length_le32 [simp]: "length (le32 n) = 4"
  by (simp add: le32_def)

lemma u32_less: "u32 x < 2 ^ 32"
  unfolding u32_def by (simp add: nat_less_iff)

lemma u32_mod [simp]: "u32 x mod 4294967296 = u32 x"
  using u32_less [of x] by simp

lemma i32_u32: "i32 (int (u32 x)) = i32 x"
  by (simp add: i32_def u32_def mod_add_left_eq)

lemma u32_i32: "n < 2 ^ 32 \<Longrightarrow> u32 (i32 (int n)) = n"
  by (simp add: i32_def u32_def mod_diff_left_eq)

lemma u32_int [simp]: "n < 2 ^ 32 \<Longrightarrow> u32 (int n) = n"
  by (simp add: u32_def)

lemma byte_split:
  "n mod 256 + 256 * (n div 256 mod 256) + 65536 * (n div 65536 mod 256) +
     16777216 * (n div 16777216 mod 256) = n mod 2 ^ 32" for n :: nat
proof -
  have a: "n mod (256 * 256) = 256 * (n div 256 mod 256) + n mod 256" by (rule mod_mult2_eq)
  have b: "n mod (65536 * 256) = 65536 * (n div 65536 mod 256) + n mod 65536" by (rule mod_mult2_eq)
  have c: "n mod (16777216 * 256) = 16777216 * (n div 16777216 mod 256) + n mod 16777216"
    by (rule mod_mult2_eq)
  from a b c show ?thesis by simp
qed

lemma get32_le32_append: "get32 (le32 n @ r) = n mod 2 ^ 32"
  using byte_split [of n] by (simp add: get32_def le32_def)

lemma get32_le32 [simp]: "get32 (le32 n) = n mod 2 ^ 32"
  using get32_le32_append [of n "[]"] by simp

lemma get32_cong: "take 4 s = take 4 t \<Longrightarrow> get32 s = get32 t"
proof -
  assume a: "take 4 s = take 4 t"
  have "s ! i = t ! i" if "i < 4" for i
    using arg_cong [OF a, of "\<lambda>l. l ! i"] that by simp
  then show ?thesis by (simp add: get32_def)
qed

lemma get32_less: "get32 s < 2 ^ 32"
proof -
  have "(of_char c :: nat) \<le> 255" for c using nat_of_char_less_256 [of c] by linarith
  then have "of_char (s ! 0) \<le> (255::nat)" "of_char (s ! 1) \<le> (255::nat)"
    "of_char (s ! 2) \<le> (255::nat)" "of_char (s ! 3) \<le> (255::nat)" by blast+
  then show ?thesis unfolding get32_def by simp
qed

lemma length_slice: "length (slice p n s) = min n (length s - p)"
  by (simp add: slice_def)

lemma slice_slice: "p' + n' \<le> n \<Longrightarrow> slice p' n' (slice p n s) = slice (p + p') n' s"
  by (simp add: slice_def take_drop min_def add.commute add.left_commute)

lemma slice_append_split: "slice p (m + n) s = slice p m s @ slice (p + m) n s"
  by (simp add: slice_def take_add add.commute)

lemma slice_all: "length s = n \<Longrightarrow> slice 0 n s = s"
  by (simp add: slice_def)

lemma overwrite_in: "p \<le> length s \<Longrightarrow> overwrite p bs s = take p s @ bs @ drop (p + length bs) s"
  by (simp add: overwrite_def)

lemma length_overwrite:
  "p + length bs \<le> length s \<Longrightarrow> length (overwrite p bs s) = length s"
  by (simp add: overwrite_in)

lemma slice_overwrite_same:
  "p \<le> length s \<Longrightarrow> n = length bs \<Longrightarrow> slice p n (overwrite p bs s) = bs"
  by (simp add: overwrite_in slice_def)

lemma nth_overwrite:
  assumes "p + length bs \<le> length s" and "i < length s"
  shows "overwrite p bs s ! i = (if p \<le> i \<and> i < p + length bs then bs ! (i - p) else s ! i)"
  using assms by (auto simp: overwrite_in nth_append)

lemma slice_overwrite_other:
  assumes "p + length bs \<le> length s" and "q + n \<le> p \<or> p + length bs \<le> q"
  shows "slice q n (overwrite p bs s) = slice q n s"
proof (rule nth_equalityI)
  show "length (slice q n (overwrite p bs s)) = length (slice q n s)"
    using assms(1) by (simp add: length_slice length_overwrite)
  fix i
  assume "i < length (slice q n (overwrite p bs s))"
  then have i: "i < n" "q + i < length s" using assms(1) by (auto simp: length_slice length_overwrite)
  then show "slice q n (overwrite p bs s) ! i = slice q n s ! i"
    using assms by (simp add: slice_def nth_overwrite length_overwrite) auto
qed

lemma slice_overwrite_inside:
  assumes "p + length bs \<le> length s" and "p \<le> q" and "q + n \<le> p + length bs"
  shows "slice q n (overwrite p bs s) = slice (q - p) n bs"
proof -
  obtain d where d: "q = p + d" using assms(2) le_Suc_ex by blast
  have "slice q n (overwrite p bs s) = slice d n (slice p (length bs) (overwrite p bs s))"
    using assms d by (simp add: slice_slice)
  then show ?thesis using assms d by (simp add: slice_overwrite_same)
qed

lemma take_overwrite: "n \<le> p \<Longrightarrow> p \<le> length s \<Longrightarrow> take n (overwrite p bs s) = take n s"
  by (simp add: overwrite_in min_def)

section \<open>Reasoning about computations on files\<close>

text \<open>
  \<open>runs m f P E\<close>: \<open>m\<close> does not panic on the handle \<open>f\<close>; if it succeeds \<open>P\<close> holds of its result
  and the handle, if it fails \<open>E\<close> holds of the handle. \<open>after f c f'\<close>: \<open>f'\<close> is the handle \<open>f\<close>
  some operations later, when the bytes of the file are \<open>c\<close>; \<open>faulty f\<close>: the device dies at
  some point.
\<close>

definition runs :: "'a io \<Rightarrow> file_handle \<Rightarrow> ('a \<Rightarrow> file_handle \<Rightarrow> bool) \<Rightarrow> (file_handle \<Rightarrow> bool) \<Rightarrow> bool" where
  "runs m f P E \<longleftrightarrow>
     (case m f of None \<Rightarrow> False | Some (Inl _, f') \<Rightarrow> E f' | Some (Inr x, f') \<Rightarrow> P x f')"

definition faulty :: "file_handle \<Rightarrow> bool" where
  "faulty f \<longleftrightarrow> faults f \<noteq> None"

definition after :: "file_handle \<Rightarrow> string \<Rightarrow> file_handle \<Rightarrow> bool" where
  "after f c f' \<longleftrightarrow> content f' = c \<and> torn f' = torn f \<and> blockdev f' = blockdev f \<and>
     (faulty f' \<longrightarrow> faulty f)"

lemma afterD: "after f c f' \<Longrightarrow> content f' = c \<and> torn f' = torn f \<and> (faulty f' \<longrightarrow> faulty f)"
  by (simp add: after_def)

lemma after_refl: "after f (content f) f"
  by (simp add: after_def)

lemma after_trans: "after f c f' \<Longrightarrow> after f' c' f'' \<Longrightarrow> after f c' f''"
  by (simp add: after_def)

named_theorems io_rules \<open>verification rules for the operations on files\<close>

lemma runs_cases:
  assumes "runs m f P E"
  obtains (ok) x f' where "m f = Some (Inr x, f')" "P x f'"
  | (err) e f' where "m f = Some (Inl e, f')" "E f'"
proof (cases "m f")
  case None
  with assms show thesis by (simp add: runs_def)
next
  case (Some r)
  obtain v f' where "r = (v, f')" by fastforce
  with Some assms ok err show thesis by (cases v) (simp_all add: runs_def)
qed

lemma runs_conseq:
  "runs m f P E \<Longrightarrow> (\<And>x f'. P x f' \<Longrightarrow> P' x f') \<Longrightarrow> (\<And>f'. E f' \<Longrightarrow> E' f') \<Longrightarrow> runs m f P' E'"
  by (auto simp: runs_def split: option.splits sum.splits)

lemma runs_return [io_rules]: "P x f \<Longrightarrow> runs (return_ok x) f P E"
  by (simp add: runs_def return_ok_def)

lemma runs_fail [io_rules]: "E f \<Longrightarrow> runs (fail_with msg) f P E"
  by (simp add: runs_def fail_with_def)

lemma runs_check [io_rules]:
  "runs m f (\<lambda>x f'. runs (k x) f' P E) E \<Longrightarrow> runs (check m msg k) f P E"
  by (erule runs_cases) (simp_all add: runs_def check_def)

lemma runs_attempt [io_rules]:
  "runs m f (\<lambda>x f'. runs (k x) f' P E) E \<Longrightarrow> runs (attempt m k) f P E"
  by (erule runs_cases) (simp_all add: runs_def attempt_def)

lemma runs_check_pure: "runs (k x) f P E \<Longrightarrow> runs (check_pure (Inr x) msg k) f P E"
  by (simp add: runs_def check_pure_def)

lemma runs_check_pure_err: "E f \<Longrightarrow> runs (check_pure (Inl e) msg k) f P E"
  by (simp add: runs_def check_pure_def)

lemma runs_guard: "runs (k x) f P E \<Longrightarrow> runs (guard_panic (Some x) k) f P E"
  by (simp add: runs_def guard_panic_def)

lemma runs_seek [io_rules]:
  assumes "0 \<le> off" and "\<And>f'. after f (content f) f' \<Longrightarrow> offset f' = nat off \<Longrightarrow> P () f'"
  shows "runs (seek off) f P E"
  using assms by (simp add: runs_def seek_def after_def faulty_def)

lemma tick_cases:
  obtains (dead) "faulty f" "tick f = Some (Inl (Plain ''input/output error''), f)"
  | (alive) f' where "tick f = Some (Inr (), f')" "after f (content f) f'" "offset f' = offset f"
proof (cases "faults f")
  case None
  then have "tick f = Some (Inr (), f)" by (simp add: tick_def)
  then show thesis using alive after_refl by blast
next
  case (Some n)
  then show thesis using dead alive by (cases n) (auto simp: tick_def after_def faulty_def)
qed

lemma runs_tick [io_rules]:
  assumes "\<And>f'. after f (content f) f' \<Longrightarrow> offset f' = offset f \<Longrightarrow> P () f'"
    and "faulty f \<Longrightarrow> E f"
  shows "runs tick f P E"
  by (cases f rule: tick_cases) (use assms in \<open>simp_all add: runs_def\<close>)

lemma runs_stat [io_rules]:
  assumes "\<And>f'. after f (content f) f' \<Longrightarrow> offset f' = offset f \<Longrightarrow>
      P (if blockdev f then 0 else length (content f)) f'"
    and "faulty f \<Longrightarrow> E f"
  shows "runs stat_size f P E"
  by (cases f rule: tick_cases) (use assms in \<open>simp_all add: runs_def stat_size_def\<close>)

lemma runs_seek_end [io_rules]:
  assumes "\<And>f'. after f (content f) f' \<Longrightarrow> P (length (content f)) f'"
  shows "runs seek_end f P E"
  using assms by (simp add: runs_def seek_end_def after_def faulty_def)

lemma runs_read [io_rules]:
  assumes "offset f + n \<le> length (content f)"
    and "\<And>f'. after f (content f) f' \<Longrightarrow> P (slice (offset f) n (content f)) f'"
    and "faulty f \<Longrightarrow> E f"
  shows "runs (read_full n) f P E"
proof (cases f rule: tick_cases)
  case (alive f')
  then have "after f (content f) (f'\<lparr>offset := offset f + n\<rparr>)"
    by (simp add: after_def faulty_def)
  with assms(1,2) alive show ?thesis by (simp add: runs_def read_full_def)
qed (use assms in \<open>simp add: runs_def read_full_def\<close>)

lemma runs_write [io_rules]:
  assumes "\<And>f'. after f (overwrite (offset f) bs (content f)) f' \<Longrightarrow>
      offset f' = offset f + length bs \<Longrightarrow> P () f'"
    and "\<And>f' old. faulty f \<Longrightarrow> after f (overwrite (offset f) (torn f old bs) (content f)) f' \<Longrightarrow> E f'"
  shows "runs (write_file bs) f P E"
proof (cases f rule: tick_cases)
  case (alive f')
  then have "after f (overwrite (offset f) bs (content f))
      (f'\<lparr>content := overwrite (offset f) bs (content f), offset := offset f + length bs\<rparr>)"
    by (simp add: after_def faulty_def)
  with assms(1) alive show ?thesis by (simp add: runs_def write_file_def)
next
  case dead
  let ?c = "overwrite (offset f) (torn f (slice (offset f) (length bs) (content f)) bs) (content f)"
  have "after f ?c (f\<lparr>content := ?c\<rparr>)" by (simp add: after_def faulty_def)
  with assms(2) dead show ?thesis by (simp add: runs_def write_file_def)
qed

end
