(* ===== verification/Buddy.thy ===== *)
theory Buddy
  imports Prelude
begin

text \<open>
  Buddy trees: the functional data structure behind the array of
  \<^verbatim>\<open>pkg/diskrpc/allocator.go\<close>. A tree of height \<open>h\<close> manages \<open>2 ^ h\<close> units; a node's
  value is the size of the largest free block below it, and the negated size of the
  node when the whole node is allocated. The abstraction is the set of allocated
  blocks \<open>(a, k)\<close>: first unit \<open>a\<close>, size \<open>2 ^ k\<close>.

  Nothing here is a translation of code; the theory Allocator proves that the array
  operations of the code are these tree operations.
\<close>

datatype buddy = Tip (val: int) | Fork (val: int) buddy buddy

section \<open>Operations\<close>

fun full :: "nat \<Rightarrow> buddy" where
  "full 0 = Tip 1"
| "full (Suc h) = Fork (2 ^ Suc h) (full h) (full h)"

definition best :: "buddy \<Rightarrow> buddy \<Rightarrow> int" where
  "best l r = max (max (val l) (val r)) 0"

fun t_alloc :: "nat \<Rightarrow> buddy \<Rightarrow> int \<Rightarrow> buddy \<times> nat" where
  "t_alloc h (Tip f) s = (Tip (- f), 0)"
| "t_alloc h (Fork f l r) s =
     (if val l < s \<and> val r < s then (Fork (- f) l r, 0)
      else if s \<le> val l
      then (case t_alloc (h - 1) l s of (l', a) \<Rightarrow> (Fork (best l' r) l' r, a))
      else (case t_alloc (h - 1) r s of (r', a) \<Rightarrow> (Fork (best l r') l r', 2 ^ (h - 1) + a)))"

definition joined :: "nat \<Rightarrow> buddy \<Rightarrow> buddy \<Rightarrow> int" where
  "joined h l r = (if val l + val r = 2 ^ h then 2 ^ h else best l r)"

fun t_free :: "nat \<Rightarrow> buddy \<Rightarrow> int \<Rightarrow> buddy option" where
  "t_free h (Tip f) a = (if f < 0 \<and> a = 0 then Some (Tip (- f)) else None)"
| "t_free h (Fork f l r) a =
     (if f < 0 then (if a = 0 then Some (Fork (- f) l r) else None)
      else if a < 2 ^ (h - 1)
      then map_option (\<lambda>l'. Fork (joined h l' r) l' r) (t_free (h - 1) l a)
      else map_option (\<lambda>r'. Fork (joined h l r') l r') (t_free (h - 1) r (a - 2 ^ (h - 1))))"

section \<open>Invariant and abstraction\<close>

text \<open>
  A node is wholly free, wholly allocated (in both cases the subtrees keep the values of
  a free tree), or split, and then at least one unit below it is allocated.
\<close>

fun tinv :: "nat \<Rightarrow> buddy \<Rightarrow> bool" where
  "tinv 0 (Tip f) = (f = 1 \<or> f = - 1)"
| "tinv (Suc h) (Fork f l r) =
     ((l = full h \<and> r = full h \<and> (f = 2 ^ Suc h \<or> f = - (2 ^ Suc h))) \<or>
      (tinv h l \<and> tinv h r \<and> \<not> (l = full h \<and> r = full h) \<and> f = best l r))"
| "tinv _ _ = False"

definition shift :: "nat \<Rightarrow> (nat \<times> nat) set \<Rightarrow> (nat \<times> nat) set" where
  "shift d B = (\<lambda>(a, k). (d + a, k)) ` B"

fun blocks :: "nat \<Rightarrow> buddy \<Rightarrow> (nat \<times> nat) set" where
  "blocks h (Tip f) = (if f < 0 then {(0, h)} else {})"
| "blocks h (Fork f l r) =
     (if f < 0 then {(0, h)} else blocks (h - 1) l \<union> shift (2 ^ (h - 1)) (blocks (h - 1) r))"

lemma mem_shift: "(a, k) \<in> shift d B \<longleftrightarrow> d \<le> a \<and> (a - d, k) \<in> B"
  by (force simp: shift_def)

lemma shift_empty [simp]: "shift d {} = {}"
  by (simp add: shift_def)

lemma shift_insert: "shift d (insert (a, k) B) = insert (d + a, k) (shift d B)"
  by (simp add: shift_def)

lemma shift_remove: "shift d (B - {(a, k)}) = shift d B - {(d + a, k)}"
  by (auto simp: shift_def)

lemma shift_eq_iff: "shift d A = shift d B \<longleftrightarrow> A = B"
  unfolding shift_def by (intro inj_image_eq_iff) (auto simp: inj_def)

lemma shift_empty_iff [simp]: "shift d B = {} \<longleftrightarrow> B = {}"
  by (simp add: shift_def)

lemma val_full [simp]: "val (full h) = 2 ^ h"
  by (cases h) simp_all

lemma blocks_full [simp]: "blocks k (full h) = {}"
proof (induction h arbitrary: k)
  case (Suc h)
  have "\<not> (2::int) ^ Suc h < 0" by (simp add: not_less)
  with Suc show ?case by simp
qed simp

lemma tinv_full [simp]: "tinv h (full h)"
  by (cases h) simp_all

lemma best_nonneg [simp]: "0 \<le> best l r" "\<not> best l r < 0"
  by (simp_all add: best_def)

text \<open>The three shapes of a valid node, as one case rule.\<close>

lemma tinv_Suc_cases:
  assumes "tinv (Suc h) t"
  obtains (whole) "t = full (Suc h)"
  | (taken) "t = Fork (- (2 ^ Suc h)) (full h) (full h)"
  | (split) l r where "t = Fork (best l r) l r" "tinv h l" "tinv h r"
      "\<not> (l = full h \<and> r = full h)"
  using assms by (cases t) auto

lemma tinv_0_cases:
  assumes "tinv 0 t"
  obtains (whole) "t = full 0" | (taken) "t = Tip (- 1)"
  using assms by (cases t) auto

lemma val_le: "tinv h t \<Longrightarrow> val t \<le> 2 ^ h"
proof (induction h arbitrary: t)
  case 0
  then show ?case by (auto elim: tinv_0_cases)
next
  case (Suc h)
  from Suc.prems show ?case
  proof (cases rule: tinv_Suc_cases)
    case (split l r)
    with Suc.IH have "val l \<le> 2 ^ h" "val r \<le> 2 ^ h" by auto
    then have "best l r \<le> 2 ^ h" by (simp add: best_def)
    moreover have "(0::int) \<le> 2 ^ h" by simp
    ultimately show ?thesis using split(1) by (simp only: power_Suc buddy.sel)
  qed (auto intro: order_trans [of _ 0])
qed

lemma val_ge: "tinv h t \<Longrightarrow> - (2 ^ h) \<le> val t"
proof (cases h)
  case (Suc n)
  assume "tinv h t"
  then have "tinv (Suc n) t" using Suc by simp
  then show ?thesis
  proof (cases rule: tinv_Suc_cases)
    case (split l r)
    have "- (2 ^ h) \<le> (0::int)" by simp
    also have "0 \<le> best l r" by simp
    finally show ?thesis using split(1) by simp
  qed (simp_all add: Suc)
qed (auto elim: tinv_0_cases)

lemma val_full_iff:
  assumes "tinv h t"
  shows "val t = 2 ^ h \<longleftrightarrow> t = full h"
proof (cases h)
  case 0
  with assms show ?thesis by (auto elim: tinv_0_cases)
next
  case (Suc n)
  have pos: "(0::int) < 2 ^ n" by simp
  from assms[unfolded Suc] show ?thesis
  proof (cases rule: tinv_Suc_cases)
    case (split l r)
    with val_le have "val l \<le> 2 ^ n" "val r \<le> 2 ^ n" by auto
    then have "best l r \<le> 2 ^ n" by (simp add: best_def)
    with pos have "best l r \<noteq> 2 ^ Suc n" by (simp only: power_Suc)
    with split Suc show ?thesis by auto
  next
    case taken
    with pos Suc show ?thesis by auto
  qed (use Suc in simp)
qed

lemma blocks_empty_iff:
  assumes "tinv h t"
  shows "blocks h t = {} \<longleftrightarrow> t = full h"
  using assms
proof (induction h arbitrary: t)
  case 0
  then show ?case by (auto elim: tinv_0_cases)
next
  case (Suc h)
  from Suc.prems show ?case
  proof (cases rule: tinv_Suc_cases)
    case (split l r)
    with Suc.IH show ?thesis by auto
  qed auto
qed

text \<open>Allocated blocks lie inside the tree's range, are aligned, and do not overlap.\<close>

lemma blocks_bounds:
  assumes "tinv h t" and "(a, k) \<in> blocks h t"
  shows "k \<le> h \<and> 2 ^ k dvd a \<and> a + 2 ^ k \<le> 2 ^ h"
  using assms
proof (induction h arbitrary: t a)
  case 0
  then show ?case by (auto elim!: tinv_0_cases)
next
  case (Suc h)
  from Suc.prems(1) show ?case
  proof (cases rule: tinv_Suc_cases)
    case (split l r)
    with Suc.prems(2) consider "(a, k) \<in> blocks h l" | "2 ^ h \<le> a" "(a - 2 ^ h, k) \<in> blocks h r"
      by (auto simp: mem_shift)
    then show ?thesis
    proof cases
      case 1
      with Suc.IH split(2) show ?thesis by fastforce
    next
      case 2
      from Suc.IH[OF split(3) 2(2)]
      have "k \<le> h" "2 ^ k dvd a - 2 ^ h" "a - 2 ^ h + 2 ^ k \<le> 2 ^ h" by auto
      moreover from this(1) have "(2::nat) ^ k dvd 2 ^ h" by (rule le_imp_power_dvd)
      ultimately have "2 ^ k dvd a" using 2(1) dvd_diffD by blast
      with \<open>k \<le> h\<close> \<open>a - 2 ^ h + 2 ^ k \<le> 2 ^ h\<close> 2(1) show ?thesis by simp
    qed
  qed (use Suc.prems(2) in \<open>simp_all split: if_splits\<close>)
qed

definition apart :: "nat \<times> nat \<Rightarrow> nat \<times> nat \<Rightarrow> bool" where
  "apart x y \<longleftrightarrow> fst x + 2 ^ snd x \<le> fst y \<or> fst y + 2 ^ snd y \<le> fst x"

lemma blocks_apart:
  assumes "tinv h t" and "x \<in> blocks h t" and "y \<in> blocks h t" and "x \<noteq> y"
  shows "apart x y"
  using assms
proof (induction h arbitrary: t x y)
  case 0
  then show ?case by (auto elim!: tinv_0_cases split: if_splits)
next
  case (Suc h)
  from Suc.prems(1) show ?case
  proof (cases rule: tinv_Suc_cases)
    case (split l r)
    have L: "fst z + 2 ^ snd z \<le> 2 ^ h" if "z \<in> blocks h l" for z
      using blocks_bounds[OF split(2)] that by (cases z) auto
    have R: "2 ^ h \<le> fst z \<and> (fst z - 2 ^ h, snd z) \<in> blocks h r"
      if "z \<in> shift (2 ^ h) (blocks h r)" for z
      using that by (cases z) (auto simp: mem_shift)
    from Suc.prems(2,3) split(1) have
      "x \<in> blocks h l \<or> x \<in> shift (2 ^ h) (blocks h r)"
      "y \<in> blocks h l \<or> y \<in> shift (2 ^ h) (blocks h r)" by auto
    then consider "x \<in> blocks h l" "y \<in> blocks h l"
      | "x \<in> blocks h l" "y \<in> shift (2 ^ h) (blocks h r)"
      | "x \<in> shift (2 ^ h) (blocks h r)" "y \<in> blocks h l"
      | "x \<in> shift (2 ^ h) (blocks h r)" "y \<in> shift (2 ^ h) (blocks h r)" by blast
    then show ?thesis
    proof cases
      case 1
      with Suc.IH split(2) Suc.prems(4) show ?thesis by blast
    next
      case 2
      with L R show ?thesis unfolding apart_def by (meson le_trans)
    next
      case 3
      with L R show ?thesis unfolding apart_def by (meson le_trans)
    next
      case 4
      from R[OF 4(1)] R[OF 4(2)] Suc.prems(4)
      have "apart (fst x - 2 ^ h, snd x) (fst y - 2 ^ h, snd y)"
        by (intro Suc.IH[OF split(3)]) (auto simp: prod_eq_iff)
      with R[OF 4(1)] R[OF 4(2)] show ?thesis unfolding apart_def by auto
    qed
  qed (use Suc.prems(2-4) in \<open>simp_all split: if_splits\<close>)
qed

section \<open>Allocation\<close>

text \<open>
  \<open>t_alloc\<close> is called where the tree can serve the request. It returns the start of a
  fresh block of the least power of two that is large enough.
\<close>

definition fits :: "nat \<Rightarrow> int \<Rightarrow> bool" where
  "fits k s \<longleftrightarrow> s \<le> 2 ^ k \<and> (k = 0 \<or> 2 ^ (k - 1) < s)"

definition grown :: "nat \<Rightarrow> int \<Rightarrow> buddy \<Rightarrow> buddy \<times> nat \<Rightarrow> bool" where
  "grown h s t res \<longleftrightarrow>
     tinv h (fst res) \<and>
     (\<exists>k. fits k s \<and> (snd res, k) \<notin> blocks h t \<and>
          blocks h (fst res) = insert (snd res, k) (blocks h t))"

lemma grown_not_full: "grown h s t res \<Longrightarrow> fst res \<noteq> full h"
  by (auto simp: grown_def dest: blocks_empty_iff)

lemma grown_left:
  assumes "grown h s l (l', a)" and "tinv h r" and "\<not> f < 0"
  shows "grown (Suc h) s (Fork f l r) (Fork (best l' r) l' r, a)"
proof -
  from assms(1) obtain k where k: "tinv h l'" "fits k s" "(a, k) \<notin> blocks h l"
    "blocks h l' = insert (a, k) (blocks h l)" by (auto simp: grown_def)
  have "a < 2 ^ h"
    using blocks_bounds[of h l' a k] k add_power_le_imp_less by auto
  then have "(a, k) \<notin> shift (2 ^ h) (blocks h r)" by (simp add: mem_shift)
  with k assms(2,3) grown_not_full[OF assms(1)] show ?thesis
    by (auto simp: grown_def)
qed

lemma grown_right:
  assumes "grown h s r (r', a)" and "tinv h l" and "\<not> f < 0"
  shows "grown (Suc h) s (Fork f l r) (Fork (best l r') l r', 2 ^ h + a)"
proof -
  from assms(1) obtain k where k: "tinv h r'" "fits k s" "(a, k) \<notin> blocks h r"
    "blocks h r' = insert (a, k) (blocks h r)" by (auto simp: grown_def)
  have "(2 ^ h + a, k) \<notin> blocks h l"
    using blocks_bounds[OF assms(2), of "2 ^ h + a" k] by auto
  with k assms(2,3) grown_not_full[OF assms(1)] show ?thesis
    by (auto simp: grown_def shift_insert mem_shift)
qed

lemma t_alloc_grown:
  assumes "tinv h t" and "0 < s" and "s \<le> val t"
  shows "grown h s t (t_alloc h t s)"
  using assms
proof (induction h arbitrary: t)
  case 0
  then have "t = Tip 1" by (auto elim: tinv_0_cases)
  with 0 show ?case by (simp add: grown_def fits_def)
next
  case (Suc h)
  from Suc.prems(1) show ?case
  proof (cases rule: tinv_Suc_cases)
    case whole
    show ?thesis
    proof (cases "2 ^ h < s")
      case True
      with whole Suc.prems show ?thesis by (simp add: grown_def fits_def)
    next
      case False
      obtain l' a where la: "t_alloc h (full h) s = (l', a)" by fastforce
      have "grown h s (full h) (l', a)"
        using Suc.IH[of "full h"] Suc.prems(2) False la by simp
      from grown_left[OF this tinv_full, of "2 ^ Suc h"] whole False la
      show ?thesis by (simp add: not_less)
    qed
  next
    case taken
    have "(0::int) < 2 ^ Suc h" by simp
    with taken Suc.prems show ?thesis by (simp only: buddy.sel)
  next
    case (split l r)
    show ?thesis
    proof (cases "s \<le> val l")
      case True
      obtain l' a where la: "t_alloc h l s = (l', a)" by fastforce
      with Suc.IH[OF split(2) Suc.prems(2) True] have "grown h s l (l', a)" by simp
      from grown_left[OF this split(3), of "best l r"] split True la show ?thesis by simp
    next
      case False
      with Suc.prems split have r: "s \<le> val r" by (auto simp: best_def split: if_splits)
      obtain r' a where ra: "t_alloc h r s = (r', a)" by fastforce
      with Suc.IH[OF split(3) Suc.prems(2) r] have "grown h s r (r', a)" by simp
      from grown_right[OF this split(2), of "best l r"] split False r ra show ?thesis by simp
    qed
  qed
qed

text \<open>
  Completeness: the root value is the size of the largest free aligned block, so a request
  is refused only when no aligned block of a sufficient power of two is free.
\<close>

definition free_block :: "nat \<Rightarrow> buddy \<Rightarrow> nat \<Rightarrow> nat \<Rightarrow> bool" where
  "free_block h t a k \<longleftrightarrow>
     2 ^ k dvd a \<and> a + 2 ^ k \<le> 2 ^ h \<and> (\<forall>b \<in> blocks h t. apart (a, k) b)"

lemma aligned_split:
  assumes "2 ^ k dvd (a::nat)" and "k \<le> h" and "a < 2 ^ h"
  shows "a + 2 ^ k \<le> 2 ^ h"
proof -
  from assms(1) obtain q where q: "a = 2 ^ k * q" ..
  have h: "(2::nat) ^ h = 2 ^ k * 2 ^ (h - k)"
    using assms(2) by (simp flip: power_add)
  from assms(3) have "q < 2 ^ (h - k)" unfolding q h by simp
  then have "2 ^ k * (q + 1) \<le> 2 ^ k * (2::nat) ^ (h - k)" by (intro mult_le_mono) auto
  then show ?thesis by (simp add: q h)
qed

lemma val_ge_free_block:
  assumes "tinv h t" and "free_block h t a k"
  shows "2 ^ k \<le> val t"
  using assms
proof (induction h arbitrary: t a)
  case 0
  have "(1::nat) \<le> 2 ^ k" by simp
  moreover have "a + 2 ^ k \<le> 1" using 0(2) by (simp add: free_block_def)
  ultimately have "a = 0" "(2::nat) ^ k = 1" by linarith+
  moreover from this(2) have "k = 0" by simp
  ultimately show ?case using 0 by (auto simp: free_block_def apart_def elim!: tinv_0_cases)
next
  case (Suc h)
  have fit: "a + 2 ^ k \<le> 2 ^ Suc h" using Suc.prems(2) by (simp add: free_block_def)
  have pos: "(0::nat) < 2 ^ k" by simp
  from fit have "(2::nat) ^ k \<le> 2 ^ Suc h" by simp
  then have kh: "k \<le> Suc h" by (rule power_le_imp_le_exp [rotated]) simp
  from Suc.prems(1) show ?case
  proof (cases rule: tinv_Suc_cases)
    case whole
    with kh show ?thesis by (simp only: val_full) (rule power_increasing, auto)
  next
    case taken
    have "a < 2 ^ Suc h" using fit by (rule add_power_le_imp_less)
    moreover have "apart (a, k) (0, Suc h)" using Suc.prems(2) taken by (simp add: free_block_def)
    ultimately have False by (simp add: apart_def)
    then show ?thesis ..
  next
    case (split l r)
    show ?thesis
    proof (cases "k = Suc h")
      case True
      with fit have "a = 0" by simp
      have "blocks (Suc h) t \<noteq> {}"
        using split blocks_empty_iff by auto
      then obtain b where b: "b \<in> blocks (Suc h) t" by blast
      then have "fst b + 2 ^ snd b \<le> 2 ^ Suc h" "apart (a, k) b"
        using blocks_bounds[OF Suc.prems(1), of "fst b" "snd b"] Suc.prems(2)
        by (auto simp: free_block_def)
      moreover have "(0::nat) < 2 ^ snd b" by simp
      ultimately have False
        unfolding apart_def using True \<open>a = 0\<close> by simp
      then show ?thesis ..
    next
      case False
      with kh have "k \<le> h" by simp
      then have dh: "(2::nat) ^ k dvd 2 ^ h" by (rule le_imp_power_dvd)
      have al: "2 ^ k dvd a" using Suc.prems(2) by (simp add: free_block_def)
      show ?thesis
      proof (cases "a < 2 ^ h")
        case True
        with al \<open>k \<le> h\<close> have "free_block h l a k"
          using Suc.prems(2) split(1) aligned_split
          by (simp add: free_block_def)
        with Suc.IH split have "2 ^ k \<le> val l" by blast
        with split(1) show ?thesis by (simp add: best_def)
      next
        case False
        have "apart (a - 2 ^ h, k) b" if "b \<in> blocks h r" for b
        proof -
          obtain b1 b2 where b: "b = (b1, b2)" by fastforce
          with that split(1) have "(2 ^ h + b1, b2) \<in> blocks (Suc h) t"
            by (simp add: mem_shift)
          with Suc.prems(2) have "apart (a, k) (2 ^ h + b1, b2)"
            by (auto simp: free_block_def)
          with False b show ?thesis by (auto simp: apart_def)
        qed
        moreover have "2 ^ k dvd a - 2 ^ h" using al dh by (rule dvd_diff_nat)
        ultimately have "free_block h r (a - 2 ^ h) k"
          using fit False by (simp add: free_block_def)
        with Suc.IH split have "2 ^ k \<le> val r" by blast
        with split(1) show ?thesis by (simp add: best_def)
      qed
    qed
  qed
qed

lemma val_iff_free_block:
  assumes "tinv h t" and "0 < s"
  shows "s \<le> val t \<longleftrightarrow> (\<exists>a k. s \<le> 2 ^ k \<and> free_block h t a k)"
proof
  assume le: "s \<le> val t"
  define t' a where "t' = fst (t_alloc h t s)" and "a = snd (t_alloc h t s)"
  from t_alloc_grown[OF assms le] obtain k where k: "tinv h t'" "fits k s"
    "(a, k) \<notin> blocks h t" "blocks h t' = insert (a, k) (blocks h t)"
    by (auto simp: grown_def t'_def a_def)
  then have "free_block h t a k"
    using blocks_bounds[OF k(1), of a k] blocks_apart[OF k(1), of "(a, k)"]
    by (auto simp: free_block_def)
  with k(2) show "\<exists>a k. s \<le> 2 ^ k \<and> free_block h t a k" by (auto simp: fits_def)
next
  assume "\<exists>a k. s \<le> 2 ^ k \<and> free_block h t a k"
  then show "s \<le> val t" using val_ge_free_block[OF assms(1)] order_trans by blast
qed

section \<open>Release\<close>

lemma joined_node:
  assumes "tinv h l" and "tinv h r"
  shows "tinv (Suc h) (Fork (joined (Suc h) l r) l r)"
    and "blocks (Suc h) (Fork (joined (Suc h) l r) l r) =
           blocks h l \<union> shift (2 ^ h) (blocks h r)"
proof -
  have j: "\<not> joined (Suc h) l r < 0"
    by (auto simp: joined_def not_less)
  show "blocks (Suc h) (Fork (joined (Suc h) l r) l r) =
           blocks h l \<union> shift (2 ^ h) (blocks h r)"
    using j by simp
  have "l = full h \<and> r = full h \<longleftrightarrow> val l + val r = 2 ^ Suc h"
  proof -
    have "val l + val r = 2 ^ Suc h \<longleftrightarrow> val l = 2 ^ h \<and> val r = 2 ^ h"
      using val_le[OF assms(1)] val_le[OF assms(2)] by auto
    then show ?thesis using val_full_iff assms by blast
  qed
  then show "tinv (Suc h) (Fork (joined (Suc h) l r) l r)"
    using assms by (auto simp: joined_def)
qed

lemma t_free_Some:
  assumes "tinv h t" and "(a, k) \<in> blocks h t"
  shows "\<exists>t'. t_free h t (int a) = Some t' \<and> tinv h t' \<and> blocks h t' = blocks h t - {(a, k)}"
  using assms
proof (induction h arbitrary: t a)
  case 0
  then show ?case by (auto elim!: tinv_0_cases)
next
  case (Suc h)
  from Suc.prems(1) show ?case
  proof (cases rule: tinv_Suc_cases)
    case whole
    with Suc.prems(2) show ?thesis by (simp only: blocks_full) simp
  next
    case taken
    with Suc.prems(2) show ?thesis by (auto simp flip: full.simps(2))
  next
    case (split l r)
    from split(1) Suc.prems(2) consider (L) "(a, k) \<in> blocks h l"
      | (R) "2 ^ h \<le> a" "(a - 2 ^ h, k) \<in> blocks h r"
      by (auto simp: mem_shift)
    then show ?thesis
    proof cases
      case L
      have lt: "a < 2 ^ h"
        using blocks_bounds[OF split(2) L] add_power_le_imp_less by blast
      then have notR: "(a, k) \<notin> shift (2 ^ h) (blocks h r)" by (simp add: mem_shift)
      from Suc.IH[OF split(2) L] obtain l' where l': "t_free h l (int a) = Some l'"
        "tinv h l'" "blocks h l' = blocks h l - {(a, k)}" by blast
      moreover from lt have "int a < 2 ^ h" by simp
      moreover note joined_node[OF l'(2) split(3)]
      ultimately show ?thesis using split(1) notR by auto
    next
      case R
      have notL: "(a, k) \<notin> blocks h l"
        using blocks_bounds[OF split(2), of a k] R(1) add_power_le_imp_less by fastforce
      from Suc.IH[OF split(3) R(2)] obtain r' where r': "t_free h r (int (a - 2 ^ h)) = Some r'"
        "tinv h r'" "blocks h r' = blocks h r - {(a - 2 ^ h, k)}" by blast
      moreover from R(1) have "\<not> int a < 2 ^ h" "int (a - 2 ^ h) = int a - 2 ^ h"
        by (simp_all add: not_less of_nat_diff)
      moreover note joined_node[OF split(2) r'(2)]
      ultimately show ?thesis using split(1) notL R(1) by (auto simp: shift_remove)
    qed
  qed
qed

lemma t_free_None:
  assumes "tinv h t" and "\<And>k a. x = int a \<Longrightarrow> (a, k) \<notin> blocks h t"
  shows "t_free h t x = None"
  using assms
proof (induction h arbitrary: t x)
  case 0
  from 0(1) show ?case
  proof (cases rule: tinv_0_cases)
    case taken
    with 0(2)[of 0 0] show ?thesis by auto
  qed simp
next
  case (Suc h)
  have full: "t_free h (full h) y = None" for y
    using Suc.IH[of "full h"] by simp
  from Suc.prems(1) show ?case
  proof (cases rule: tinv_Suc_cases)
    case whole
    with full show ?thesis by simp
  next
    case taken
    with Suc.prems(2)[of 0 "Suc h"] show ?thesis by auto
  next
    case (split l r)
    have "t_free h l x = None" if "x < 2 ^ h"
      using Suc.prems(2) split(1) by (intro Suc.IH[OF split(2)]) auto
    moreover have "t_free h r (x - 2 ^ h) = None" if "\<not> x < 2 ^ h"
    proof (rule Suc.IH[OF split(3)])
      fix k a assume "x - 2 ^ h = int a"
      then have "x = int (2 ^ h + a)" by simp
      from Suc.prems(2)[OF this, of k] split(1) show "(a, k) \<notin> blocks h r"
        by (simp add: mem_shift)
    qed
    ultimately show ?thesis using split(1) by simp
  qed
qed

lemma t_free_tinv:
  assumes "tinv h t" and "t_free h t x = Some t'"
  shows "tinv h t'"
proof -
  have "\<not> (\<forall>k a. x = int a \<longrightarrow> (a, k) \<notin> blocks h t)"
    using t_free_None[OF assms(1), of x] assms(2) by fastforce
  then obtain a k where "x = int a" "(a, k) \<in> blocks h t" by blast
  with t_free_Some[OF assms(1), of a k] assms(2) show ?thesis by auto
qed

section \<open>The allocated set determines the tree\<close>

lemma blocks_taken:
  assumes "tinv (Suc h) t" and "(0, Suc h) \<in> blocks (Suc h) t"
  shows "t = Fork (- (2 ^ Suc h)) (full h) (full h)"
  using assms(1)
proof (cases rule: tinv_Suc_cases)
  case (split l r)
  then show ?thesis
    using assms(2) blocks_bounds[OF split(2), of 0 "Suc h"] by (auto simp: mem_shift)
qed (use assms(2) in \<open>simp_all only: blocks_full empty_iff\<close>)

lemma blocks_halves:
  assumes "tinv h l"
  shows "blocks h l = {b \<in> blocks h l \<union> shift (2 ^ h) (blocks h r). fst b < 2 ^ h}"
    and "shift (2 ^ h) (blocks h r) =
           {b \<in> blocks h l \<union> shift (2 ^ h) (blocks h r). \<not> fst b < 2 ^ h}"
proof -
  have L: "fst b < 2 ^ h" if "b \<in> blocks h l" for b
    using blocks_bounds[OF assms, of "fst b" "snd b"] that add_power_le_imp_less by auto
  have R: "\<not> fst b < 2 ^ h" if "b \<in> shift (2 ^ h) (blocks h r)" for b
    using that by (cases b) (auto simp: mem_shift)
  show "blocks h l = {b \<in> blocks h l \<union> shift (2 ^ h) (blocks h r). fst b < 2 ^ h}"
    and "shift (2 ^ h) (blocks h r) =
           {b \<in> blocks h l \<union> shift (2 ^ h) (blocks h r). \<not> fst b < 2 ^ h}"
    using L R by auto
qed

lemma blocks_canonical:
  assumes "tinv h t" and "tinv h u" and "blocks h t = blocks h u"
  shows "t = u"
  using assms
proof (induction h arbitrary: t u)
  case 0
  then show ?case by (auto elim!: tinv_0_cases)
next
  case (Suc h)
  from Suc.prems(1) show ?case
  proof (cases rule: tinv_Suc_cases)
    case whole
    then show ?thesis using Suc.prems blocks_empty_iff by (metis blocks_full)
  next
    case taken
    then have "(0, Suc h) \<in> blocks (Suc h) u" using Suc.prems(3) [symmetric] by simp
    with blocks_taken[OF Suc.prems(2)] taken show ?thesis by simp
  next
    case (split l r)
    note tsplit = split
    from Suc.prems(2) show ?thesis
    proof (cases rule: tinv_Suc_cases)
      case whole
      then show ?thesis using Suc.prems blocks_empty_iff by (metis blocks_full)
    next
      case taken
      then have "(0, Suc h) \<in> blocks (Suc h) t" using Suc.prems(3) by simp
      with blocks_taken[OF Suc.prems(1)] taken show ?thesis by simp
    next
      case (split l' r')
      have eq: "blocks h l \<union> shift (2 ^ h) (blocks h r) =
                blocks h l' \<union> shift (2 ^ h) (blocks h r')"
        using Suc.prems(3) tsplit(1) split(1) by simp
      have "blocks h l = blocks h l'"
        using blocks_halves(1)[OF tsplit(2), of r] blocks_halves(1)[OF split(2), of r'] eq
        by simp
      moreover have "blocks h r = blocks h r'"
        using blocks_halves(2)[OF tsplit(2), of r] blocks_halves(2)[OF split(2), of r'] eq
        by (simp add: shift_eq_iff)
      ultimately have "l = l'" "r = r'" using Suc.IH tsplit split by blast+
      then show ?thesis using tsplit(1) split(1) by simp
    qed
  qed
qed

end
