(* ===== verification/Allocator.thy ===== *)
theory Allocator
  imports Buddy
begin

text \<open>
  The buddy allocator of \<^verbatim>\<open>pkg/diskrpc/allocator.go\<close>: a complete binary tree stored in an
  array, where a node holds the size of the largest free block below it, or the negated
  size of the block when the whole node is allocated.

  The first half translates the code. The second half abstracts the array to a tree,
  proves the operations correct on the tree, and exports the contract as the locale
  \<open>block_allocator\<close>, which the mailbox relies on.
\<close>

section \<open>The code\<close>

text \<open>
  \<^verbatim>\<open>type node struct { free int32 }\<close>, \<^verbatim>\<open>type Allocator []*node\<close>: the list of the \<^verbatim>\<open>free\<close>
  fields. \<^verbatim>\<open>Addr\<close> is an \<open>int32\<close>.
\<close>

type_synonym nodes = "int list"

type_synonym addr = int

definition left :: "nat \<Rightarrow> nat" where
  "left pos = 2 * pos + 1"

definition right :: "nat \<Rightarrow> nat" where
  "right pos = 2 * pos + 2"

definition level :: "nat \<Rightarrow> nat" where
  "level pos = floor_log2 (pos + 1)"

definition address :: "nodes \<Rightarrow> nat \<Rightarrow> addr \<times> int" where
  "address nodes pos =
     (let l = level pos;
          sz = (length nodes + 1) div 2 div 2 ^ l;
          off = (int pos - (2 ^ l - 1)) * int sz
      in (i32 off, i32 (int sz)))"

text \<open>
  \<^verbatim>\<open>initialize\<close> fills the subtree at \<open>pos\<close>; the first argument is \<^verbatim>\<open>len(nodes)\<close>, which no
  assignment changes.
\<close>

function initialize :: "nat \<Rightarrow> nodes \<Rightarrow> nat \<Rightarrow> int \<Rightarrow> nodes" where
  "initialize n nodes pos fr =
     (if pos \<ge> n then nodes
      else initialize n
             (initialize n (nodes[pos := fr]) (left pos) (go_div fr 2))
             (right pos) (go_div fr 2))"
  by pat_completeness auto
termination
  by (relation "measure (\<lambda>(n, nodes, pos, fr). n - pos)") (auto simp: left_def right_def)

definition NewAllocatorBySize :: "int \<Rightarrow> go_error + nodes" where
  "NewAllocatorBySize sz =
     (if sz < 0 \<or> ones_count (nat sz) \<noteq> 1
      then Inl (Plain ''size must be a power of 2'')
      else let depth = bit_depth (nat sz);
               n = 2 ^ depth - 1
           in Inr (initialize n (replicate n 0) 0 sz))"

text \<open>
  The shift \<^verbatim>\<open>1 << ((nodeCnt+1)/2)\<close> is an argument of type \<open>int32\<close>, so it wraps: it is 0
  once the shift count passes 31.
\<close>

definition NewAllocatorByNodeCnt :: "int \<Rightarrow> go_error + nodes" where
  "NewAllocatorByNodeCnt nodeCnt =
     (if nodeCnt < 0 \<or> nodeCnt = 2 ^ 31 - 2 \<or>
         ones_count (nat ((nodeCnt + 1) mod 2 ^ 32)) \<noteq> 1
      then Inl (Plain ''size must be a power of 2'')
      else let n = nat nodeCnt
           in Inr (initialize n (replicate n 0) 0 (i32 (2 ^ ((n + 1) div 2)))))"

text \<open>
  \<^verbatim>\<open>alloc\<close>: the new array and the address or the error. A recursive call's error is
  dropped by the code (\<^verbatim>\<open>v, _ = alloc(...)\<close>), its address is then \<open>-1\<close>.
\<close>

function alloc :: "nodes \<Rightarrow> nat \<Rightarrow> int \<Rightarrow> (nodes \<times> (go_error + addr)) option" where
  "alloc nodes pos sz =
     (if pos \<ge> length nodes then None
      else let l = length nodes; fr = nodes ! pos; rightPos = right pos; leftPos = left pos in
      if sz \<le> 0 \<or> fr < sz then Some (nodes, Inl (Plain ''not enough space''))
      else if fr \<ge> sz \<and> (leftPos \<ge> l \<or> nodes ! leftPos < sz) \<and>
              (rightPos \<ge> l \<or> nodes ! rightPos < sz)
      then Some (nodes[pos := i32 (- fr)], Inr (fst (address nodes pos)))
      else if leftPos \<ge> l then None
      else case (if nodes ! leftPos \<ge> sz then alloc nodes leftPos sz
                 else alloc nodes rightPos sz) of
        None \<Rightarrow> None
      | Some (nodes', r) \<Rightarrow>
          if rightPos \<ge> l then None
          else Some (nodes'[pos := max (max (nodes' ! leftPos) (nodes' ! rightPos)) 0],
                     Inr (case r of Inl _ \<Rightarrow> -1 | Inr v \<Rightarrow> v)))"
  by pat_completeness auto
termination
  by (relation "measure (\<lambda>(nodes, pos, sz). length nodes - pos)")
     (auto simp: left_def right_def)

text \<open>
  \<^verbatim>\<open>free\<close>: the new array and the error, if any. The guard \<^verbatim>\<open>rPos > len(nodes)\<close> is kept as it
  is written.
\<close>

function free :: "nodes \<Rightarrow> nat \<Rightarrow> int \<Rightarrow> addr \<Rightarrow> (nodes \<times> go_error option) option" where
  "free nodes pos sz addr =
     (if pos \<ge> length nodes then Some (nodes, Some (Plain ''invalid address''))
      else let n = nodes ! pos; rPos = right pos; lPos = left pos in
      if n < 0 then
        (if fst (address nodes pos) = addr then Some (nodes[pos := i32 (- n)], None)
         else Some (nodes, Some (Plain ''invalid address'')))
      else if rPos > length nodes then Some (nodes, Some (Plain ''invalid address''))
      else case (if i32 (addr - fst (address nodes pos)) < go_div sz 2
                 then free nodes lPos (sz div 2) addr
                 else free nodes rPos (sz div 2) addr) of
        None \<Rightarrow> None
      | Some (nodes', Some e) \<Rightarrow> Some (nodes', Some e)
      | Some (nodes', None) \<Rightarrow>
          if rPos \<ge> length nodes then None
          else let rFree = nodes' ! rPos; lFree = nodes' ! lPos in
            Some (nodes'[pos := if i32 (lFree + rFree) = sz then sz
                                else max (max lFree rFree) 0], None))"
  by pat_completeness auto
termination
  by (relation "measure (\<lambda>(nodes, pos, sz, addr). length nodes - pos)")
     (auto simp: left_def right_def)

declare initialize.simps [simp del] alloc.simps [simp del] free.simps [simp del]

definition Alloc :: "nodes \<Rightarrow> int \<Rightarrow> (nodes \<times> (go_error + addr)) option" where
  "Alloc nodes sz = alloc nodes 0 sz"

definition Free :: "nodes \<Rightarrow> addr \<Rightarrow> (nodes \<times> go_error option) option" where
  "Free nodes addr = free nodes 0 (go_div (i32 (int (length nodes) + 1)) 2) addr"

section \<open>The array is a tree\<close>

text \<open>
  \<open>node_at H h pos\<close>: in the array of a tree of height \<open>H\<close>, \<open>pos\<close> is the root of a
  subtree of height \<open>h\<close>; \<open>base H h pos\<close> is the first unit that subtree manages.
\<close>

definition node_at :: "nat \<Rightarrow> nat \<Rightarrow> nat \<Rightarrow> bool" where
  "node_at H h pos \<longleftrightarrow> h \<le> H \<and> 2 ^ (H - h) \<le> pos + 1 \<and> pos + 1 < 2 ^ Suc (H - h)"

definition base :: "nat \<Rightarrow> nat \<Rightarrow> nat \<Rightarrow> nat" where
  "base H h pos = (pos + 1 - 2 ^ (H - h)) * 2 ^ h"

lemma node_at_root [simp]: "node_at H H 0" "base H H 0 = 0"
  by (simp_all add: node_at_def base_def)

lemma node_at_Suc:
  assumes "node_at H (Suc h) pos"
  shows "node_at H h (left pos)" "node_at H h (right pos)"
    and "base H h (left pos) = base H (Suc h) pos"
    and "base H h (right pos) = base H (Suc h) pos + 2 ^ h"
proof -
  define d where "d = H - Suc h"
  have d: "H - h = Suc d" "Suc h \<le> H" "2 ^ d \<le> pos + 1" "pos + 1 < 2 ^ Suc d"
    using assms by (auto simp: node_at_def d_def)
  then show "node_at H h (left pos)" "node_at H h (right pos)"
    by (auto simp: node_at_def left_def right_def)
  from d show "base H h (left pos) = base H (Suc h) pos"
    by (simp add: base_def left_def flip: d_def)
  have "right pos + 1 - 2 ^ Suc d = 2 * (pos + 1 - 2 ^ d) + 1" using d(3) by (simp add: right_def)
  then have "base H h (right pos) = (2 * (pos + 1 - 2 ^ d) + 1) * 2 ^ h"
    unfolding base_def d(1) by simp
  also have "\<dots> = (pos + 1 - 2 ^ d) * 2 ^ Suc h + 2 ^ h" by simp
  finally show "base H h (right pos) = base H (Suc h) pos + 2 ^ h"
    unfolding base_def d_def .
qed

lemma node_at_less:
  assumes "node_at H h pos"
  shows "pos < 2 ^ Suc H - 1"
proof -
  have "(2::nat) ^ Suc (H - h) \<le> 2 ^ Suc H" by (rule power_increasing) auto
  with assms have "pos + 1 < 2 ^ Suc H" unfolding node_at_def by linarith
  then show ?thesis by linarith
qed

lemma node_at_leaf:
  assumes "node_at H 0 pos"
  shows "2 ^ Suc H - 1 \<le> left pos" "2 ^ Suc H - 1 < right pos"
  using assms by (auto simp: node_at_def left_def right_def)

lemma base_le:
  assumes "node_at H h pos"
  shows "base H h pos + 2 ^ h \<le> 2 ^ H"
proof -
  have "pos + 1 - 2 ^ (H - h) + 1 \<le> 2 ^ (H - h)" using assms by (auto simp: node_at_def)
  then have "(pos + 1 - 2 ^ (H - h) + 1) * 2 ^ h \<le> 2 ^ (H - h) * 2 ^ h" by (rule mult_le_mono1)
  also have "\<dots> = (2::nat) ^ H" using assms by (simp add: node_at_def flip: power_add)
  finally show ?thesis by (simp add: base_def add_mult_distrib)
qed

lemma address_node:
  assumes "node_at H h pos" and "length ns = 2 ^ Suc H - 1" and "H \<le> 30"
  shows "address ns pos = (int (base H h pos), 2 ^ h)"
proof -
  have l: "level pos = H - h"
    using assms(1) unfolding level_def node_at_def by (intro floor_log2_bounds) auto
  have "(2::nat) ^ H div 2 ^ (H - h) = 2 ^ h"
    using assms(1) by (simp add: node_at_def power_diff_power_eq)
  then have sz: "(length ns + 1) div 2 div 2 ^ (H - h) = 2 ^ h" using assms(2) by simp
  have off: "(int pos - (2 ^ (H - h) - 1)) * int (2 ^ h) = int (base H h pos)"
  proof -
    have "int pos - (2 ^ (H - h) - 1) = int (pos + 1 - 2 ^ (H - h))"
      using assms(1) by (simp add: node_at_def of_nat_diff)
    then show ?thesis by (simp add: base_def)
  qed
  have "base H h pos + 2 ^ h \<le> 2 ^ H" using base_le[OF assms(1)] .
  moreover have "(2::nat) ^ H \<le> 2 ^ 30" using assms(3) by (intro power_increasing) auto
  ultimately have "base H h pos + 2 ^ h \<le> 2 ^ 30" by linarith
  moreover have "(0::nat) < 2 ^ h" by simp
  ultimately have "base H h pos \<le> 2 ^ 30" "(2::nat) ^ h \<le> 2 ^ 30" by linarith+
  from this[THEN i32_nat] show ?thesis
    unfolding address_def Let_def l sz off by (simp only: of_nat_power of_nat_numeral)
qed

text \<open>The positions of the subtree at \<open>pos\<close>; the two children's subtrees are disjoint.\<close>

definition below :: "nat \<Rightarrow> nat \<Rightarrow> nat \<Rightarrow> bool" where
  "below h pos q \<longleftrightarrow> (\<exists>j \<le> h. (q + 1) div 2 ^ j = pos + 1)"

lemma below_self [simp]: "below h pos pos"
  unfolding below_def by (intro exI[of _ 0]) simp

lemma below_le: "below h pos q \<Longrightarrow> pos \<le> q"
  unfolding below_def by (metis Suc_eq_plus1 Suc_le_mono div_le_dividend)

lemma below_Suc: "below (Suc h) pos q \<longleftrightarrow> q = pos \<or> below h (left pos) q \<or> below h (right pos) q"
proof -
  have half: "x div 2 = pos + 1 \<longleftrightarrow> x = left pos + 1 \<or> x = right pos + 1" for x
    by (auto simp: left_def right_def)
  have "below (Suc h) pos q \<longleftrightarrow> q + 1 = pos + 1 \<or> (\<exists>j \<le> h. (q + 1) div 2 ^ Suc j = pos + 1)"
    unfolding below_def by (metis Suc_le_mono div_by_1 not0_implies_Suc power_0 zero_le)
  also have "(\<exists>j \<le> h. (q + 1) div 2 ^ Suc j = pos + 1) \<longleftrightarrow>
             (\<exists>j \<le> h. (q + 1) div 2 ^ j div 2 = pos + 1)"
    by (simp only: power_Suc2 div_mult2_eq)
  finally show ?thesis unfolding half below_def by auto
qed

lemma below_disjoint: "below h (left pos) q \<Longrightarrow> \<not> below h (right pos) q"
proof
  assume "below h (left pos) q" "below h (right pos) q"
  then obtain i j where i: "(q + 1) div 2 ^ i = 2 * pos + 2" and j: "(q + 1) div 2 ^ j = 2 * pos + 3"
    by (auto simp: below_def left_def right_def numeral_3_eq_3)
  show False
  proof (cases "i \<le> j")
    case True
    then have "(q + 1) div 2 ^ j = (q + 1) div 2 ^ i div 2 ^ (j - i)"
      by (simp flip: div_mult2_eq power_add)
    also have "\<dots> \<le> 2 * pos + 2" unfolding i by (rule div_le_dividend)
    finally show False using j by simp
  next
    case False
    then obtain m where m: "i = j + Suc m" by (metis add_Suc_right less_imp_Suc_add not_le)
    have "(q + 1) div 2 ^ i = (q + 1) div 2 ^ j div 2 div 2 ^ m"
      unfolding m by (simp only: power_add power_Suc div_mult2_eq)
    also have "\<dots> \<le> (2 * pos + 3) div 2" unfolding j by (rule div_le_dividend)
    finally show False using i by simp
  qed
qed

lemma not_below_parent [simp]: "\<not> below h (left pos) pos" "\<not> below h (right pos) pos"
  using below_le by (fastforce simp: left_def right_def)+

fun tree_of :: "nat \<Rightarrow> nodes \<Rightarrow> nat \<Rightarrow> buddy" where
  "tree_of 0 ns pos = Tip (ns ! pos)"
| "tree_of (Suc h) ns pos = Fork (ns ! pos) (tree_of h ns (left pos)) (tree_of h ns (right pos))"

lemma val_tree_of [simp]: "val (tree_of h ns pos) = ns ! pos"
  by (cases h) simp_all

lemma tree_of_cong:
  "(\<And>q. below h pos q \<Longrightarrow> ns ! q = ns' ! q) \<Longrightarrow> tree_of h ns pos = tree_of h ns' pos"
  by (induction h arbitrary: pos) (auto simp: below_Suc)

definition same_outside :: "nat \<Rightarrow> nat \<Rightarrow> nodes \<Rightarrow> nodes \<Rightarrow> bool" where
  "same_outside h pos ns ns' \<longleftrightarrow>
     length ns' = length ns \<and> (\<forall>q. \<not> below h pos q \<longrightarrow> ns' ! q = ns ! q)"

lemma same_outside_tree:
  "same_outside h pos ns ns' \<Longrightarrow> (\<And>q. below h' pos' q \<Longrightarrow> \<not> below h pos q) \<Longrightarrow>
   tree_of h' ns' pos' = tree_of h' ns pos'"
  unfolding same_outside_def by (intro tree_of_cong) blast

lemma same_outside_siblings:
  "same_outside h (left pos) ns ns' \<Longrightarrow> tree_of h ns' (right pos) = tree_of h ns (right pos)"
  "same_outside h (right pos) ns ns' \<Longrightarrow> tree_of h ns' (left pos) = tree_of h ns (left pos)"
  using below_disjoint by (blast intro: same_outside_tree)+

lemma tree_of_update_root [simp]:
  "tree_of h (ns[pos := x]) (left pos) = tree_of h ns (left pos)"
  "tree_of h (ns[pos := x]) (right pos) = tree_of h ns (right pos)"
  by (rule tree_of_cong, metis nth_list_update_neq not_below_parent)+

lemma same_outside_root:
  "same_outside (Suc h) pos ns (ns[pos := x])"
  "same_outside 0 pos ns (ns[pos := x])"
  by (auto simp: same_outside_def nth_list_update_neq below_def)

lemma same_outside_step:
  "same_outside h (left pos) ns ns' \<Longrightarrow> same_outside (Suc h) pos ns (ns'[pos := x])"
  "same_outside h (right pos) ns ns' \<Longrightarrow> same_outside (Suc h) pos ns (ns'[pos := x])"
  by (auto simp: same_outside_def below_Suc nth_list_update_neq)

section \<open>The array operations are the tree operations\<close>

lemma val_abs_le:
  assumes "tinv h t" and "h \<le> 30"
  shows "- (2 ^ 30) \<le> val t \<and> val t \<le> 2 ^ 30"
proof -
  have "(2::int) ^ h \<le> 2 ^ 30" using assms(2) by (intro power_increasing) auto
  with val_le[OF assms(1)] val_ge[OF assms(1)] show ?thesis by linarith
qed

lemma tinv_children: "tinv (Suc h) (Fork f l r) \<Longrightarrow> tinv h l \<and> tinv h r"
  by auto

lemma alloc_tree:
  assumes "length ns = 2 ^ Suc H - 1" and "H \<le> 30" and "0 < s"
    and "node_at H h pos" and "tinv h (tree_of h ns pos)" and "s \<le> ns ! pos"
  shows "\<exists>ns'. alloc ns pos s =
           Some (ns', Inr (int (base H h pos + snd (t_alloc h (tree_of h ns pos) s)))) \<and>
         same_outside h pos ns ns' \<and> tree_of h ns' pos = fst (t_alloc h (tree_of h ns pos) s)"
  using assms(4-)
proof (induction h arbitrary: pos)
  case 0
  note na = 0(1)
  have len: "pos < length ns" using node_at_less[OF na] assms(1) by simp
  from 0(2) have "ns ! pos = 1 \<or> ns ! pos = - 1" by simp
  with node_at_leaf[OF na] address_node[OF na assms(1,2)] assms(1,3) 0(3) len
  show ?case
    by (auto simp: alloc.simps[of ns pos] Let_def same_outside_root)
next
  case (Suc h)
  note na = Suc.prems(1) and inv = Suc.prems(2)
  note ch = node_at_Suc[OF na]
  have hH: "Suc h \<le> 30" using na assms(2) by (simp add: node_at_def)
  have len: "pos < length ns" "left pos < length ns" "right pos < length ns"
    using node_at_less[OF na] node_at_less[OF ch(1)] node_at_less[OF ch(2)] assms(1) by simp_all
  have cinv: "tinv h (tree_of h ns (left pos))" "tinv h (tree_of h ns (right pos))"
    using tinv_children inv by auto
  have "- (2 ^ 30) \<le> ns ! pos \<and> ns ! pos \<le> 2 ^ 30"
    using val_abs_le[OF inv hH] by simp
  then have neg: "i32 (- (ns ! pos)) = - (ns ! pos)" by simp
  consider (here) "ns ! left pos < s" "ns ! right pos < s" | (L) "s \<le> ns ! left pos"
    | (R) "ns ! left pos < s" "s \<le> ns ! right pos" by linarith
  then show ?case
  proof cases
    case here
    have "alloc ns pos s = Some (ns[pos := - (ns ! pos)], Inr (int (base H (Suc h) pos)))"
      using here Suc.prems(3) assms(3) len neg address_node[OF na assms(1,2)]
      by (simp add: alloc.simps[of ns pos] Let_def)
    then show ?thesis using here len(1) by (simp add: same_outside_root)
  next
    case L
    from Suc.IH[OF ch(1) cinv(1) L] obtain ns1 where ns1:
      "alloc ns (left pos) s =
         Some (ns1, Inr (int (base H h (left pos) + snd (t_alloc h (tree_of h ns (left pos)) s))))"
      "same_outside h (left pos) ns ns1"
      "tree_of h ns1 (left pos) = fst (t_alloc h (tree_of h ns (left pos)) s)" by blast
    note r = same_outside_siblings(1)[OF ns1(2)]
    have "ns1 ! left pos = val (fst (t_alloc h (tree_of h ns (left pos)) s))"
      "ns1 ! right pos = val (tree_of h ns (right pos))"
      using ns1(3) r val_tree_of by metis+
    moreover have "length ns1 = length ns" using ns1(2) by (simp add: same_outside_def)
    ultimately show ?thesis
      using L Suc.prems(3) assms(3) len ns1 r ch(3)
      by (simp add: alloc.simps[of ns pos] Let_def best_def split_beta same_outside_step(1))
  next
    case R
    from Suc.IH[OF ch(2) cinv(2) R(2)] obtain ns1 where ns1:
      "alloc ns (right pos) s =
         Some (ns1, Inr (int (base H h (right pos) + snd (t_alloc h (tree_of h ns (right pos)) s))))"
      "same_outside h (right pos) ns ns1"
      "tree_of h ns1 (right pos) = fst (t_alloc h (tree_of h ns (right pos)) s)" by blast
    note l = same_outside_siblings(2)[OF ns1(2)]
    have "ns1 ! right pos = val (fst (t_alloc h (tree_of h ns (right pos)) s))"
      "ns1 ! left pos = val (tree_of h ns (left pos))"
      using ns1(3) l val_tree_of by metis+
    moreover have "length ns1 = length ns" using ns1(2) by (simp add: same_outside_def)
    ultimately show ?thesis
      using R Suc.prems(3) assms(3) len ns1 l ch(4)
      by (simp add: alloc.simps[of ns pos] Let_def best_def split_beta same_outside_step(2))
  qed
qed

definition free_refines :: "nat \<Rightarrow> nat \<Rightarrow> nodes \<Rightarrow> int \<Rightarrow> buddy option \<Rightarrow> bool" where
  "free_refines h pos ns addr r \<longleftrightarrow>
     (case r of
        None \<Rightarrow> free ns pos (2 ^ h) addr = Some (ns, Some (Plain ''invalid address''))
      | Some t' \<Rightarrow> \<exists>ns'. free ns pos (2 ^ h) addr = Some (ns', None) \<and>
                    same_outside h pos ns ns' \<and> tree_of h ns' pos = t')"

lemma free_tree_leaf:
  assumes "length ns = 2 ^ Suc H - 1" and "H \<le> 30"
    and na: "node_at H 0 pos" and "tinv 0 (tree_of 0 ns pos)"
  shows "free_refines 0 pos ns addr (t_free 0 (tree_of 0 ns pos) (addr - int (base H 0 pos)))"
proof -
  have len: "pos < length ns" using node_at_less[OF na] assms(1) by simp
  from assms(4) have "ns ! pos = 1 \<or> ns ! pos = - 1" by simp
  with node_at_leaf[OF na] address_node[OF na assms(1,2)] assms(1) len show ?thesis
    by (auto simp: free_refines_def free.simps[of ns pos] Let_def same_outside_root)
qed

lemma go_div_power: "go_div (2 ^ Suc h) 2 = 2 ^ h" "(2::int) ^ Suc h div 2 = 2 ^ h"
  by (simp_all add: go_div_nonneg)

text \<open>The parent's value after a successful release below it.\<close>

lemma free_up:
  assumes "pos < length ns" "right pos < length ns"
    and "x = i32 (addr - fst (address ns pos))"
    and "\<not> ns ! pos < 0" "free ns (if x < 2 ^ h then left pos else right pos) (2 ^ h) addr = Some (ns1, None)"
    and "tree_of h ns1 (left pos) = l" "tree_of h ns1 (right pos) = r"
    and "tinv h l" "tinv h r" "Suc h \<le> 30"
  shows "free ns pos (2 ^ Suc h) addr = Some (ns1[pos := joined (Suc h) l r], None)"
proof -
  have v: "ns1 ! left pos = val l" "ns1 ! right pos = val r"
    using assms(6,7) val_tree_of by metis+
  have "(2::int) ^ h \<le> 2 ^ 29" using assms(10) by (intro power_increasing) auto
  then have "- (2 ^ 29) \<le> val l" "val l \<le> 2 ^ 29" "- (2 ^ 29) \<le> val r" "val r \<le> 2 ^ 29"
    using val_le[OF assms(8)] val_le[OF assms(9)] val_ge[OF assms(8)] val_ge[OF assms(9)]
    by linarith+
  then have "i32 (val l + val r) = val l + val r" by simp
  with assms v go_div_power show ?thesis
    by (auto simp: free.simps[of ns pos] Let_def joined_def best_def split: if_splits)
qed

lemma free_tree:
  assumes "length ns = 2 ^ Suc H - 1" and "H \<le> 30"
    and "- (2 ^ 31) \<le> addr" and "addr < 2 ^ 31"
    and "node_at H h pos" and "tinv h (tree_of h ns pos)"
    and "base H h pos = 0 \<or> int (base H h pos) \<le> addr"
  shows "free_refines h pos ns addr (t_free h (tree_of h ns pos) (addr - int (base H h pos)))"
  using assms(5-)
proof (induction h arbitrary: pos)
  case 0
  with free_tree_leaf assms(1,2) show ?case by blast
next
  case (Suc h)
  note na = Suc.prems(1) and inv = Suc.prems(2)
  note ch = node_at_Suc[OF na]
  let ?l = "tree_of h ns (left pos)" and ?r = "tree_of h ns (right pos)"
  have hH: "Suc h \<le> 30" using na assms(2) by (simp add: node_at_def)
  have len: "pos < length ns" "left pos < length ns" "right pos < length ns"
    using node_at_less[OF na] node_at_less[OF ch(1)] node_at_less[OF ch(2)] assms(1) by simp_all
  have cinv: "tinv h ?l" "tinv h ?r" using tinv_children inv by auto
  have "- (2 ^ 30) \<le> ns ! pos \<and> ns ! pos \<le> 2 ^ 30" using val_abs_le[OF inv hH] by simp
  then have neg: "i32 (- (ns ! pos)) = - (ns ! pos)" by simp
  note ad = address_node[OF na assms(1,2)]
  have "- (2 ^ 31) \<le> addr - int (base H (Suc h) pos) \<and> addr - int (base H (Suc h) pos) < 2 ^ 31"
    using Suc.prems(3) assms(3,4) by auto
  then have sub: "i32 (addr - int (base H (Suc h) pos)) = addr - int (base H (Suc h) pos)" by simp
  note sz = go_div_power
  define x where "x = addr - int (base H (Suc h) pos)"
  have x: "x = i32 (addr - fst (address ns pos))" using sub ad by (simp add: x_def)
  note up = free_up[OF len(1,3) x _ _ _ _ _ _ hH]
  show ?case
  proof (cases "ns ! pos < 0")
    case True
    with len(1) neg ad show ?thesis
      by (simp add: free_refines_def free.simps[of ns pos] Let_def same_outside_root x_def)
  next
    case nonneg: False
    show ?thesis
    proof (cases "x < 2 ^ h")
      case True
      have ih: "free_refines h (left pos) ns addr (t_free h ?l x)"
        using Suc.IH[OF ch(1) cinv(1)] Suc.prems(3) ch(3) by (simp add: x_def)
      show ?thesis
      proof (cases "t_free h ?l x")
        case None
        with ih nonneg True len sz sub ad show ?thesis
          by (simp add: free_refines_def free.simps[of ns pos] Let_def flip: x_def)
      next
        case (Some l')
        with ih obtain ns1 where ns1: "free ns (left pos) (2 ^ h) addr = Some (ns1, None)"
          "same_outside h (left pos) ns ns1" "tree_of h ns1 (left pos) = l'"
          by (auto simp: free_refines_def)
        note r = same_outside_siblings(1)[OF ns1(2)]
        have "length ns1 = length ns" using ns1(2) by (simp add: same_outside_def)
        with up[OF nonneg _ ns1(3) r _ cinv(2)] t_free_tinv[OF cinv(1) Some]
          True Some nonneg len ns1 r
        show ?thesis
          by (simp add: free_refines_def same_outside_step(1)[OF ns1(2)] flip: x_def)
      qed
    next
      case False
      then have "int (base H h (right pos)) \<le> addr" using ch(4) by (simp add: x_def)
      with Suc.IH[OF ch(2) cinv(2)] ch(4)
      have ih: "free_refines h (right pos) ns addr (t_free h ?r (x - 2 ^ h))"
        by (simp add: x_def diff_diff_eq)
      show ?thesis
      proof (cases "t_free h ?r (x - 2 ^ h)")
        case None
        with ih nonneg False len sz sub ad show ?thesis
          by (simp add: free_refines_def free.simps[of ns pos] Let_def flip: x_def)
      next
        case (Some r')
        with ih obtain ns1 where ns1: "free ns (right pos) (2 ^ h) addr = Some (ns1, None)"
          "same_outside h (right pos) ns ns1" "tree_of h ns1 (right pos) = r'"
          by (auto simp: free_refines_def)
        note l = same_outside_siblings(2)[OF ns1(2)]
        have "length ns1 = length ns" using ns1(2) by (simp add: same_outside_def)
        with up[OF nonneg _ l ns1(3) cinv(1)] t_free_tinv[OF cinv(2) Some]
          False Some nonneg len ns1 l
        show ?thesis
          by (simp add: free_refines_def same_outside_step(2)[OF ns1(2)] flip: x_def)
      qed
    qed
  qed
qed

section \<open>Fresh allocators\<close>

lemma initialize_tree:
  assumes "node_at H h pos" and "length ns = n" and "n = 2 ^ Suc H - 1"
  shows "tree_of h (initialize n ns pos (2 ^ h)) pos = full h \<and>
         same_outside h pos ns (initialize n ns pos (2 ^ h))"
  using assms(1,2)
proof (induction h arbitrary: pos ns)
  case 0
  have "pos < n" using node_at_less[OF 0(1)] assms(3) by simp
  moreover have "n \<le> left pos" "n \<le> right pos" using node_at_leaf[OF 0(1)] assms(3) by simp_all
  ultimately have "initialize n ns pos 1 = ns[pos := 1]"
    by (simp add: initialize.simps[of n ns pos 1] initialize.simps[of n _ "left pos"]
        initialize.simps[of n _ "right pos"])
  with \<open>pos < n\<close> 0(2) show ?case by (simp add: same_outside_root)
next
  case (Suc h)
  note ch = node_at_Suc[OF Suc.prems(1)]
  have len: "pos < n" using node_at_less[OF Suc.prems(1)] assms(3) by simp
  define ns1 where "ns1 = ns[pos := 2 ^ Suc h]"
  define ns2 where "ns2 = initialize n ns1 (left pos) (2 ^ h)"
  define ns3 where "ns3 = initialize n ns2 (right pos) (2 ^ h)"
  have len1: "length ns1 = n" using Suc.prems(2) by (simp add: ns1_def)
  note ih1 = Suc.IH[OF ch(1) len1, folded ns2_def]
  then have len2: "length ns2 = n" using len1 by (simp add: same_outside_def)
  note ih2 = Suc.IH[OF ch(2) len2, folded ns3_def]
  have res: "initialize n ns pos (2 ^ Suc h) = ns3"
    using len by (simp add: initialize.simps[of n ns pos] go_div_power ns1_def ns2_def ns3_def
        del: power_Suc)
  have "ns3 ! pos = 2 ^ Suc h"
    using ih1 ih2 len Suc.prems(2) unfolding same_outside_def ns1_def
    by (metis nth_list_update_eq not_below_parent)
  moreover have "tree_of h ns3 (left pos) = full h"
    using ih1 ih2 same_outside_siblings(2) by metis
  moreover have "same_outside (Suc h) pos ns ns3"
    using ih1 ih2 Suc.prems(2) unfolding same_outside_def ns1_def
    by (auto simp: below_Suc)
  ultimately show ?case using res ih2 by simp
qed

section \<open>The allocator's contract\<close>

definition height :: "nodes \<Rightarrow> nat" where
  "height ns = floor_log2 (length ns)"

definition capacity :: "nodes \<Rightarrow> nat" where
  "capacity ns = 2 ^ height ns"

definition root :: "nodes \<Rightarrow> buddy" where
  "root ns = tree_of (height ns) ns 0"

definition alloc_inv :: "nodes \<Rightarrow> bool" where
  "alloc_inv ns \<longleftrightarrow>
     length ns = 2 ^ Suc (height ns) - 1 \<and> height ns \<le> 29 \<and> tinv (height ns) (root ns)"

text \<open>The allocated blocks, each its first unit and the exponent of its size.\<close>

definition live :: "nodes \<Rightarrow> (nat \<times> nat) set" where
  "live ns = blocks (height ns) (root ns)"

lemma height_eq: "length ns = 2 ^ Suc H - 1 \<Longrightarrow> height ns = H"
  unfolding height_def
  by (rule floor_log2_bounds) (use one_le_power [of "2::nat" H] in auto)

lemma height_length: "length ns = length ns' \<Longrightarrow> height ns = height ns'"
  by (simp add: height_def)

lemma Alloc_refused:
  assumes "alloc_inv ns" and "s \<le> 0 \<or> ns ! 0 < s"
  shows "Alloc ns s = Some (ns, Inl (Plain ''not enough space''))"
proof -
  have "0 < length ns"
    using assms(1) one_less_power [of "2::nat" "Suc (height ns)"] by (simp add: alloc_inv_def)
  with assms(2) show ?thesis by (auto simp: Alloc_def alloc.simps[of ns 0] Let_def)
qed

lemma Alloc_served:
  assumes "alloc_inv ns" and "0 < s" and "s \<le> ns ! 0"
  obtains ns' a k where "Alloc ns s = Some (ns', Inr (int a))"
    and "alloc_inv ns'" and "length ns' = length ns"
    and "fits k s" and "(a, k) \<notin> live ns" and "live ns' = insert (a, k) (live ns)"
proof -
  let ?H = "height ns"
  from assms(1) have inv: "length ns = 2 ^ Suc ?H - 1" "?H \<le> 30" "?H \<le> 29" "tinv ?H (tree_of ?H ns 0)"
    by (auto simp: alloc_inv_def root_def)
  from alloc_tree[OF inv(1,2) assms(2) node_at_root(1) inv(4) assms(3)]
  obtain ns' where ns': "alloc ns 0 s = Some (ns', Inr (int (snd (t_alloc ?H (root ns) s))))"
    "same_outside ?H 0 ns ns'" "tree_of ?H ns' 0 = fst (t_alloc ?H (root ns) s)"
    by (auto simp: root_def)
  have len: "length ns' = length ns" using ns'(2) by (simp add: same_outside_def)
  note h = height_length[OF len]
  have "grown ?H s (root ns) (t_alloc ?H (root ns) s)"
    using inv(4) assms by (intro t_alloc_grown) (simp_all add: root_def)
  then show thesis
    using that[of ns' "snd (t_alloc ?H (root ns) s)"] ns' len h inv
    by (auto simp: grown_def Alloc_def alloc_inv_def live_def root_def)
qed

lemma Alloc_cases:
  assumes "alloc_inv ns"
  obtains (refused) "Alloc ns s = Some (ns, Inl (Plain ''not enough space''))" "s \<le> 0 \<or> ns ! 0 < s"
  | (served) ns' a k where "Alloc ns s = Some (ns', Inr (int a))" "0 < s" "s \<le> ns ! 0"
      "alloc_inv ns'" "length ns' = length ns" "fits k s" "(a, k) \<notin> live ns"
      "live ns' = insert (a, k) (live ns)"
  using Alloc_refused[OF assms] Alloc_served[OF assms] by (metis not_le)

lemma Free_root_size:
  assumes "alloc_inv ns"
  shows "Free ns a = free ns 0 (2 ^ height ns) a"
proof -
  have len: "int (length ns) + 1 = 2 ^ Suc (height ns)"
    using assms by (simp add: alloc_inv_def of_nat_diff)
  have "(2::nat) ^ Suc (height ns) \<le> 2 ^ 30"
    using assms by (intro power_increasing) (auto simp: alloc_inv_def)
  from i32_nat[OF this] have "i32 (2 ^ Suc (height ns)) = 2 ^ Suc (height ns)"
    by (simp only: of_nat_power of_nat_numeral)
  then show ?thesis unfolding Free_def len by (simp only: go_div_power)
qed

lemma Free_tree:
  assumes "alloc_inv ns" and "- (2 ^ 31) \<le> x" and "x < 2 ^ 31"
  shows "case t_free (height ns) (root ns) x of
           None \<Rightarrow> Free ns x = Some (ns, Some (Plain ''invalid address''))
         | Some t' \<Rightarrow> \<exists>ns'. Free ns x = Some (ns', None) \<and>
                       length ns' = length ns \<and> root ns' = t'"
proof -
  from assms(1) have inv: "length ns = 2 ^ Suc (height ns) - 1" "height ns \<le> 30"
    "tinv (height ns) (tree_of (height ns) ns 0)" by (auto simp: alloc_inv_def root_def)
  have "free_refines (height ns) 0 ns x (t_free (height ns) (root ns) x)"
    using free_tree[OF inv(1,2) assms(2,3) node_at_root(1) inv(3)] by (simp add: root_def)
  moreover have "root ns' = tree_of (height ns) ns' 0 \<and> length ns' = length ns"
    if "same_outside (height ns) 0 ns ns'" for ns'
    using that height_length[of ns' ns] by (simp add: same_outside_def root_def)
  ultimately show ?thesis
    unfolding Free_root_size[OF assms(1)] free_refines_def
    by (cases "t_free (height ns) (root ns) x") fastforce+
qed

lemma Free_live:
  assumes "alloc_inv ns" and "(a, k) \<in> live ns"
  obtains ns' where "Free ns (int a) = Some (ns', None)" and "alloc_inv ns'"
    and "length ns' = length ns" and "live ns' = live ns - {(a, k)}"
proof -
  have inv: "tinv (height ns) (root ns)" "height ns \<le> 29" using assms(1) by (auto simp: alloc_inv_def)
  have "a + 2 ^ k \<le> 2 ^ height ns"
    using blocks_bounds[OF inv(1)] assms(2) by (auto simp: live_def)
  then have "a < 2 ^ height ns" by (rule add_power_le_imp_less)
  also have "(2::nat) ^ height ns \<le> 2 ^ 29" using inv(2) by (intro power_increasing) auto
  finally have r: "- (2 ^ 31) \<le> int a" "int a < 2 ^ 31" by simp_all
  from t_free_Some[OF inv(1) assms(2)[unfolded live_def]] obtain t' where
    t': "t_free (height ns) (root ns) (int a) = Some t'" "tinv (height ns) t'"
    "blocks (height ns) t' = live ns - {(a, k)}" by (auto simp: live_def)
  from Free_tree[OF assms(1) r] t'(1) obtain ns' where
    ns': "Free ns (int a) = Some (ns', None)" "length ns' = length ns" "root ns' = t'" by auto
  with t' assms(1) height_length[OF ns'(2)] show thesis
    using that[of ns'] by (simp add: alloc_inv_def live_def)
qed

lemma Free_dead:
  assumes "alloc_inv ns" and "- (2 ^ 31) \<le> x" and "x < 2 ^ 31"
    and "\<And>a k. x = int a \<Longrightarrow> (a, k) \<notin> live ns"
  shows "Free ns x = Some (ns, Some (Plain ''invalid address''))"
proof -
  have "t_free (height ns) (root ns) x = None"
    using assms(1,4) by (intro t_free_None) (auto simp: alloc_inv_def live_def)
  with Free_tree[OF assms(1-3)] show ?thesis by simp
qed

lemma live_bounds:
  assumes "alloc_inv ns" and "(a, k) \<in> live ns"
  shows "2 ^ k dvd a \<and> a + 2 ^ k \<le> capacity ns"
  using assms blocks_bounds[of "height ns" "root ns" a k]
  by (simp add: alloc_inv_def live_def capacity_def)

lemma live_apart:
  "alloc_inv ns \<Longrightarrow> x \<in> live ns \<Longrightarrow> y \<in> live ns \<Longrightarrow> x \<noteq> y \<Longrightarrow> apart x y"
  unfolding alloc_inv_def live_def by (blast intro: blocks_apart)

lemma root_value: "alloc_inv ns \<Longrightarrow> val (root ns) = ns ! 0"
  by (simp add: root_def)

lemma capacity_length: "length ns = length ns' \<Longrightarrow> capacity ns = capacity ns'"
  by (simp add: capacity_def height_def)

lemma alloc_inv_canonical:
  assumes "alloc_inv ns" and "alloc_inv ns'" and "length ns = length ns'" and "live ns = live ns'"
  shows "root ns = root ns'"
proof (rule blocks_canonical)
  show "tinv (height ns) (root ns)" "tinv (height ns) (root ns')"
    "blocks (height ns) (root ns) = blocks (height ns) (root ns')"
    using assms height_length[OF assms(3)] by (simp_all add: alloc_inv_def live_def)
qed

text \<open>The tree determines every array cell.\<close>

lemma tree_of_determines:
  "tree_of h ns pos = tree_of h ns' pos \<Longrightarrow> below h pos q \<Longrightarrow> ns ! q = ns' ! q"
proof (induction h arbitrary: pos)
  case 0
  then show ?case by (simp add: below_def)
next
  case (Suc h)
  then show ?case by (auto simp: below_Suc)
qed

lemma below_root:
  assumes "q < 2 ^ Suc H - 1"
  shows "below H 0 q"
proof -
  have "\<exists>l. 2 ^ l \<le> q + 1 \<and> q + 1 < 2 ^ Suc l" using ex_power_ivl1[of 2 "q + 1"] by auto
  then obtain l where l: "2 ^ l \<le> q + 1" "q + 1 < 2 ^ Suc l" by blast
  have "(2::nat) ^ l < 2 ^ Suc H" using l(1) assms by linarith
  then have "l \<le> H" by (simp add: power_strict_increasing_iff less_Suc_eq_le del: power_Suc)
  moreover have "(q + 1) div 2 ^ l = 1"
    using l by (intro div_nat_eqI) simp_all
  ultimately show ?thesis unfolding below_def by auto
qed

lemma root_determines:
  assumes "alloc_inv ns" and "alloc_inv ns'" and "length ns = length ns'" and "root ns = root ns'"
  shows "ns = ns'"
proof (rule nth_equalityI[OF assms(3)])
  fix q assume "q < length ns"
  then have "below (height ns) 0 q" using assms(1) by (intro below_root) (simp add: alloc_inv_def)
  with assms(4) height_length[OF assms(3)] show "ns ! q = ns' ! q"
    by (auto simp: root_def intro: tree_of_determines)
qed

section \<open>The interface the mailbox relies on\<close>

text \<open>
  The two operations of an allocator of power-of-two blocks, with what they do to the set
  of live blocks. \<open>serve\<close> runs a sequence of requests, \<open>release_all\<close> a sequence of
  releases that stops at the first error, as the receive loop does.
\<close>

datatype request = Take int | Give int

fun serve :: "('s \<Rightarrow> int \<Rightarrow> ('s \<times> (go_error + int)) option) \<Rightarrow>
    ('s \<Rightarrow> int \<Rightarrow> ('s \<times> go_error option) option) \<Rightarrow> 's \<Rightarrow> request list \<Rightarrow> 's option" where
  "serve acq give s [] = Some s"
| "serve acq give s (Take n # rs) =
     (case acq s n of None \<Rightarrow> None | Some (s', _) \<Rightarrow> serve acq give s' rs)"
| "serve acq give s (Give a # rs) =
     (case give s a of None \<Rightarrow> None | Some (s', _) \<Rightarrow> serve acq give s' rs)"

fun release_all :: "('s \<Rightarrow> int \<Rightarrow> ('s \<times> go_error option) option) \<Rightarrow> 's \<Rightarrow> int list \<Rightarrow>
    ('s \<times> go_error option) option" where
  "release_all give s [] = Some (s, None)"
| "release_all give s (a # as) =
     (case give s a of
        None \<Rightarrow> None
      | Some (s', Some e) \<Rightarrow> Some (s', Some e)
      | Some (s', None) \<Rightarrow> release_all give s' as)"

fun in_int32 :: "request \<Rightarrow> bool" where
  "in_int32 (Take n) = (- (2 ^ 31) \<le> n \<and> n < 2 ^ 31)"
| "in_int32 (Give a) = (- (2 ^ 31) \<le> a \<and> a < 2 ^ 31)"

locale block_allocator =
  fixes ok :: "'s \<Rightarrow> bool"
    and units :: "'s \<Rightarrow> nat"
    and used :: "'s \<Rightarrow> (nat \<times> nat) set"
    and acq :: "'s \<Rightarrow> int \<Rightarrow> ('s \<times> (go_error + int)) option"
    and give :: "'s \<Rightarrow> int \<Rightarrow> ('s \<times> go_error option) option"
  assumes used_bounds: "ok s \<Longrightarrow> (a, k) \<in> used s \<Longrightarrow> 2 ^ k dvd a \<and> a + 2 ^ k \<le> units s"
    and used_apart: "ok s \<Longrightarrow> x \<in> used s \<Longrightarrow> y \<in> used s \<Longrightarrow> x \<noteq> y \<Longrightarrow> apart x y"
    and acq_total: "ok s \<Longrightarrow> \<exists>s' r. acq s n = Some (s', r)"
    and acq_err: "ok s \<Longrightarrow> acq s n = Some (s', Inl e) \<Longrightarrow> s' = s"
    and acq_ok: "ok s \<Longrightarrow> acq s n = Some (s', Inr v) \<Longrightarrow>
      ok s' \<and> units s' = units s \<and>
      (\<exists>a k. v = int a \<and> fits k n \<and> (a, k) \<notin> used s \<and> used s' = insert (a, k) (used s))"
    and give_ok: "ok s \<Longrightarrow> (a, k) \<in> used s \<Longrightarrow>
      \<exists>s'. give s (int a) = Some (s', None) \<and> ok s' \<and> units s' = units s \<and>
           used s' = used s - {(a, k)}"
    and give_err: "ok s \<Longrightarrow> - (2 ^ 31) \<le> v \<Longrightarrow> v < 2 ^ 31 \<Longrightarrow>
      (\<And>a k. v = int a \<Longrightarrow> (a, k) \<notin> used s) \<Longrightarrow> \<exists>e. give s v = Some (s, Some e)"
begin

lemma used_start_unique:
  assumes "ok s" and "(a, k) \<in> used s" and "(a, j) \<in> used s"
  shows "k = j"
proof (rule ccontr)
  assume "k \<noteq> j"
  with used_apart[OF assms] have "apart (a, k) (a, j)" by simp
  then show False by (auto simp: apart_def)
qed

lemma acq_disjoint:
  assumes "ok s" and "acq s n = Some (s', Inr v)"
  obtains a k where "v = int a" and "fits k n" and "2 ^ k dvd a" and "a + 2 ^ k \<le> units s"
    and "\<forall>b \<in> used s. apart (a, k) b" and "(a, k) \<notin> used s"
    and "used s' = insert (a, k) (used s)" and "ok s'" and "units s' = units s"
proof -
  from acq_ok[OF assms] obtain a k where t: "ok s'" "units s' = units s" "v = int a" "fits k n"
    "(a, k) \<notin> used s" "used s' = insert (a, k) (used s)" by blast
  moreover have "\<forall>b \<in> used s. apart (a, k) b"
    using used_apart[OF t(1), of "(a, k)"] t(5,6) by auto
  ultimately show thesis using used_bounds[OF t(1), of a k] that by simp
qed

lemma give_cases:
  assumes "ok s" and "- (2 ^ 31) \<le> x" and "x < 2 ^ 31"
  obtains (freed) a k s' where "x = int a" "(a, k) \<in> used s" "give s x = Some (s', None)" "ok s'"
      "units s' = units s" "used s' = used s - {(a, k)}"
  | (rejected) e where "give s x = Some (s, Some e)" "\<And>a k. x = int a \<Longrightarrow> (a, k) \<notin> used s"
proof (cases "\<exists>a k. x = int a \<and> (a, k) \<in> used s")
  case True
  then obtain a k where a: "x = int a" "(a, k) \<in> used s" by blast
  from give_ok[OF assms(1) a(2)] a show thesis by (metis freed)
next
  case False
  then have none: "\<And>a k. x = int a \<Longrightarrow> (a, k) \<notin> used s" by blast
  from give_err[OF assms none] obtain e where "give s x = Some (s, Some e)" by blast
  then show thesis using none by (rule rejected)
qed

lemma double_give:
  assumes "ok s" and "(a, k) \<in> used s" and "int a < 2 ^ 31"
  shows "\<exists>s' e. give s (int a) = Some (s', None) \<and> give s' (int a) = Some (s', Some e)"
proof -
  from give_ok[OF assms(1,2)] obtain s' where s': "give s (int a) = Some (s', None)" "ok s'"
    "used s' = used s - {(a, k)}" by blast
  have "(b, j) \<notin> used s'" if "int a = int b" for b j
    using used_start_unique[OF assms(1,2)] s'(3) that by auto
  with give_err[OF s'(2), of "int a"] assms(3) s'(1) show ?thesis by auto
qed

lemma serve_ok:
  assumes "ok s" and "\<forall>r \<in> set rs. in_int32 r"
  shows "\<exists>s'. serve acq give s rs = Some s' \<and> ok s' \<and> units s' = units s"
  using assms
proof (induction rs arbitrary: s)
  case (Cons r rs)
  show ?case
  proof (cases r)
    case (Take n)
    from acq_total[OF Cons.prems(1)] obtain s1 res where s1: "acq s n = Some (s1, res)" by blast
    have "ok s1 \<and> units s1 = units s"
      using acq_ok[OF Cons.prems(1)] acq_err[OF Cons.prems(1)] s1 Cons.prems(1)
      by (cases res) blast+
    with Cons.IH[of s1] Cons.prems(2) Take s1 show ?thesis by simp
  next
    case (Give a)
    then have "- (2 ^ 31) \<le> a" "a < 2 ^ 31" using Cons.prems(2) by auto
    from give_cases[OF Cons.prems(1) this] obtain s1 res where
      "give s a = Some (s1, res)" "ok s1" "units s1 = units s" using Cons.prems(1) by metis
    with Cons.IH[of s1] Cons.prems(2) Give show ?thesis by simp
  qed
qed simp

lemma release_all_used:
  assumes "ok s" and "distinct as" and "\<And>a. a \<in> set as \<Longrightarrow> \<exists>k. (a, k) \<in> used s"
  shows "\<exists>s'. release_all give s (map int as) = Some (s', None) \<and> ok s' \<and> units s' = units s \<and>
              used s' = {b \<in> used s. fst b \<notin> set as}"
  using assms
proof (induction as arbitrary: s)
  case Nil
  then show ?case by simp
next
  case (Cons a as)
  from Cons.prems(3)[of a] obtain k where k: "(a, k) \<in> used s" by auto
  from give_ok[OF Cons.prems(1) k] obtain s1 where s1: "give s (int a) = Some (s1, None)" "ok s1"
    "units s1 = units s" "used s1 = used s - {(a, k)}" by blast
  have "\<exists>j. (b, j) \<in> used s1" if "b \<in> set as" for b
    using Cons.prems(2,3) s1(4) that by auto
  from Cons.IH[OF s1(2) _ this] Cons.prems(2) obtain s2 where s2:
    "release_all give s1 (map int as) = Some (s2, None)" "ok s2" "units s2 = units s1"
    "used s2 = {b \<in> used s1. fst b \<notin> set as}" by auto
  have "{b \<in> used s1. fst b \<notin> set as} = {b \<in> used s. fst b \<notin> set (a # as)}"
  proof (rule set_eqI)
    fix b
    show "b \<in> {b \<in> used s1. fst b \<notin> set as} \<longleftrightarrow> b \<in> {b \<in> used s. fst b \<notin> set (a # as)}"
      using used_start_unique[OF Cons.prems(1) k, of "snd b"] s1(4) by (cases b) auto
  qed
  with s1 s2 show ?case by auto
qed

end

interpretation buddy: block_allocator alloc_inv capacity live Alloc Free
proof (unfold_locales, goal_cases)
  case (1 s a k)
  then show ?case by (rule live_bounds)
next
  case (2 s x y)
  then show ?case by (rule live_apart)
next
  case (3 s n)
  then show ?case by (cases rule: Alloc_cases[where s = n]) auto
next
  case (4 s n s' e)
  from 4(1) show ?case by (cases rule: Alloc_cases[where s = n]) (use 4(2) in auto)
next
  case (5 s n s' v)
  from 5(1) show ?case
  proof (cases rule: Alloc_cases[where s = n])
    case refused
    with 5(2) show ?thesis by simp
  next
    case (served ns' a k)
    with 5(2) capacity_length[OF served(5)] show ?thesis by auto
  qed
next
  case (6 s a k)
  from Free_live[OF 6] show ?case using capacity_length by metis
next
  case (7 s x)
  from Free_dead[OF 7] show ?case by blast
qed

section \<open>Properties\<close>

text \<open>The allocator of the package's own tests: eight units.\<close>

abbreviation eight :: nodes where
  "eight \<equiv> [8, 4, 4, 2, 2, 2, 2, 1, 1, 1, 1, 1, 1, 1, 1]"

lemma eight_height: "height eight = 3"
  by (rule height_eq) simp

lemma eight_inv: "alloc_inv eight" and eight_live: "live eight = {}"
  by (simp_all add: alloc_inv_def live_def root_def eight_height numeral_3_eq_3 left_def right_def)

lemma eight_capacity: "capacity eight = 8"
  by (simp add: capacity_def eight_height)

text \<open>C15: A successful \<open>Alloc\<close> returns the first unit of a fresh block: aligned to its size,
  inside the managed range, disjoint from every live block, and of the least power of two
  that holds the request. The live set grows by exactly that block and the array stays a
  valid buddy tree.\<close>

theorem Alloc_sound:
  assumes "alloc_inv ns" and "Alloc ns s = Some (ns', Inr v)"
  shows "\<exists>a k. v = int a \<and> s \<le> 2 ^ k \<and> (k = 0 \<or> 2 ^ (k - 1) < s) \<and>
           2 ^ k dvd a \<and> a + 2 ^ k \<le> capacity ns \<and>
           (\<forall>b \<in> live ns. apart (a, k) b) \<and> live ns' = insert (a, k) (live ns) \<and>
           alloc_inv ns' \<and> capacity ns' = capacity ns"
proof -
  from buddy.acq_disjoint[OF assms] obtain a k where "v = int a" "fits k s" "2 ^ k dvd a"
    "a + 2 ^ k \<le> capacity ns" "\<forall>b \<in> live ns. apart (a, k) b"
    "live ns' = insert (a, k) (live ns)" "alloc_inv ns'" "capacity ns' = capacity ns" by metis
  then show ?thesis by (auto simp: fits_def)
qed

lemma Alloc_eight_3: "Alloc eight 3 =
    Some ([4, -4, 4, 2, 2, 2, 2, 1, 1, 1, 1, 1, 1, 1, 1], Inr 0)"
  by (simp add: Alloc_def alloc.simps Let_def left_def right_def address_def level_def go_simps)

theorem Alloc_sound_witness:
  "\<exists>a k. (0::int) = int a \<and> (3::int) \<le> 2 ^ k \<and> (k = 0 \<or> 2 ^ (k - 1) < (3::int)) \<and>
     2 ^ k dvd a \<and> a + 2 ^ k \<le> capacity eight"
  using Alloc_sound[OF eight_inv Alloc_eight_3] by blast

text \<open>C16: \<open>Alloc\<close> is complete: it refuses a positive request exactly when no aligned block of a
  power of two that could hold it is free, never panics, and a refusal changes nothing.\<close>

theorem Alloc_complete:
  assumes "alloc_inv ns" and "0 < s"
  shows "(if \<exists>a k. s \<le> 2 ^ k \<and> 2 ^ k dvd a \<and> a + 2 ^ k \<le> capacity ns \<and>
                  (\<forall>b \<in> live ns. apart (a, k) b)
          then \<exists>ns' v. Alloc ns s = Some (ns', Inr v)
          else Alloc ns s = Some (ns, Inl (Plain ''not enough space'')))"
proof -
  have "tinv (height ns) (root ns)" using assms(1) by (simp add: alloc_inv_def)
  from val_iff_free_block[OF this assms(2)]
  have iff: "s \<le> ns ! 0 \<longleftrightarrow> (\<exists>a k. s \<le> 2 ^ k \<and> 2 ^ k dvd a \<and> a + 2 ^ k \<le> capacity ns \<and>
                  (\<forall>b \<in> live ns. apart (a, k) b))"
    unfolding root_value[OF assms(1)] free_block_def live_def capacity_def .
  show ?thesis
  proof (cases "s \<le> ns ! 0")
    case True
    from Alloc_served[OF assms True] show ?thesis
      unfolding if_P[OF True[unfolded iff]] by metis
  next
    case False
    then have "s \<le> 0 \<or> ns ! 0 < s" by linarith
    from Alloc_refused[OF assms(1) this] show ?thesis
      unfolding if_not_P[OF False[unfolded iff]] .
  qed
qed

theorem Alloc_complete_witness:
  "Alloc eight 16 = Some (eight, Inl (Plain ''not enough space''))"
proof -
  have "\<not> (\<exists>a k. (16::int) \<le> 2 ^ k \<and> (2::nat) ^ k dvd a \<and> a + 2 ^ k \<le> capacity eight \<and>
                  (\<forall>b \<in> live eight. apart (a, k) b))"
  proof
    assume "\<exists>a k. (16::int) \<le> 2 ^ k \<and> (2::nat) ^ k dvd a \<and> a + 2 ^ k \<le> capacity eight \<and>
                  (\<forall>b \<in> live eight. apart (a, k) b)"
    then obtain a k where "int 16 \<le> int (2 ^ k)" "a + (2::nat) ^ k \<le> 8"
      by (auto simp: eight_capacity)
    then show False by (simp only: of_nat_le_iff)
  qed
  with Alloc_complete[OF eight_inv, of 16] show ?thesis by auto
qed

text \<open>C17: \<open>Free\<close> is exact: on the first unit of a live block it succeeds and removes exactly
  that block; on any other 32-bit address (an interior unit, a unit already released, an
  address outside the range) it reports an error and changes nothing. It never panics.\<close>

theorem Free_exact:
  assumes "alloc_inv ns" and "- (2 ^ 31) \<le> x" and "x < 2 ^ 31"
  shows "(\<exists>a k ns'. x = int a \<and> (a, k) \<in> live ns \<and> Free ns x = Some (ns', None) \<and>
                   alloc_inv ns' \<and> capacity ns' = capacity ns \<and> live ns' = live ns - {(a, k)})
       \<or> ((\<forall>a k. x = int a \<longrightarrow> (a, k) \<notin> live ns) \<and>
          (\<exists>e. Free ns x = Some (ns, Some e)))"
  using buddy.give_cases[OF assms] by metis

lemma Alloc_eight_inv: "alloc_inv [4, -4, 4, 2, 2, 2, 2, 1, 1, 1, 1, 1, 1, 1, 1]"
  and Alloc_eight_live: "live [4, -4, 4, 2, 2, 2, 2, 1, 1, 1, 1, 1, 1, 1, 1] = {(0, 2)}"
proof -
  have h: "height [4, -4, 4, 2, 2, 2, 2, 1, 1, 1, 1, 1, 1, 1, 1] = 3"
    by (rule height_eq) simp
  then show "alloc_inv [4, -4, 4, 2, 2, 2, 2, 1, 1, 1, 1, 1, 1, 1, 1]"
    and "live [4, -4, 4, 2, 2, 2, 2, 1, 1, 1, 1, 1, 1, 1, 1] = {(0, 2)}"
    by (simp_all add: alloc_inv_def live_def root_def numeral_3_eq_3 left_def right_def best_def)
qed

theorem Free_exact_witness:
  "\<exists>ns'. Free [4, -4, 4, 2, 2, 2, 2, 1, 1, 1, 1, 1, 1, 1, 1] 0 = Some (ns', None) \<and> live ns' = {}"
  using Free_exact[OF Alloc_eight_inv, of 0] by (auto simp: Alloc_eight_live)

text \<open>C18: Releasing a block right after it was allocated restores the array cell for cell: all
  merges are undone.\<close>

theorem Alloc_Free_roundtrip:
  assumes "alloc_inv ns" and "Alloc ns s = Some (ns', Inr v)"
  shows "Free ns' v = Some (ns, None)"
proof -
  from assms(1) show ?thesis
  proof (cases rule: Alloc_cases[where s = s])
    case (served ns1 a k)
    with assms(2) have eq: "ns' = ns1" "v = int a" by simp_all
    have "(a, k) \<in> live ns1" using served by simp
    from Free_live[OF served(4) this] obtain ns2 where ns2: "Free ns1 (int a) = Some (ns2, None)"
      "alloc_inv ns2" "length ns2 = length ns1" "live ns2 = live ns1 - {(a, k)}" .
    then have "live ns2 = live ns" "length ns2 = length ns" using served by auto
    with alloc_inv_canonical[OF ns2(2) assms(1)] root_determines[OF ns2(2) assms(1)]
    have "ns2 = ns" by simp
    with ns2 eq show ?thesis by simp
  qed (use assms(2) in simp)
qed

theorem Alloc_Free_roundtrip_witness:
  "Free [4, -4, 4, 2, 2, 2, 2, 1, 1, 1, 1, 1, 1, 1, 1] 0 = Some (eight, None)"
  by (rule Alloc_Free_roundtrip[OF eight_inv Alloc_eight_3])

lemma new_alloc_power:
  assumes "h \<le> 29"
  obtains ns where "NewAllocatorBySize (2 ^ h) = Inr ns" and "alloc_inv ns"
    and "capacity ns = 2 ^ h" and "live ns = {}"
proof -
  define n where "n = (2::nat) ^ Suc h - 1"
  define ns where "ns = initialize n (replicate n 0) 0 (2 ^ h)"
  have new: "NewAllocatorBySize (2 ^ h) = Inr ns"
    by (simp add: NewAllocatorBySize_def bit_depth_power nat_power_eq ones_count_power Let_def
        ns_def n_def)
  from initialize_tree[OF node_at_root(1)[of h] _ n_def] have t: "tree_of h ns 0 = full h"
    "length ns = n" by (simp_all add: ns_def same_outside_def)
  have "height ns = h" using t(2) unfolding n_def by (rule height_eq)
  with t assms new show thesis
    using that[of ns] by (simp add: alloc_inv_def capacity_def live_def root_def n_def)
qed

lemma new_alloc_refused:
  assumes "\<not> (\<exists>h. sz = 2 ^ h)"
  shows "NewAllocatorBySize sz = Inl (Plain ''size must be a power of 2'')"
proof -
  have "\<not> (0 \<le> sz \<and> ones_count (nat sz) = 1)"
    using assms unfolding ones_count_one_iff by (metis int_nat_eq of_nat_numeral of_nat_power)
  then show ?thesis by (auto simp: NewAllocatorBySize_def)
qed

lemma new_alloc_inv:
  assumes "NewAllocatorBySize sz = Inr ns" and "sz \<le> 2 ^ 29"
  shows "alloc_inv ns \<and> int (capacity ns) = sz \<and> live ns = {}"
proof -
  from assms(1) new_alloc_refused obtain h where h: "sz = 2 ^ h" by fastforce
  have "h \<le> 29" using assms(2) unfolding h by (rule power_le_imp_le_exp [rotated]) simp
  with new_alloc_power[OF this] assms(1) h show ?thesis by auto
qed

lemma fresh_eight: "\<exists>ns. NewAllocatorBySize 8 = Inr ns"
  using new_alloc_power[of 3] by auto





lemma initialize_frame:
  "length (initialize n ns pos fr) = length ns \<and> (\<forall>q < pos. initialize n ns pos fr ! q = ns ! q)"
proof (induction n ns pos fr rule: initialize.induct)
  case (1 n ns pos fr)
  show ?case
  proof (cases "pos \<ge> n")
    case True
    then show ?thesis by (simp add: initialize.simps[of n ns pos fr])
  next
    case False
    have "pos < left pos" "pos < right pos" by (simp_all add: left_def right_def)
    with 1 False show ?thesis by (auto simp: initialize.simps[of n ns pos fr])
  qed
qed

lemma initialize_root:
  assumes "pos < n" and "pos < length ns"
  shows "initialize n ns pos fr ! pos = fr"
proof -
  have lt: "pos < left pos" "pos < right pos" by (simp_all add: left_def right_def)
  define ns1 where "ns1 = initialize n (ns[pos := fr]) (left pos) (go_div fr 2)"
  have "initialize n ns pos fr ! pos = initialize n ns1 (right pos) (go_div fr 2) ! pos"
    using assms(1) by (simp add: initialize.simps[of n ns pos fr] ns1_def)
  also have "\<dots> = ns1 ! pos" using initialize_frame lt(2) by blast
  also have "\<dots> = ns[pos := fr] ! pos" using initialize_frame lt(1) unfolding ns1_def by blast
  finally show ?thesis using assms(2) by simp
qed

lemma shift_neq: "i32 (2 ^ 2 ^ h) \<noteq> 2 ^ h"
proof (cases "h \<le> 4")
  case True
  then have "h = 0 \<or> h = 1 \<or> h = 2 \<or> h = 3 \<or> h = 4" by auto
  then show ?thesis by (auto simp: i32_def)
next
  case False
  then have "(2::nat) ^ 5 \<le> 2 ^ h" by (intro power_increasing) auto
  then have "(2::int) ^ 32 dvd 2 ^ 2 ^ h" by (intro le_imp_power_dvd) simp
  then have "(2::int) ^ 2 ^ h mod 2 ^ 32 = 0" by (rule dvd_imp_mod_0)
  then have "((2::int) ^ 2 ^ h + 2 ^ 31) mod 2 ^ 32 = 2 ^ 31"
    by (subst mod_add_eq [symmetric]) simp
  then have "i32 (2 ^ 2 ^ h) = 0" by (simp add: i32_def)
  then show ?thesis by simp
qed

text \<open>C39: \<open>NewAllocatorByNodeCnt\<close> computes the root's free size as a shift where the code means a
  division: for every admissible node count the root it builds advertises a size different
  from the units the tree manages (256 instead of 8 for 15 nodes, 0 from 63 nodes on). Only
  the reload of the node values from the state segment makes such an allocator usable.\<close>

theorem NewAllocatorByNodeCnt_root:
  assumes "h \<le> 29"
  shows "\<exists>ns. NewAllocatorByNodeCnt (2 ^ Suc h - 1) = Inr ns \<and> capacity ns = 2 ^ h \<and>
              ns ! 0 = i32 (2 ^ 2 ^ h) \<and> ns ! 0 \<noteq> int (capacity ns)"
proof -
  define n where "n = (2::nat) ^ Suc h - 1"
  define ns where "ns = initialize n (replicate n 0) 0 (i32 (2 ^ 2 ^ h))"
  have int_n: "2 ^ Suc h - 1 = int n" by (simp add: n_def of_nat_diff)
  have nat_n: "nat (2 ^ Suc h - 1) = n" unfolding int_n by simp
  have n: "(n + 1) div 2 = 2 ^ h" "0 < n"
    using one_less_power [of "2::nat" "Suc h"] by (simp_all add: n_def)
  have le: "(2::int) ^ Suc h \<le> 2 ^ 30" using assms by (intro power_increasing) auto
  then have md: "(2::int) ^ Suc h mod 2 ^ 32 = 2 ^ Suc h" by (intro mod_pos_pos_trivial) simp_all
  have "nat (2 ^ Suc h) = 2 ^ Suc h"
    using nat_power_eq [of 2 "Suc h"] by (simp only: nat_numeral zero_le_numeral)
  then have "ones_count (nat ((2 ^ Suc h - 1 + 1) mod 2 ^ 32)) = 1"
    by (simp only: diff_add_cancel md ones_count_power)
  moreover have "\<not> (2::int) ^ Suc h - 1 < 0" unfolding int_n by simp
  moreover have "(2::int) ^ Suc h - 1 \<noteq> 2 ^ 31 - 2" using le by simp
  ultimately have new: "NewAllocatorByNodeCnt (2 ^ Suc h - 1) = Inr ns"
    unfolding NewAllocatorByNodeCnt_def Let_def nat_n n(1) ns_def by simp
  have "length ns = n" using initialize_frame by (simp add: ns_def)
  then have "capacity ns = 2 ^ h"
    using height_eq[of ns h] by (simp add: capacity_def n_def)
  moreover have "ns ! 0 = i32 (2 ^ 2 ^ h)" using n(2) by (simp add: ns_def initialize_root)
  ultimately show ?thesis using new shift_neq[of h] by simp
qed

theorem NewAllocatorByNodeCnt_root_witness:
  "\<exists>ns. NewAllocatorByNodeCnt 15 = Inr ns \<and> capacity ns = 8 \<and> ns ! 0 = 256"
  using NewAllocatorByNodeCnt_root[of 3] by (auto simp: i32_def)

end
