(* ===== verification/Proto.thy ===== *)
theory Proto
  imports Prelude
begin

text \<open>
  The messages of \<^verbatim>\<open>proto/lvmctrld.proto\<close> and \<^verbatim>\<open>proto/diskrpc.proto\<close>. Unsigned fields are
  natural numbers (below \<open>2 ^ 32\<close> or \<open>2 ^ 64\<close> by construction of the wire format), repeated
  fields are lists, bytes are strings.
\<close>

section \<open>lvmctrld.proto\<close>

record Timestamp =
  seconds :: int
  nanos :: int

datatype LvActivationMode =
    LV_ACTIVATION_MODE_NONE
  | LV_ACTIVATION_MODE_ACTIVE_EXCLUSIVE
  | LV_ACTIVATION_MODE_ACTIVE_SHARED
  | LV_ACTIVATION_MODE_DEACTIVATE
  | LvActivationModeOther int

datatype LvDeviceOpen = LV_DEVICE_OPEN_UNKNOWN | LV_DEVICE_OPEN_OPEN

record VolumeGroup =
  vg_VgName :: string
  vg_PvCount :: nat
  vg_LvCount :: nat
  vg_SnapCount :: nat
  vg_VgAttr :: string
  vg_VgSize :: nat
  vg_VgFree :: nat
  vg_VgTags :: "string list"

record LogicalVolume =
  lv_LvName :: string
  lv_VgName :: string
  lv_LvAttr :: string
  lv_LvSize :: nat
  lv_PoolLv :: string
  lv_Origin :: string
  lv_DataPercent :: string
  lv_MetadataPercent :: string
  lv_MovePv :: string
  lv_MirrorLog :: string
  lv_CopyPercent :: string
  lv_ConvertLv :: string
  lv_LvTags :: "string list"
  lv_LvRole :: "string list"
  lv_LvTime :: "Timestamp option"
  lv_LvDeviceOpen :: LvDeviceOpen

record VgsRequest =
  vgs_Select :: string
  vgs_Target :: "string list"

record LvCreateRequest =
  lvc_VgName :: string
  lvc_LvName :: string
  lvc_Size :: nat
  lvc_LvTags :: "string list"
  lvc_Origin :: string
  lvc_Activate :: LvActivationMode

record LvRemoveRequest =
  lvr_Select :: string
  lvr_Target :: "string list"

record LvsRequest =
  lvs_Select :: string
  lvs_Sort :: "string list"
  lvs_Target :: "string list"

record LvChangeRequest =
  lch_Activate :: LvActivationMode
  lch_AddTag :: "string list"
  lch_DelTag :: "string list"
  lch_Select :: string
  lch_Target :: "string list"

record LvResizeRequest =
  lrs_VgName :: string
  lrs_LvName :: string
  lrs_Size :: nat

text \<open>
  The generated client interface \<^verbatim>\<open>LvmCtrldClient\<close> as a record of functions that thread the
  state \<open>'w\<close> of whatever runs behind it (the daemon, LVM, the disks and the other hosts).
\<close>

record 'w LvmCtrldClient =
  cl_GetStatus :: "'w \<Rightarrow> (go_error + nat) \<times> 'w"
  cl_Vgs :: "VgsRequest \<Rightarrow> 'w \<Rightarrow> (go_error + VolumeGroup list) \<times> 'w"
  cl_LvCreate :: "LvCreateRequest \<Rightarrow> 'w \<Rightarrow> (go_error + unit) \<times> 'w"
  cl_LvRemove :: "LvRemoveRequest \<Rightarrow> 'w \<Rightarrow> (go_error + unit) \<times> 'w"
  cl_Lvs :: "LvsRequest \<Rightarrow> 'w \<Rightarrow> (go_error + LogicalVolume list) \<times> 'w"
  cl_LvChange :: "LvChangeRequest \<Rightarrow> 'w \<Rightarrow> (go_error + unit) \<times> 'w"
  cl_LvResize :: "LvResizeRequest \<Rightarrow> 'w \<Rightarrow> (go_error + unit) \<times> 'w"

section \<open>diskrpc.proto\<close>

record MailBoxMessage =
  mm_Next :: nat
  mm_Sender :: nat
  mm_Length :: nat
  mm_Payload :: string

datatype DiskRpcType = DISK_RPC_TYPE_UNKNOWN | DISK_RPC_TYPE_REQUEST | DISK_RPC_TYPE_RESPONSE

record DiskRpcMessage =
  dm_Time :: "Timestamp option"
  dm_Type :: DiskRpcType
  dm_Channel :: nat
  dm_Uuid :: string
  dm_Method :: string
  dm_Request :: string
  dm_Response :: string
  dm_ErrorMsg :: string
  dm_ErrorCode :: nat

end
