(* ===== verification/MailBox.thy ===== *)
theory MailBox
  imports Disk Allocator Proto
begin

text \<open>
  \<^verbatim>\<open>pkg/diskrpc/mailbox.go\<close>: mailboxes on a shared disk. The file holds a header, three copies
  of the state segment (the heads of the 2000 message lists and the allocation tree) and the
  data blocks the lists point into.

  The first half translates the code. The direct-I/O block size and the protobuf codec come
  from packages outside the repository: they are the parameter \<open>mail_env\<close>, and \<open>env_ok\<close> states
  what their documentation promises. The distributed lock is the caller's; \<open>Recv\<close>, which
  peeks before it locks, takes what the other hosts did meanwhile as a function on the file's
  bytes.
\<close>

section \<open>The code\<close>

record mail_env =
  BlockSize :: nat
  marshal :: "MailBoxMessage \<Rightarrow> go_error + string"
  unmarshal :: "string \<Rightarrow> go_error + MailBoxMessage"

definition dataVersion :: nat where "dataVersion = 1"

definition magicHeader :: string where
  "magicHeader = ''csi-sanlock-lvm'' @ [CHR 0x0A]"

definition localMailBoxID :: nat where "localMailBoxID = 0"

record Message =
  Sender :: nat
  Recipient :: nat
  Payload :: string

definition toBlocks :: "nat \<Rightarrow> nat \<Rightarrow> nat" where
  "toBlocks bSize sz = (sz - 1) div bSize + 1"

text \<open>\<^verbatim>\<open>state[192+4*(id-1) : 192+4*(id-1)+4]\<close>, computed in \<^verbatim>\<open>uint16\<close>; \<open>None\<close> is a slice that is
  out of range.\<close>

definition head_offset :: "nat \<Rightarrow> nat" where
  "head_offset mid = (192 + 4 * ((mid + 65535) mod 65536)) mod 65536"

definition head_slice :: "string \<Rightarrow> nat \<Rightarrow> nat option" where
  "head_slice state mid =
     (let lo = head_offset mid; hi = (lo + 4) mod 65536 in
      if lo \<le> hi \<and> hi \<le> length state then Some lo else None)"

definition get_head :: "string \<Rightarrow> nat \<Rightarrow> nat" where
  "get_head state off = get32 (slice off 4 state)"

definition put_head :: "nat \<Rightarrow> nat \<Rightarrow> string \<Rightarrow> string" where
  "put_head off v state = overwrite off (le32 v) state"

fun allocatorToState_from :: "nat \<Rightarrow> nodes \<Rightarrow> string \<Rightarrow> string option" where
  "allocatorToState_from i [] state = Some state"
| "allocatorToState_from i (n # ns) state =
     (if 8192 + 4 * i + 4 > length state then None
      else allocatorToState_from (Suc i) ns (overwrite (8192 + 4 * i) (le32 (u32 n)) state))"

definition allocatorToState :: "nodes \<Rightarrow> string \<Rightarrow> string option" where
  "allocatorToState ns state = allocatorToState_from 0 ns state"

definition allocatorFromState :: "nodes \<Rightarrow> string \<Rightarrow> nodes option" where
  "allocatorFromState ns state =
     (if 8192 + 4 * length ns > length state then None
      else Some (map (\<lambda>i. i32 (int (get32 (slice (8192 + 4 * i) 4 state)))) [0..<length ns]))"

text \<open>The platform reads and writes the whole of \<^verbatim>\<open>state\<close> at once, three times.\<close>

definition readState :: "nat \<Rightarrow> nat \<Rightarrow> string io" where
  "readState bSize sSize =
     check (seek (int bSize)) ''failed to seek data file: %v'' (\<lambda>_.
     check (read_full (sSize * 3)) ''failed to read state segment from data file: %v'' (\<lambda>state3.
     if slice 0 sSize state3 = slice sSize sSize state3 then return_ok (slice 0 sSize state3)
     else return_ok (slice (2 * sSize) sSize state3)))"

fun write_copies :: "nat \<Rightarrow> string \<Rightarrow> unit io" where
  "write_copies 0 state = return_ok ()"
| "write_copies (Suc n) state =
     check (write_file state) ''failed to write state[%d] segment to data file: %v''
       (\<lambda>_. write_copies n state)"

definition writeState :: "nat \<Rightarrow> nat \<Rightarrow> string \<Rightarrow> unit io" where
  "writeState bSize sSize state =
     (if length state \<noteq> sSize then fail_with ''state does not match expected size''
      else check (seek (int bSize)) ''failed to seek data file: %v'' (\<lambda>_. write_copies 3 state))"

definition header_block :: "nat \<Rightarrow> nat \<Rightarrow> nat \<Rightarrow> string" where
  "header_block bSize fSize aSize =
     overwrite 0 (magicHeader @ [char_of dataVersion] @ [char_of (0::nat)] @ le32 bSize @ le32 fSize @
                  le32 aSize) (zeros bSize)"

definition null_heads :: string where
  "null_heads = concat (map (\<lambda>i. le32 (u32 (-1))) [0..<2000])"

definition mailbox_format :: "nat \<Rightarrow> unit io" where
  "mailbox_format bSize =
     check stat_size ''failed to stat file: %v'' (\<lambda>sz.
     check (if sz = 0 then seek_end else return_ok sz) ''failed to fetch file size: %v'' (\<lambda>fSize.
     if int fSize > 2 ^ 31 - 1 then fail_with ''file size %d exceeds maximum size %d''
     else check_pure (NewAllocatorBySize (i32 (int (fSize div bSize))))
            ''failed to initialize allocator: %v'' (\<lambda>al.
     check (seek 0) ''failed to seek file: %v'' (\<lambda>_.
     check (write_file (header_block bSize fSize (length al * 4))) ''failed to write header: %v'' (\<lambda>_.
     let sBlocks = toBlocks bSize (192 + 2000 * 4 + length al * 4) in
     guard_panic (Alloc al (i32 (1 + 3 * i32 (int sBlocks)))) (\<lambda>(al', r).
     check_pure r ''failed to allocate header: %v'' (\<lambda>addr.
     if addr \<noteq> 0 then (\<lambda>_. None)
     else
       let state = overwrite 192 null_heads (zeros (sBlocks * bSize)) in
       guard_panic (allocatorToState al' state) (\<lambda>state'.
       check (writeState bSize (sBlocks * bSize) state') ''failed to write state: %v'' (\<lambda>_.
       return_ok ())))))))))"

fun header_loop :: "nat \<Rightarrow> nat \<Rightarrow> string \<Rightarrow> string io" where
  "header_loop bSize 0 block = return_ok block"
| "header_loop bSize (Suc todo) block =
     check (seek 0) ''failed to seek data volume: %v'' (\<lambda>_.
     check (read_full bSize) ''failed to read header from data volume: %v'' (\<lambda>block'.
     if take 16 block' = magicHeader then return_ok block'
     else if todo = 1 \<and> take 16 block' = zeros 16
     then check (mailbox_format bSize) ''failed to format data file: %v''
            (\<lambda>_. header_loop bSize todo block')
     else fail_with ''unexpected header while reading data file''))"

text \<open>\<^verbatim>\<open>readHeader\<close>: block size, state segment size and allocator size, in bytes;
  \<open>parse_header\<close> is what follows its loop.\<close>

definition parse_header :: "mail_env \<Rightarrow> string \<Rightarrow> (nat \<times> nat \<times> nat) io" where
  "parse_header e block =
     (if of_char (block ! 16) \<noteq> dataVersion
      then fail_with ''failed to access data file: data version %d, supported version %d''
      else if (of_char (block ! 17) :: nat) \<noteq> 0
      then fail_with ''failed to access data file: invalid reserved value %d''
      else
        let bSize = get32 (slice 18 4 block) in
        if bSize = 0 \<or> bSize mod BlockSize e \<noteq> 0
        then fail_with ''data file was formatted with block size %d, which is not a multiple of platform block size %d''
        else
          let aSize = get32 (slice 26 4 block) in
          if ones_count (aSize + 4) \<noteq> 1 then fail_with ''invalid allocator size %d''
          else return_ok (bSize, toBlocks bSize (192 + 2000 * 4 + aSize) * bSize, aSize))"

definition readHeader :: "mail_env \<Rightarrow> (nat \<times> nat \<times> nat) io" where
  "readHeader e = attempt (header_loop (BlockSize e) 2 (zeros (BlockSize e))) (parse_header e)"

text \<open>\<^verbatim>\<open>open\<close>: the handle starts at offset 0; the size is capped at \<^verbatim>\<open>math.MaxInt32\<close>.\<close>

definition open_data :: "nat io" where
  "open_data =
     check tick ''failed to open data device: %v'' (\<lambda>_.
     check (\<lambda>f. stat_size (f\<lparr>offset := 0\<rparr>)) ''failed to stat data device: %v'' (\<lambda>sz.
     return_ok (if int sz > 2 ^ 31 - 1 then nat (2 ^ 31 - 1) else sz)))"

definition NewMailBox :: "mail_env \<Rightarrow> nat \<Rightarrow> nat io" where
  "NewMailBox e localID =
     (if localID = 0 \<or> localID > 2000 then fail_with ''invalid mailbox ID %d''
      else check tick ''failed to open %q: %v'' (\<lambda>_.
           check (\<lambda>f. readHeader e (f\<lparr>offset := 0\<rparr>)) ''failed to read header: %v'' (\<lambda>_.
           return_ok localID)))"

text \<open>The padded buffer \<^verbatim>\<open>Send\<close> writes: length, encoded message, zeros up to a whole block.\<close>

definition chunk :: "nat \<Rightarrow> string \<Rightarrow> string" where
  "chunk n buf = overwrite 0 (le32 (length buf) @ buf) (zeros n)"

definition Send :: "mail_env \<Rightarrow> nat \<Rightarrow> Message \<Rightarrow> unit io" where
  "Send e localID msg =
     (let recipient = (if Recipient msg = localMailBoxID then localID else Recipient msg) in
      check open_data ''failed to open file: %v'' (\<lambda>_.
      check (readHeader e) ''failed to read header: %v'' (\<lambda>(bSize, sSize, aSize).
      check (readState bSize sSize) ''failed to read state: %v'' (\<lambda>state.
      check_pure (NewAllocatorByNodeCnt (int (aSize div 4))) ''failed to instance allocator: %v'' (\<lambda>al0.
      guard_panic (allocatorFromState al0 state) (\<lambda>al.
      guard_panic (head_slice state recipient) (\<lambda>hd_off.
      let pbMsg = \<lparr>mm_Next = get_head state hd_off, mm_Sender = localID,
                   mm_Length = length (Payload msg) mod 2 ^ 32, mm_Payload = Payload msg\<rparr> in
      check_pure (marshal e pbMsg) ''failed to encode message: %v'' (\<lambda>buf.
      let pBlocks = toBlocks bSize (4 + length buf) in
      guard_panic (Alloc al (i32 (int pBlocks))) (\<lambda>(al', r).
      check_pure r ''failed to allocate %d bytes: %v'' (\<lambda>addr.
      check (seek (addr * int bSize)) ''failed to seek file: %v'' (\<lambda>_.
      check (write_file (chunk (pBlocks * bSize) buf)) ''failed to write data: %v'' (\<lambda>_.
      guard_panic (allocatorToState al' state) (\<lambda>state'.
      check (writeState bSize sSize (put_head hd_off (u32 addr) state'))
        ''failed to write state: %v'' (\<lambda>_. return_ok ()))))))))))))))"

definition readChunk :: "int \<Rightarrow> nat \<Rightarrow> string io" where
  "readChunk off n =
     check (seek off) ''failed to seek data file: %v'' (\<lambda>_.
     check (read_full n) ''failed to read from data file: %v'' return_ok)"

text \<open>
  The loop of \<^verbatim>\<open>Recv\<close> over the message list. Every turn releases an allocated block, so the
  number of allocation nodes bounds the turns; \<open>None\<close> when that fuel runs out.
\<close>

fun recv_loop :: "mail_env \<Rightarrow> nat \<Rightarrow> nat \<Rightarrow> nat \<Rightarrow> Message list \<Rightarrow> nodes \<Rightarrow> int \<Rightarrow> (Message list \<times> nodes) io" where
  "recv_loop e bSize localID 0 msgs al addr =
     (if addr < 0 then return_ok (msgs, al) else (\<lambda>_. None))"
| "recv_loop e bSize localID (Suc fuel) msgs al addr =
     (if addr < 0 then return_ok (msgs, al)
      else
        check (readChunk (addr * int bSize) bSize) ''failed to read message length: %v'' (\<lambda>msgBuf.
        let n = get32 msgBuf in
        check (if n \<le> length msgBuf - 4 then return_ok (slice 4 n msgBuf)
               else readChunk (addr * int bSize) (((n - 1) div bSize + 1) * bSize))
          ''failed to read message length: %v'' (\<lambda>body.
        check_pure (unmarshal e body) ''failed to deserialize message: %v'' (\<lambda>pbMsg.
        guard_panic (Free al addr) (\<lambda>(al', r).
        case r of
          Some _ \<Rightarrow> fail_with ''failed to deallocate %d: %v''
        | None \<Rightarrow>
            recv_loop e bSize localID fuel
              (msgs @ [\<lparr>Sender = mm_Sender pbMsg mod 65536, Recipient = localID,
                        Payload = mm_Payload pbMsg\<rparr>])
              al' (i32 (int (mm_Next pbMsg))))))))"

text \<open>\<^verbatim>\<open>Recv\<close>: \<open>meanwhile\<close> is what happened to the file between the unlocked look and the lock.\<close>

definition Recv :: "mail_env \<Rightarrow> nat \<Rightarrow> (string \<Rightarrow> string) \<Rightarrow> Message list io" where
  "Recv e localID meanwhile =
     check open_data ''failed to open file: %v'' (\<lambda>_.
     check (readHeader e) ''failed to read header: %v'' (\<lambda>(bSize, sSize, aSize).
     check (readState bSize sSize) ''failed to read state: %v'' (\<lambda>state.
     guard_panic (head_slice state localID) (\<lambda>hd_off.
     if i32 (int (get_head state hd_off)) < 0 then return_ok []
     else
       check (\<lambda>f. readHeader e (f\<lparr>content := meanwhile (content f)\<rparr>)) ''failed to read header: %v''
         (\<lambda>(bSize, sSize, aSize).
       check (readState bSize sSize) ''failed to read state: %v'' (\<lambda>state.
       check_pure (NewAllocatorByNodeCnt (int (aSize div 4))) ''failed to instance allocator: %v'' (\<lambda>al0.
       guard_panic (allocatorFromState al0 state) (\<lambda>al.
       guard_panic (head_slice state localID) (\<lambda>hd_off.
       attempt (recv_loop e bSize localID (length al) [] al (i32 (int (get_head state hd_off))))
         (\<lambda>(msgs, al').
       guard_panic (allocatorToState al' state) (\<lambda>state'.
       check (writeState bSize sSize (put_head hd_off (u32 (-1)) state'))
         ''failed to write state: %v'' (\<lambda>_. return_ok msgs))))))))))))"

end
