(* ===== verification/MailBoxState.thy ===== *)
theory MailBoxState
  imports MailBox
begin

text \<open>
  The layout of a state segment and the three-copy protocol: what \<open>allocatorToState\<close>,
  \<open>allocatorFromState\<close> and the head pointers read and write, and what \<open>readState\<close> finds after
  \<open>writeState\<close> was interrupted.
\<close>

section \<open>The allocation tree fits its 32-bit fields\<close>

lemma tinv_bound:
  "tinv h (tree_of h ns pos) \<Longrightarrow> below h pos q \<Longrightarrow> \<bar>ns ! q\<bar> \<le> 2 ^ h"
proof (induction h arbitrary: pos)
  case 0
  then show ?case by (auto simp: below_def)
next
  case (Suc h)
  have ch: "tinv h (tree_of h ns (left pos))" "tinv h (tree_of h ns (right pos))"
    using tinv_children Suc.prems(1) by auto
  have "q = pos \<or> below h (left pos) q \<or> below h (right pos) q"
    using Suc.prems(2) by (simp add: below_Suc)
  then consider "q = pos" | "\<bar>ns ! q\<bar> \<le> 2 ^ h" using Suc.IH ch by blast
  then show ?case
  proof cases
    case 1
    then show ?thesis using val_le [OF Suc.prems(1)] val_ge [OF Suc.prems(1)] by simp
  qed simp
qed

lemma alloc_inv_i32:
  assumes "alloc_inv ns" and "x \<in> set ns"
  shows "i32 x = x"
proof -
  from assms(2) obtain q where q: "q < length ns" "x = ns ! q" by (auto simp: in_set_conv_nth)
  have H: "length ns = 2 ^ Suc (height ns) - 1" "height ns \<le> 29" "tinv (height ns) (root ns)"
    using assms(1) by (simp_all add: alloc_inv_def)
  have "\<bar>x\<bar> \<le> 2 ^ height ns"
    using tinv_bound [of "height ns" ns 0 q] below_root q H by (simp add: root_def)
  moreover have "(2::int) ^ height ns \<le> 2 ^ 29" using H(2) by (intro power_increasing) auto
  ultimately show ?thesis by (intro i32_id) auto
qed

section \<open>The state segment\<close>

definition nodes_bytes :: "nodes \<Rightarrow> string" where
  "nodes_bytes ns = concat (map (\<lambda>n. le32 (u32 n)) ns)"

lemma length_nodes_bytes [simp]: "length (nodes_bytes ns) = 4 * length ns"
  by (induction ns) (simp_all add: nodes_bytes_def)

lemma slice_nodes_bytes: "i < length ns \<Longrightarrow> slice (4 * i) 4 (nodes_bytes ns) = le32 (u32 (ns ! i))"
proof (induction ns arbitrary: i)
  case (Cons n ns)
  show ?case
  proof (cases i)
    case 0
    then show ?thesis by (simp add: nodes_bytes_def slice_def)
  next
    case (Suc j)
    then show ?thesis using Cons by (simp add: nodes_bytes_def slice_def)
  qed
qed simp

lemma overwrite_join:
  assumes "p + length xs + length ys \<le> length s"
  shows "overwrite (p + length xs) ys (overwrite p xs s) = overwrite p (xs @ ys) s"
proof -
  have p: "p \<le> length s" "p + length xs \<le> length (overwrite p xs s)"
    using assms by (simp_all add: length_overwrite)
  show ?thesis
    unfolding overwrite_in [OF p(2)] unfolding overwrite_in [OF p(1)]
    using assms by (simp add: ac_simps)
qed

lemma allocatorToState_from_eq:
  assumes "8192 + 4 * (i + length ns) \<le> length st"
  shows "allocatorToState_from i ns st = Some (overwrite (8192 + 4 * i) (nodes_bytes ns) st)"
  using assms
proof (induction ns arbitrary: i st)
  case Nil
  then show ?case by (simp add: nodes_bytes_def overwrite_in)
next
  case (Cons n ns)
  let ?st = "overwrite (8192 + 4 * i) (le32 (u32 n)) st"
  have len: "length ?st = length st" using Cons.prems by (intro length_overwrite) simp
  have "allocatorToState_from (Suc i) ns ?st =
        Some (overwrite (8192 + 4 * Suc i) (nodes_bytes ns) ?st)"
    using Cons.prems len by (intro Cons.IH) simp
  also have "8192 + 4 * Suc i = (8192 + 4 * i) + length (le32 (u32 n))" by simp
  also have "overwrite \<dots> (nodes_bytes ns) ?st =
             overwrite (8192 + 4 * i) (le32 (u32 n) @ nodes_bytes ns) st"
    using Cons.prems by (intro overwrite_join) simp
  finally show ?case using Cons.prems by (simp add: nodes_bytes_def)
qed

lemma allocatorToState_eq:
  "8192 + 4 * length ns \<le> length st \<Longrightarrow>
   allocatorToState ns st = Some (overwrite 8192 (nodes_bytes ns) st)"
  using allocatorToState_from_eq [of 0] by (simp add: allocatorToState_def)

lemma allocatorFromState_written:
  assumes "8192 + 4 * length ns \<le> length st" and "\<forall>x \<in> set ns. i32 x = x"
    and "length al = length ns"
  shows "allocatorFromState al (overwrite 8192 (nodes_bytes ns) st) = Some ns"
proof -
  let ?st = "overwrite 8192 (nodes_bytes ns) st"
  have "i32 (int (get32 (slice (8192 + 4 * i) 4 ?st))) = ns ! i" if "i < length ns" for i
  proof -
    have "slice (8192 + 4 * i) 4 ?st = slice (4 * i) 4 (nodes_bytes ns)"
      using slice_overwrite_inside [of 8192 "nodes_bytes ns" st "8192 + 4 * i" 4] assms(1) that
      by simp
    with slice_nodes_bytes [OF that] assms(2) that show ?thesis
      by (simp add: i32_u32 u32_less)
  qed
  then have "map (\<lambda>i. i32 (int (get32 (slice (8192 + 4 * i) 4 ?st)))) [0..<length ns] = ns"
    by (intro nth_equalityI) simp_all
  then show ?thesis using assms by (simp add: allocatorFromState_def length_overwrite)
qed

lemma allocatorFromState_put_head:
  assumes "off + 4 \<le> 8192" and "8192 \<le> length st"
  shows "allocatorFromState al (put_head off v st) = allocatorFromState al st"
proof -
  have "slice (8192 + 4 * i) 4 (put_head off v st) = slice (8192 + 4 * i) 4 st" for i
    unfolding put_head_def using assms by (intro slice_overwrite_other) auto
  then show ?thesis
    using assms by (simp add: allocatorFromState_def put_head_def length_overwrite)
qed

definition valid_id :: "nat \<Rightarrow> bool" where
  "valid_id mid \<longleftrightarrow> 1 \<le> mid \<and> mid \<le> 2000"

lemma head_offset_valid: "valid_id mid \<Longrightarrow> head_offset mid = 192 + 4 * (mid - 1)"
proof -
  assume "valid_id mid"
  then have m: "1 \<le> mid" "mid \<le> 2000" by (simp_all add: valid_id_def)
  then have "(mid + 65535) mod 65536 = mid - 1" by (simp add: mod_if le_mod_geq)
  with m show ?thesis by (simp add: head_offset_def)
qed

lemma head_offset_bounds:
  assumes "valid_id mid"
  shows "192 \<le> head_offset mid" "head_offset mid + 4 \<le> 8192"
  using assms by (auto simp: head_offset_valid valid_id_def)

lemma head_slice_valid:
  assumes "valid_id mid" and "8192 \<le> length st"
  shows "head_slice st mid = Some (head_offset mid)"
  using head_offset_bounds [OF assms(1)] assms(2) by (simp add: head_slice_def Let_def)

lemma get_head_put_head:
  assumes "valid_id i" and "valid_id j" and "8192 \<le> length st" and "v < 2 ^ 32"
  shows "get_head (put_head (head_offset i) v st) (head_offset j) =
         (if i = j then v else get_head st (head_offset j))"
proof (cases "i = j")
  case True
  have "slice (head_offset j) 4 (put_head (head_offset i) v st) = le32 v"
    unfolding put_head_def True
    using head_offset_bounds(2) [OF assms(2)] assms(3) by (intro slice_overwrite_same) simp_all
  with True assms(4) show ?thesis by (simp add: get_head_def)
next
  case False
  then have "head_offset j + 4 \<le> head_offset i \<or> head_offset i + 4 \<le> head_offset j"
    using assms(1,2) by (auto simp: head_offset_valid valid_id_def)
  then have "slice (head_offset j) 4 (put_head (head_offset i) v st) = slice (head_offset j) 4 st"
    unfolding put_head_def using head_offset_bounds(2) [OF assms(1)] assms(3)
    by (intro slice_overwrite_other) auto
  with False show ?thesis by (simp add: get_head_def)
qed

lemma get_head_nodes:
  assumes "valid_id i" and "8192 + length bs \<le> length st"
  shows "get_head (overwrite 8192 bs st) (head_offset i) = get_head st (head_offset i)"
proof -
  have "slice (head_offset i) 4 (overwrite 8192 bs st) = slice (head_offset i) 4 st"
    using head_offset_bounds [OF assms(1)] assms(2) by (intro slice_overwrite_other) auto
  then show ?thesis by (simp add: get_head_def)
qed

text \<open>The segment \<open>st\<close> holds the allocation tree \<open>ns\<close> and the list heads \<open>hd\<close>.\<close>

definition state_of :: "string \<Rightarrow> nodes \<Rightarrow> (nat \<Rightarrow> nat) \<Rightarrow> bool" where
  "state_of st ns heads \<longleftrightarrow>
     8192 + 4 * length ns \<le> length st \<and>
     (\<forall>al. length al = length ns \<longrightarrow> allocatorFromState al st = Some ns) \<and>
     (\<forall>i. valid_id i \<longrightarrow> get_head st (head_offset i) = heads i)"

lemma state_of_update:
  assumes "state_of st ns heads" and "length ns' = length ns" and "\<forall>x \<in> set ns'. i32 x = x"
    and "valid_id i" and "v < 2 ^ 32"
  obtains st' where "allocatorToState ns' st = Some st'"
    and "state_of (put_head (head_offset i) v st') ns' (heads(i := v))"
    and "length (put_head (head_offset i) v st') = length st"
proof
  let ?st = "overwrite 8192 (nodes_bytes ns') st"
  have len: "8192 + 4 * length ns' \<le> length st" using assms(1,2) by (simp add: state_of_def)
  then show "allocatorToState ns' st = Some ?st" by (rule allocatorToState_eq)
  have l: "length ?st = length st" using len by (intro length_overwrite) simp
  have h: "head_offset i + 4 \<le> 8192" "8192 \<le> length ?st"
    using head_offset_bounds [OF assms(4)] len l by simp_all
  show l2: "length (put_head (head_offset i) v ?st) = length st"
    unfolding put_head_def using h l by (subst length_overwrite) simp_all
  have "allocatorFromState al (put_head (head_offset i) v ?st) = Some ns'"
    if "length al = length ns'" for al
    using allocatorFromState_put_head [OF h] allocatorFromState_written [OF len assms(3) that]
    by simp
  moreover have "get_head (put_head (head_offset i) v ?st) (head_offset j) = (heads(i := v)) j"
    if "valid_id j" for j
    using get_head_put_head [OF assms(4) that h(2) assms(5)] get_head_nodes [OF that] assms(1) len
      that by (simp add: state_of_def)
  ultimately show "state_of (put_head (head_offset i) v ?st) ns' (heads(i := v))"
    using len l2 by (simp add: state_of_def)
qed

section \<open>Three copies\<close>

definition copy :: "nat \<Rightarrow> nat \<Rightarrow> nat \<Rightarrow> string \<Rightarrow> string" where
  "copy bSize sSize i c = slice (bSize + i * sSize) sSize c"

text \<open>The copy \<open>readState\<close> picks; a file is settled when the three copies agree.\<close>

definition current :: "nat \<Rightarrow> nat \<Rightarrow> string \<Rightarrow> string" where
  "current bSize sSize c =
     (if copy bSize sSize 0 c = copy bSize sSize 1 c then copy bSize sSize 0 c
      else copy bSize sSize 2 c)"

definition settled :: "nat \<Rightarrow> nat \<Rightarrow> string \<Rightarrow> bool" where
  "settled bSize sSize c \<longleftrightarrow>
     copy bSize sSize 1 c = copy bSize sSize 0 c \<and> copy bSize sSize 2 c = copy bSize sSize 0 c"

definition write_copy :: "nat \<Rightarrow> nat \<Rightarrow> nat \<Rightarrow> string \<Rightarrow> string \<Rightarrow> string" where
  "write_copy bSize sSize i st c = overwrite (bSize + i * sSize) st c"

lemma copy_end_le:
  assumes "i < (3::nat)"
  shows "b + i * s + s \<le> b + 3 * s"
proof -
  have "Suc i * s \<le> 3 * s" using assms by (intro mult_le_mono1) simp
  then show ?thesis by simp
qed

lemma copy_end:
  assumes "bSize + 3 * sSize \<le> length c" and "i < 3"
  shows "bSize + i * sSize + sSize \<le> length c"
  using copy_end_le [OF assms(2)] assms(1) by (rule order_trans)

lemma copy_write_copy:
  assumes "bSize + 3 * sSize \<le> length c" and "length st = sSize" and "i < 3" and "j < 3"
  shows "copy bSize sSize j (write_copy bSize sSize i st c) =
         (if i = j then st else copy bSize sSize j c)"
proof (cases "i = j")
  case True
  have "bSize + i * sSize \<le> length c" using copy_end [OF assms(1,3)] by simp
  from slice_overwrite_same [OF this, of sSize st] show ?thesis
    using True assms(2) by (simp add: copy_def write_copy_def)
next
  case False
  note i = copy_end [OF assms(1,3)]
  have "Suc j * sSize \<le> i * sSize \<or> Suc i * sSize \<le> j * sSize"
    using False by (metis Suc_leI linorder_neqE_nat mult_le_mono1)
  then have "copy bSize sSize j (overwrite (bSize + i * sSize) st c) = copy bSize sSize j c"
    unfolding copy_def using assms(2) i by (intro slice_overwrite_other) auto
  with False show ?thesis by (simp add: write_copy_def)
qed

lemma length_write_copy:
  assumes "bSize + 3 * sSize \<le> length c" and "length st = sSize" and "i < 3"
  shows "length (write_copy bSize sSize i st c) = length c"
  unfolding write_copy_def using copy_end [OF assms(1,3)] assms(2)
  by (intro length_overwrite) simp

lemma runs_readState:
  assumes "bSize + 3 * sSize \<le> length (content f)"
    and "\<And>f'. after f (content f) f' \<Longrightarrow> P (current bSize sSize (content f)) f'"
    and "\<And>f'. faulty f \<Longrightarrow> after f (content f) f' \<Longrightarrow> E f'"
  shows "runs (readState bSize sSize) f P E"
proof -
  let ?s3 = "slice bSize (sSize * 3) (content f)"
  have s: "slice 0 sSize ?s3 = copy bSize sSize 0 (content f)"
    "slice sSize sSize ?s3 = copy bSize sSize 1 (content f)"
    "slice (2 * sSize) sSize ?s3 = copy bSize sSize 2 (content f)"
    using slice_slice [of 0 sSize "sSize * 3" bSize "content f"]
      slice_slice [of sSize sSize "sSize * 3" bSize "content f"]
      slice_slice [of "2 * sSize" sSize "sSize * 3" bSize "content f"]
    by (simp_all add: copy_def)
  show ?thesis
    unfolding readState_def
  proof (intro io_rules, goal_cases)
    case (3 f1 f2)
    then have "after f (content f) f2" "content f1 = content f"
      using after_trans afterD by metis+
    then have "P (current bSize sSize (content f)) f2" using assms(2) by simp
    with 3 \<open>content f1 = content f\<close> show ?case
      by (auto simp: s current_def intro!: runs_return)
  next
    case (4 f1)
    then show ?case using assms(3) after_trans afterD by blast
  qed (use assms(1) in \<open>auto dest: afterD\<close>)
qed

text \<open>
  \<open>writeState\<close> either stores the three copies, or is cut short while it writes one of them:
  the copies before that one are new, that one holds anything, the copies after it are old.
\<close>

definition cut :: "nat \<Rightarrow> nat \<Rightarrow> nat \<Rightarrow> string \<Rightarrow> string \<Rightarrow> string \<Rightarrow> string" where
  "cut bSize sSize n junk st c =
     write_copy bSize sSize n junk
       (if n = 0 then c else if n = 1 then write_copy bSize sSize 0 st c
        else write_copy bSize sSize 1 st (write_copy bSize sSize 0 st c))"

lemma runs_write_copy:
  assumes "after f c f1" and "offset f1 = bSize + i * sSize" and "length st = sSize"
    and "\<And>f2. after f (write_copy bSize sSize i st c) f2 \<Longrightarrow> offset f2 = bSize + Suc i * sSize \<Longrightarrow>
      runs (k ()) f2 P E"
    and "\<And>f2 old. faulty f \<Longrightarrow> after f (write_copy bSize sSize i (torn f old st) c) f2 \<Longrightarrow> E f2"
  shows "runs (check (write_file st) msg k) f1 P E"
proof (intro io_rules, goal_cases)
  note f1 = afterD [OF assms(1)]
  {
    case (1 f2)
    then show ?case
      using assms(4) [of f2] after_trans [OF assms(1)] f1 assms(2,3) by (simp add: write_copy_def)
  next
    case (2 f2 old)
    then show ?case
      using assms(5) [of old f2] after_trans [OF assms(1)] f1 assms(2) by (simp add: write_copy_def)
  }
qed

lemma runs_writeState:
  assumes "length st = sSize"
    and "\<And>f'. after f (cut bSize sSize 2 st st (content f)) f' \<Longrightarrow> P () f'"
    and "\<And>n old f'. faulty f \<Longrightarrow> n < 3 \<Longrightarrow>
      after f (cut bSize sSize n (torn f old st) st (content f)) f' \<Longrightarrow> E f'"
  shows "runs (writeState bSize sSize st) f P E"
proof -
  let ?w = "\<lambda>i x c. write_copy bSize sSize i x c"
  have e: "E f2" if "faulty f" "after f (cut bSize sSize n (torn f old st) st (content f)) f2" "n < 3"
    for n old f2 using assms(3) that by blast
  have c3: "runs (check (write_file st) m3 return_ok) f1 P E"
    if "after f (?w 1 st (?w 0 st (content f))) f1" "offset f1 = bSize + 2 * sSize" for f1 m3
    using that assms(1,2) e [where n = 2]
    by (intro runs_write_copy [of f _ f1 bSize 2 sSize] runs_return) (auto simp: cut_def)
  have c2: "runs (check (write_file st) m2 (\<lambda>_. check (write_file st) m3 return_ok)) f1 P E"
    if "after f (?w 0 st (content f)) f1" "offset f1 = bSize + 1 * sSize" for f1 m2 m3
    using that assms(1) e [where n = 1]
    by (intro runs_write_copy [of f _ f1 bSize 1 sSize] c3) (auto simp: cut_def)
  have c1: "runs (check (write_file st) m1 (\<lambda>_. check (write_file st) m2 (\<lambda>_.
      check (write_file st) m3 return_ok))) f1 P E"
    if "after f (content f) f1" "offset f1 = bSize + 0 * sSize" for f1 m1 m2 m3
    using that assms(1) e [where n = 0]
    by (intro runs_write_copy [of f _ f1 bSize 0 sSize] c2) (auto simp: cut_def)
  have "write_copies 3 st = check (write_file st) ''failed to write state[%d] segment to data file: %v''
    (\<lambda>_. check (write_file st) ''failed to write state[%d] segment to data file: %v''
    (\<lambda>_. check (write_file st) ''failed to write state[%d] segment to data file: %v'' return_ok))"
    unfolding numeral_3_eq_3 write_copies.simps by (intro ext) (simp add: check_def)
  with c1 have "runs (write_copies 3 st) f1 P E" if "after f (content f) f1" "offset f1 = bSize" for f1
    using that by simp
  then show ?thesis
    unfolding writeState_def using assms(1) by (simp add: runs_check runs_seek)
qed

text \<open>The heart of the protocol: whatever happens to one write, a settled file reads back as the
  old state or as the new one.\<close>

lemma copies_cut:
  assumes "bSize + 3 * sSize \<le> length c" and "length st = sSize" and "length junk = sSize"
    and "n < 3" and "j < 3"
  shows "copy bSize sSize j (cut bSize sSize n junk st c) =
         (if j < n then st else if j = n then junk else copy bSize sSize j c)"
proof -
  have "n = 0 \<or> n = 1 \<or> n = 2" using assms(4) by auto
  then show ?thesis
    using assms by (auto simp: cut_def copy_write_copy length_write_copy)
qed

lemma length_cut:
  assumes "bSize + 3 * sSize \<le> length c" and "length st = sSize" and "length junk = sSize" and "n < 3"
  shows "length (cut bSize sSize n junk st c) = length c"
proof -
  have "n = 0 \<or> n = 1 \<or> n = 2" using assms(4) by auto
  then show ?thesis using assms by (auto simp: cut_def length_write_copy)
qed

lemma current_cut:
  assumes "bSize + 3 * sSize \<le> length c" and "length st = sSize" and "length junk = sSize" and "n < 3"
    and "settled bSize sSize c"
  shows "current bSize sSize (cut bSize sSize n junk st c) \<in> {current bSize sSize c, st}"
proof -
  note cp = copies_cut [OF assms(1-4)]
  have "n = 0 \<or> n = 1 \<or> n = 2" using assms(4) by auto
  then show ?thesis
    using assms(5) cp [of 0] cp [of 1] cp [of 2] by (auto simp: current_def settled_def)
qed

lemma current_written:
  assumes "bSize + 3 * sSize \<le> length c" and "length st = sSize"
  shows "current bSize sSize (cut bSize sSize 2 st st c) = st"
    and "settled bSize sSize (cut bSize sSize 2 st st c)"
  using copies_cut [OF assms assms(2), of 2 0] copies_cut [OF assms assms(2), of 2 1]
    copies_cut [OF assms assms(2), of 2 2] by (simp_all add: current_def settled_def)

lemma slice_cut:
  assumes "bSize + 3 * sSize \<le> length c" and "length st = sSize" and "length junk = sSize" and "n < 3"
    and "q + m \<le> bSize \<or> bSize + 3 * sSize \<le> q"
  shows "slice q m (cut bSize sSize n junk st c) = slice q m c"
proof -
  have w: "slice q m (write_copy bSize sSize i x d) = slice q m d"
    if "length d = length c" "length x = sSize" "i < 3" for i x d
  proof -
    have "bSize \<le> bSize + i * sSize" by simp
    then have "q + m \<le> bSize + i * sSize \<or> bSize + i * sSize + length x \<le> q"
      using assms(5) copy_end_le [OF that(3), of bSize sSize] that(2) by linarith
    moreover have "bSize + i * sSize + length x \<le> length d"
      using copy_end [of bSize sSize d i] assms(1) that by simp
    ultimately show ?thesis unfolding write_copy_def by (intro slice_overwrite_other)
  qed
  have "n = 0 \<or> n = 1 \<or> n = 2" using assms(4) by auto
  then show ?thesis
    using assms(1-3) by (elim disjE) (simp_all add: cut_def w length_write_copy)
qed

end
