(* ===== verification/MailBoxSpec.thy ===== *)
theory MailBoxSpec
  imports MailBoxState
begin

text \<open>
  The contract of the mailboxes. \<open>mail_rep\<close> relates the bytes of a file to the message lists
  they hold; \<open>Send\<close> and \<open>Recv\<close> refine pushing to and emptying a list, also when the device
  fails under them; formatting an empty file gives empty lists. The contract is exported as
  the locale \<open>mail_service\<close>.
\<close>

section \<open>The header\<close>

definition env_ok :: "mail_env \<Rightarrow> bool" where
  "env_ok e \<longleftrightarrow> 30 \<le> BlockSize e \<and>
     (\<forall>m. mm_Next m < 2 ^ 32 \<and> mm_Sender m < 2 ^ 32 \<and> mm_Length m < 2 ^ 32 \<longrightarrow>
        (\<exists>buf. marshal e m = Inr buf \<and> unmarshal e buf = Inr m))"

definition header_ok :: "mail_env \<Rightarrow> string \<Rightarrow> nat \<Rightarrow> nat \<Rightarrow> bool" where
  "header_ok e c bS aS \<longleftrightarrow>
     30 \<le> BlockSize e \<and> BlockSize e \<le> bS \<and> bS mod BlockSize e = 0 \<and> bS \<le> length c \<and>
     slice 0 16 c = magicHeader \<and> slice 16 1 c = [char_of dataVersion] \<and>
     slice 17 1 c = [char_of (0::nat)] \<and> get32 (slice 18 4 c) = bS \<and> get32 (slice 26 4 c) = aS \<and>
     ones_count (aS + 4) = 1"

definition seg_size :: "nat \<Rightarrow> nat \<Rightarrow> nat" where
  "seg_size bS aS = toBlocks bS (192 + 2000 * 4 + aS) * bS"

lemma slice_one: "slice i 1 s = [x] \<Longrightarrow> s ! i = x \<and> i < length s"
proof -
  assume a: "slice i 1 s = [x]"
  then have "i < length s" by (cases "i < length s") (simp_all add: slice_def)
  with a show ?thesis by (simp add: slice_def take_Suc hd_drop_conv_nth)
qed

lemma of_char_small [simp]:
  "of_char (char_of dataVersion) = dataVersion" "dataVersion mod 256 = dataVersion" "of_char (char_of (0::nat)) = (0::nat)"
  by (simp_all add: dataVersion_def)

lemma runs_header_loop:
  assumes "n \<le> length (content f)" and "16 \<le> n" and "slice 0 16 (content f) = magicHeader"
    and "\<And>f'. after f (content f) f' \<Longrightarrow> P (slice 0 n (content f)) f'"
    and "\<And>f'. faulty f \<Longrightarrow> after f (content f) f' \<Longrightarrow> E f'"
  shows "runs (header_loop n (Suc todo) block) f P E"
proof -
  have m: "take 16 (slice 0 n (content f)) = magicHeader"
    using assms(2,3) by (simp add: slice_def min_def)
  show ?thesis
    unfolding header_loop.simps
  proof (intro io_rules, goal_cases)
    case (3 f1 f2)
    then have "after f (content f) f2" "content f1 = content f" "offset f1 = 0"
      using after_trans afterD by auto
    with assms(4) m show ?case by (auto intro!: runs_return)
  next
    case (4 f1)
    then show ?case using assms(5) afterD by blast
  qed (use assms(1) in \<open>auto dest: afterD\<close>)
qed

lemma runs_parse_header:
  assumes "header_ok e c bS aS" and "P (bS, seg_size bS aS, aS) f"
  shows "runs (parse_header e (slice 0 (BlockSize e) c)) f P E"
proof -
  let ?b = "slice 0 (BlockSize e) c"
  note h = assms(1) [unfolded header_ok_def]
  then have b: "30 \<le> BlockSize e" "BlockSize e \<le> length c" by auto
  have at: "?b ! i = c ! i" if "i < 30" for i
    using b that by (simp add: slice_def)
  have sl: "slice p n ?b = slice p n c" if "p + n \<le> 30" for p n
    using b that slice_slice [of p n "BlockSize e" 0 c] by simp
  have v: "?b ! 16 = char_of dataVersion" "?b ! 17 = char_of (0::nat)"
    using h slice_one [of 16 c] slice_one [of 17 c] at by auto
  have s: "get32 (slice 18 4 ?b) = bS" "get32 (slice 26 4 ?b) = aS" using h sl by auto
  show ?thesis
    unfolding parse_header_def v s Let_def using h assms(2)
    by (auto simp: seg_size_def intro!: runs_return)
qed

lemma runs_readHeader:
  assumes "header_ok e (content f) bS aS"
    and "\<And>f'. after f (content f) f' \<Longrightarrow> P (bS, seg_size bS aS, aS) f'"
    and "\<And>f'. faulty f \<Longrightarrow> after f (content f) f' \<Longrightarrow> E f'"
  shows "runs (readHeader e) f P E"
  unfolding readHeader_def numeral_2_eq_2
proof (intro runs_attempt runs_header_loop, goal_cases)
  case (4 f')
  then show ?case by (intro runs_parse_header [OF assms(1)] assms(2))
qed (use assms(1,3) in \<open>auto simp: header_ok_def\<close>)

lemma runs_open_data:
  assumes "\<And>f' n. after f (content f) f' \<Longrightarrow> P n f'"
    and "\<And>f'. faulty f \<Longrightarrow> after f (content f) f' \<Longrightarrow> E f'"
  shows "runs open_data f P E"
  unfolding open_data_def
proof (intro runs_check runs_tick, goal_cases)
  case (1 f1)
  let ?f = "f1\<lparr>offset := 0\<rparr>"
  have a: "after f (content f) ?f" using 1(1) by (simp add: after_def faulty_def)
  have "runs stat_size ?f (\<lambda>x f'. runs (return_ok (if 2 ^ 31 - 1 < int x then nat (2 ^ 31 - 1) else x)) f' P E) E"
  proof (intro runs_stat, goal_cases)
    case (1 f2)
    then have "after f (content f) f2" using after_trans [OF a] afterD [OF a] by simp
    then show ?case by (intro runs_return assms(1))
  next
    case 2
    then show ?case using assms(2) a afterD by blast
  qed
  then show ?case by (simp add: runs_def)
next
  case 2
  then show ?case using assms(2) after_refl by blast
qed

section \<open>Frames\<close>

definition same_but :: "nat \<Rightarrow> nat \<Rightarrow> string \<Rightarrow> string \<Rightarrow> bool" where
  "same_but lo hi c c' \<longleftrightarrow> length c' = length c \<and>
     (\<forall>q m. q + m \<le> lo \<or> hi \<le> q \<longrightarrow> slice q m c' = slice q m c)"

lemma same_but_overwrite:
  "p + length bs \<le> length c \<Longrightarrow> same_but p (p + length bs) c (overwrite p bs c)"
  by (simp add: same_but_def length_overwrite slice_overwrite_other)

lemma same_but_cut:
  "bS + 3 * sS \<le> length c \<Longrightarrow> length st = sS \<Longrightarrow> length junk = sS \<Longrightarrow> n < 3 \<Longrightarrow>
   same_but bS (bS + 3 * sS) c (cut bS sS n junk st c)"
  by (simp add: same_but_def length_cut slice_cut)

lemma header_frame:
  assumes "header_ok e c bS aS" and "same_but lo hi c c'" and "bS \<le> lo"
  shows "header_ok e c' bS aS"
proof -
  have "slice q m c' = slice q m c" if "q + m \<le> 30" for q m
    using assms that by (auto simp: header_ok_def same_but_def)
  with assms(1,2) show ?thesis by (simp add: header_ok_def same_but_def)
qed

lemma copy_frame:
  assumes "same_but lo hi c c'" and "bS + 3 * sS \<le> lo" and "i < 3"
  shows "copy bS sS i c' = copy bS sS i c"
proof -
  have "bS + i * sS + sS \<le> lo" using copy_end_le [OF assms(3)] assms(2) by (rule order_trans)
  with assms(1) show ?thesis by (simp add: same_but_def copy_def)
qed

lemma current_frame:
  assumes "same_but lo hi c c'" and "bS + 3 * sS \<le> lo"
  shows "current bS sS c' = current bS sS c" "settled bS sS c' = settled bS sS c"
  using copy_frame [OF assms] by (simp_all add: current_def settled_def)

section \<open>Message lists\<close>

text \<open>A stored message: its first block, the exponent of its block, its sender and its payload.\<close>

type_synonym entry = "nat \<times> nat \<times> nat \<times> string"

definition stored :: "mail_env \<Rightarrow> string \<Rightarrow> nat \<Rightarrow> nat \<Rightarrow> MailBoxMessage \<Rightarrow> bool" where
  "stored e c bS a m \<longleftrightarrow>
     (\<exists>buf. unmarshal e buf = Inr m \<and> length buf < 2 ^ 32 \<and> 4 + length buf \<le> bS \<and>
            slice (a * bS) (4 + length buf) c = le32 (length buf) @ buf)"

fun chain_at :: "mail_env \<Rightarrow> string \<Rightarrow> nat \<Rightarrow> nat \<Rightarrow> entry list \<Rightarrow> bool" where
  "chain_at e c bS h [] = (i32 (int h) < 0)"
| "chain_at e c bS h ((a, k, sender, payload) # xs) =
     (i32 (int h) = int a \<and> sender < 65536 \<and>
      (\<exists>nxt < 2 ^ 32. stored e c bS a \<lparr>mm_Next = nxt, mm_Sender = sender,
          mm_Length = length payload mod 2 ^ 32, mm_Payload = payload\<rparr> \<and>
        chain_at e c bS nxt xs))"

lemma stored_frame:
  assumes "stored e c bS a m" and "same_but lo hi c c'" and "(a + 1) * bS \<le> lo \<or> hi \<le> a * bS"
  shows "stored e c' bS a m"
proof -
  from assms(1) obtain buf where b: "unmarshal e buf = Inr m" "length buf < 2 ^ 32"
    "4 + length buf \<le> bS" "slice (a * bS) (4 + length buf) c = le32 (length buf) @ buf"
    by (auto simp: stored_def)
  have "a * bS + (4 + length buf) \<le> lo \<or> hi \<le> a * bS" using b(3) assms(3) by auto
  with assms(2) have "slice (a * bS) (4 + length buf) c' = slice (a * bS) (4 + length buf) c"
    unfolding same_but_def by blast
  with b show ?thesis unfolding stored_def by metis
qed

lemma chain_frame:
  assumes "chain_at e c bS h xs" and "same_but lo hi c c'"
    and "\<forall>x \<in> set xs. (fst x + 1) * bS \<le> lo \<or> hi \<le> fst x * bS"
  shows "chain_at e c' bS h xs"
  using assms(1,3)
proof (induction xs arbitrary: h)
  case (Cons x xs)
  obtain a k s p where x: "x = (a, k, s, p)" by (cases x)
  let ?m = "\<lambda>nxt. \<lparr>mm_Next = nxt, mm_Sender = s, mm_Length = length p mod 2 ^ 32, mm_Payload = p\<rparr>"
  from Cons.prems(1) x obtain nxt where nxt: "i32 (int h) = int a" "s < 65536" "nxt < 2 ^ 32"
    "stored e c bS a (?m nxt)" "chain_at e c bS nxt xs" by auto
  have "(a + 1) * bS \<le> lo \<or> hi \<le> a * bS" using Cons.prems(2) x by simp
  from stored_frame [OF nxt(4) assms(2) this] have "stored e c' bS a (?m nxt)" .
  moreover have "chain_at e c' bS nxt xs"
    by (rule Cons.IH [OF nxt(5)]) (use Cons.prems(2) in simp)
  ultimately show ?case using x nxt by auto
qed simp


text \<open>
  The blocks of a file: block 0 holds the header and the state segments, every other live
  block is the block of exactly one message.
\<close>

definition msg_blocks :: "(nat \<Rightarrow> entry list) \<Rightarrow> (nat \<times> nat) set" where
  "msg_blocks ch = (\<Union>i \<in> {i. valid_id i}. (\<lambda>x. (fst x, fst (snd x))) ` set (ch i))"

definition blocks_ok :: "nat \<Rightarrow> nat \<Rightarrow> nodes \<Rightarrow> nat \<Rightarrow> (nat \<Rightarrow> entry list) \<Rightarrow> bool" where
  "blocks_ok bS sS ns k0 ch \<longleftrightarrow>
     bS + 3 * sS \<le> 2 ^ k0 * bS \<and>
     live ns = insert (0, k0) (msg_blocks ch) \<and>
     (\<forall>i. valid_id i \<longrightarrow> distinct (map fst (ch i)) \<and> 0 \<notin> fst ` set (ch i)) \<and>
     (\<forall>i j. valid_id i \<longrightarrow> valid_id j \<longrightarrow> i \<noteq> j \<longrightarrow> fst ` set (ch i) \<inter> fst ` set (ch j) = {})"

text \<open>\<open>rep_at\<close> with everything explicit; \<open>mail_rep\<close> keeps the lists, newest message first.\<close>

definition rep_at :: "mail_env \<Rightarrow> string \<Rightarrow> nat \<Rightarrow> nat \<Rightarrow> nodes \<Rightarrow> (nat \<Rightarrow> nat) \<Rightarrow> nat \<Rightarrow>
    (nat \<Rightarrow> entry list) \<Rightarrow> bool" where
  "rep_at e c bS aS ns heads k0 ch \<longleftrightarrow>
     header_ok e c bS aS \<and> bS + 3 * seg_size bS aS \<le> length c \<and>
     state_of (current bS (seg_size bS aS) c) ns heads \<and> 4 * length ns = aS \<and>
     alloc_inv ns \<and> capacity ns * bS \<le> length c \<and> blocks_ok bS (seg_size bS aS) ns k0 ch \<and>
     (\<forall>i. valid_id i \<longrightarrow> chain_at e c bS (heads i) (ch i))"

definition list_of :: "entry list \<Rightarrow> (nat \<times> string) list" where
  "list_of xs = map (\<lambda>x. snd (snd x)) xs"

definition mail_rep :: "mail_env \<Rightarrow> string \<Rightarrow> (nat \<Rightarrow> (nat \<times> string) list) \<Rightarrow> bool" where
  "mail_rep e c q \<longleftrightarrow>
     (\<exists>bS aS ns heads k0 ch. rep_at e c bS aS ns heads k0 ch \<and>
        (\<forall>i. valid_id i \<longrightarrow> q i = list_of (ch i)))"

definition mail_ok :: "mail_env \<Rightarrow> string \<Rightarrow> (nat \<Rightarrow> (nat \<times> string) list) \<Rightarrow> bool" where
  "mail_ok e c q \<longleftrightarrow>
     (\<exists>bS aS ns heads k0 ch. rep_at e c bS aS ns heads k0 ch \<and> settled bS (seg_size bS aS) c \<and>
        (\<forall>i. valid_id i \<longrightarrow> q i = list_of (ch i)))"

text \<open>Some block of the file is free.\<close>

definition room :: "mail_env \<Rightarrow> string \<Rightarrow> bool" where
  "room e c \<longleftrightarrow>
     (\<exists>bS aS ns heads k0 ch. rep_at e c bS aS ns heads k0 ch \<and>
        (\<exists>u < capacity ns. \<forall>b \<in> live ns. apart (u, 0) b))"

lemma rep_at_nodes:
  assumes "rep_at e c bS aS ns heads k0 ch" and "rep_at e c bS' aS' ns' heads' k0' ch'"
  shows "ns = ns'"
proof -
  have e: "bS = bS'" "aS = aS'"
    using assms unfolding rep_at_def header_ok_def by metis+
  define al where "al = replicate (aS div 4) (0::int)"
  have "length al = length ns" "length al = length ns'"
    using assms e by (auto simp: rep_at_def al_def)
  then have "Some ns = Some ns'"
    using assms e unfolding rep_at_def state_of_def by metis
  then show ?thesis by simp
qed

lemma room_root:
  assumes "rep_at e c bS aS ns heads k0 ch"
  shows "room e c \<longleftrightarrow> 1 \<le> ns ! 0"
proof -
  have inv: "alloc_inv ns" using assms by (simp add: rep_at_def)
  then have t: "tinv (height ns) (root ns)" by (simp add: alloc_inv_def)
  have "1 \<le> ns ! 0 \<longleftrightarrow> (\<exists>a k. (1::int) \<le> 2 ^ k \<and> 2 ^ k dvd a \<and> a + 2 ^ k \<le> capacity ns \<and>
      (\<forall>b \<in> live ns. apart (a, k) b))"
    using val_iff_free_block [OF t, of 1]
    unfolding root_value [OF inv] free_block_def live_def capacity_def by simp
  also have "\<dots> \<longleftrightarrow> (\<exists>u < capacity ns. \<forall>b \<in> live ns. apart (u, 0) b)"
  proof
    assume "\<exists>a k. (1::int) \<le> 2 ^ k \<and> 2 ^ k dvd a \<and> a + 2 ^ k \<le> capacity ns \<and>
      (\<forall>b \<in> live ns. apart (a, k) b)"
    then obtain a k where a: "a + 2 ^ k \<le> capacity ns" "\<forall>b \<in> live ns. apart (a, k) b" by blast
    have p: "(1::nat) \<le> 2 ^ k" by simp
    have "apart (a, 0) b" if "b \<in> live ns" for b
    proof -
      have "a + 2 ^ k \<le> fst b \<or> fst b + 2 ^ snd b \<le> a" using a(2) that by (simp add: apart_def)
      then have "a + 1 \<le> fst b \<or> fst b + 2 ^ snd b \<le> a" using p by linarith
      then show ?thesis by (simp add: apart_def)
    qed
    then have "\<forall>b \<in> live ns. apart (a, 0) b" ..
    moreover have "a < capacity ns" using a(1) p by linarith
    ultimately show "\<exists>u < capacity ns. \<forall>b \<in> live ns. apart (u, 0) b" by blast
  next
    assume "\<exists>u < capacity ns. \<forall>b \<in> live ns. apart (u, 0) b"
    then obtain u where "u < capacity ns" and u: "\<forall>b \<in> live ns. apart (u, 0) b" by blast
    then have "u + 2 ^ 0 \<le> capacity ns" by simp
    with u show "\<exists>a k. (1::int) \<le> 2 ^ k \<and> 2 ^ k dvd a \<and> a + 2 ^ k \<le> capacity ns \<and>
      (\<forall>b \<in> live ns. apart (a, k) b)"
      by (metis one_dvd one_le_power order_refl power_0)
  qed
  finally show ?thesis using assms rep_at_nodes [OF assms] unfolding room_def by blast
qed

lemma mail_ok_rep: "mail_ok e c q \<Longrightarrow> mail_rep e c q"
  unfolding mail_ok_def mail_rep_def by blast

lemma length_current:
  "bS + 3 * sS \<le> length c \<Longrightarrow> length (current bS sS c) = sS"
  using copy_end [of bS sS c 0] copy_end [of bS sS c 2]
  by (simp add: current_def copy_def length_slice)

lemma entry_live:
  "blocks_ok bS sS ns k0 ch \<Longrightarrow> valid_id i \<Longrightarrow> x \<in> set (ch i) \<Longrightarrow> (fst x, fst (snd x)) \<in> live ns"
  unfolding blocks_ok_def msg_blocks_def by blast

lemma base_live: "blocks_ok bS sS ns k0 ch \<Longrightarrow> (0, k0) \<in> live ns"
  unfolding blocks_ok_def by blast

lemma le_times_mono: "a + 2 ^ k \<le> (b::nat) \<Longrightarrow> (a + 1) * s \<le> b * s"
proof -
  assume "a + 2 ^ k \<le> b"
  moreover have "(1::nat) \<le> 2 ^ k" by simp
  ultimately show ?thesis by (intro mult_le_mono1) linarith
qed

text \<open>A message's block lies behind the state segments and inside the file.\<close>

lemma entry_bounds:
  assumes "rep_at e c bS aS ns heads k0 ch" and "valid_id i" and "x \<in> set (ch i)"
  shows "bS + 3 * seg_size bS aS \<le> fst x * bS" and "(fst x + 1) * bS \<le> length c"
    and "fst x < capacity ns"
proof -
  have r: "alloc_inv ns" "blocks_ok bS (seg_size bS aS) ns k0 ch" "capacity ns * bS \<le> length c"
    using assms(1) by (simp_all add: rep_at_def)
  note lv = entry_live [OF r(2) assms(2,3)]
  have b: "fst x + 2 ^ fst (snd x) \<le> capacity ns" using buddy.used_bounds [OF r(1) lv] by simp
  from le_times_mono [OF this, of bS] r(3) show "(fst x + 1) * bS \<le> length c" by linarith
  have "(0::nat) < 2 ^ fst (snd x)" by simp
  with b show "fst x < capacity ns" by linarith
  have "fst x \<noteq> 0" using r(2) assms(2,3) unfolding blocks_ok_def by (metis image_eqI)
  then have "(0, k0) \<noteq> (fst x, fst (snd x))" by auto
  from buddy.used_apart [OF r(1) base_live [OF r(2)] lv this] have "2 ^ k0 \<le> fst x"
    using \<open>fst x \<noteq> 0\<close> by (auto simp: apart_def)
  then have "2 ^ k0 * bS \<le> fst x * bS" by (rule mult_le_mono1)
  with r(2) show "bS + 3 * seg_size bS aS \<le> fst x * bS" unfolding blocks_ok_def by linarith
qed

lemma rep_at_frame:
  assumes "rep_at e c bS aS ns heads k0 ch" and "same_but lo hi c c'"
    and "bS \<le> lo" and "current bS (seg_size bS aS) c' = current bS (seg_size bS aS) c"
    and "\<And>i x. valid_id i \<Longrightarrow> x \<in> set (ch i) \<Longrightarrow> (fst x + 1) * bS \<le> lo \<or> hi \<le> fst x * bS"
  shows "rep_at e c' bS aS ns heads k0 ch"
proof -
  have "header_ok e c bS aS" using assms(1) by (simp add: rep_at_def)
  from header_frame [OF this assms(2,3)] have "header_ok e c' bS aS" .
  moreover have "chain_at e c' bS (heads i) (ch i)" if "valid_id i" for i
    using chain_frame [OF _ assms(2)] assms(1,5) that by (simp add: rep_at_def)
  moreover have "length c' = length c" using assms(2) by (simp add: same_but_def)
  ultimately show ?thesis using assms(1,4) by (simp add: rep_at_def)
qed

text \<open>Writing into a free block changes no list, whatever is written.\<close>

lemma rep_at_data:
  assumes "rep_at e c bS aS ns heads k0 ch" and "a + 2 ^ k \<le> capacity ns"
    and "\<forall>b \<in> live ns. apart (a, k) b" and "length bs \<le> bS"
  shows "rep_at e (overwrite (a * bS) bs c) bS aS ns heads k0 ch"
    and "settled bS (seg_size bS aS) (overwrite (a * bS) bs c) = settled bS (seg_size bS aS) c"
    and "current bS (seg_size bS aS) (overwrite (a * bS) bs c) = current bS (seg_size bS aS) c"
proof -
  have r: "alloc_inv ns" "blocks_ok bS (seg_size bS aS) ns k0 ch" "capacity ns * bS \<le> length c"
    "bS + 3 * seg_size bS aS \<le> 2 ^ k0 * bS"
    using assms(1) by (simp_all add: rep_at_def blocks_ok_def)
  have e: "a * bS + length bs \<le> (a + 1) * bS" using assms(4) by simp
  have len: "a * bS + length bs \<le> length c"
    using e le_times_mono [OF assms(2), of bS] r(3) by linarith
  note sb = same_but_overwrite [OF len]
  have "apart (a, k) (0, k0)" using assms(3) base_live [OF r(2)] by blast
  then have "2 ^ k0 \<le> a" by (simp add: apart_def)
  then have "2 ^ k0 * bS \<le> a * bS" by (rule mult_le_mono1)
  with r(4) have lo: "bS + 3 * seg_size bS aS \<le> a * bS" by linarith
  note cur = current_frame [OF sb lo]
  then show "settled bS (seg_size bS aS) (overwrite (a * bS) bs c) = settled bS (seg_size bS aS) c"
    and "current bS (seg_size bS aS) (overwrite (a * bS) bs c) = current bS (seg_size bS aS) c"
    by blast+
  show "rep_at e (overwrite (a * bS) bs c) bS aS ns heads k0 ch"
  proof (rule rep_at_frame [OF assms(1) sb _ cur(1)])
    show "bS \<le> a * bS" using lo by linarith
    fix i x
    assume ix: "valid_id i" "x \<in> set (ch i)"
    from assms(3) entry_live [OF r(2) ix] have "apart (a, k) (fst x, fst (snd x))" by blast
    then consider "a + 2 ^ k \<le> fst x" | "fst x + 2 ^ fst (snd x) \<le> a" by (auto simp: apart_def)
    then show "(fst x + 1) * bS \<le> a * bS \<or> a * bS + length bs \<le> fst x * bS"
      using le_times_mono [of a k "fst x" bS] le_times_mono [of "fst x" _ a bS] e by fastforce
  qed
qed

text \<open>
  Writing the state: a new state whose lists are already on disk replaces the old one, and a
  write that is cut short leaves the one or the other.
\<close>

definition installs :: "mail_env \<Rightarrow> string \<Rightarrow> nat \<Rightarrow> nat \<Rightarrow> string \<Rightarrow> nodes \<Rightarrow> (nat \<Rightarrow> nat) \<Rightarrow>
    nat \<Rightarrow> (nat \<Rightarrow> entry list) \<Rightarrow> bool" where
  "installs e c bS aS st ns heads k0 ch \<longleftrightarrow>
     length st = seg_size bS aS \<and> state_of st ns heads \<and> 4 * length ns = aS \<and> alloc_inv ns \<and>
     capacity ns * bS \<le> length c \<and> blocks_ok bS (seg_size bS aS) ns k0 ch \<and>
     (\<forall>i. valid_id i \<longrightarrow> chain_at e c bS (heads i) (ch i)) \<and>
     (\<forall>i x. valid_id i \<longrightarrow> x \<in> set (ch i) \<longrightarrow> bS + 3 * seg_size bS aS \<le> fst x * bS)"

lemma rep_at_installed:
  assumes "rep_at e c bS aS ns heads k0 ch" and "installs e c bS aS st ns' heads' k1 ch'"
    and "same_but bS (bS + 3 * seg_size bS aS) c d" and "current bS (seg_size bS aS) d = st"
  shows "rep_at e d bS aS ns' heads' k1 ch'"
proof -
  note st = assms(2) [unfolded installs_def]
  have "header_ok e c bS aS" "bS + 3 * seg_size bS aS \<le> length c"
    using assms(1) by (simp_all add: rep_at_def)
  moreover from header_frame [OF this(1) assms(3)] have "header_ok e d bS aS" by simp
  moreover have "length d = length c" using assms(3) by (simp add: same_but_def)
  moreover have "chain_at e d bS (heads' i) (ch' i)" if "valid_id i" for i
    by (rule chain_frame [OF _ assms(3)]) (use st that in blast)+
  ultimately show ?thesis using st assms(4) by (simp add: rep_at_def)
qed

lemma mail_installed:
  assumes "rep_at e c bS aS ns heads k0 ch" and "settled bS (seg_size bS aS) c"
    and "installs e c bS aS st ns' heads' k1 ch'" and "\<forall>i. valid_id i \<longrightarrow> q' i = list_of (ch' i)"
  shows "mail_ok e (cut bS (seg_size bS aS) 2 st st c) q'"
proof -
  have len: "bS + 3 * seg_size bS aS \<le> length c" "length st = seg_size bS aS"
    using assms(1,3) by (simp_all add: rep_at_def installs_def)
  note w = current_written [OF len]
  have "rep_at e (cut bS (seg_size bS aS) 2 st st c) bS aS ns' heads' k1 ch'"
    by (rule rep_at_installed [OF assms(1,3) same_but_cut [OF len len(2)] w(1)]) simp
  with w(2) assms(4) show ?thesis unfolding mail_ok_def by blast
qed

lemma mail_cut:
  assumes "rep_at e c bS aS ns heads k0 ch" and "settled bS (seg_size bS aS) c"
    and "installs e c bS aS st ns' heads' k1 ch'" and "\<forall>i. valid_id i \<longrightarrow> q' i = list_of (ch' i)"
    and "\<forall>i. valid_id i \<longrightarrow> q i = list_of (ch i)" and "length junk = seg_size bS aS" and "n < 3"
  shows "mail_rep e (cut bS (seg_size bS aS) n junk st c) q \<or>
         mail_rep e (cut bS (seg_size bS aS) n junk st c) q'"
proof -
  let ?d = "cut bS (seg_size bS aS) n junk st c"
  have len: "bS + 3 * seg_size bS aS \<le> length c" "length st = seg_size bS aS"
    using assms(1,3) by (simp_all add: rep_at_def installs_def)
  note sb = same_but_cut [OF len assms(6,7)]
  from current_cut [OF len assms(6,7,2)] consider
    "current bS (seg_size bS aS) ?d = current bS (seg_size bS aS) c" | "current bS (seg_size bS aS) ?d = st"
    by blast
  then show ?thesis
  proof cases
    case 1
    have "rep_at e ?d bS aS ns heads k0 ch"
      by (rule rep_at_frame [OF assms(1) sb _ 1]) (use entry_bounds(1) [OF assms(1)] in auto)
    with assms(5) show ?thesis unfolding mail_rep_def by blast
  next
    case 2
    from rep_at_installed [OF assms(1,3) sb 2] assms(4) show ?thesis unfolding mail_rep_def by blast
  qed
qed

section \<open>Send\<close>

lemma i32_1: "i32 1 = 1"
  by simp

lemma length_initialize: "length (initialize n ns pos fr) = length ns"
proof (induction n ns pos fr rule: initialize.induct)
  case (1 n ns pos fr)
  then show ?case by (cases "n \<le> pos") (simp_all add: initialize.simps [of n ns pos fr])
qed

lemma by_node_cnt:
  assumes "alloc_inv ns"
  obtains al where "NewAllocatorByNodeCnt (int (length ns)) = Inr al" and "length al = length ns"
proof -
  let ?h = "height ns"
  have len: "length ns = 2 ^ Suc ?h - 1" "?h \<le> 29" using assms by (auto simp: alloc_inv_def)
  have p: "(2::nat) ^ Suc ?h \<le> 2 ^ 30" using len(2) by (intro power_increasing) auto
  have "int (length ns) + 1 = int (2 ^ Suc ?h)" using len(1) by (simp add: of_nat_diff)
  moreover have "int (2 ^ Suc ?h) \<le> 2 ^ 30" using p by (metis of_nat_le_iff of_nat_numeral of_nat_power)
  ultimately have m: "(int (length ns) + 1) mod 2 ^ 32 = int (2 ^ Suc ?h)"
    and ne: "int (length ns) \<noteq> 2 ^ 31 - 2" by simp_all
  have "nat ((int (length ns) + 1) mod 2 ^ 32) = 2 ^ Suc ?h" by (simp only: m nat_int)
  then have "ones_count (nat ((int (length ns) + 1) mod 2 ^ 32)) = 1"
    by (simp only: ones_count_power)
  with ne have "NewAllocatorByNodeCnt (int (length ns)) =
      Inr (initialize (length ns) (replicate (length ns) 0) 0 (i32 (2 ^ ((length ns + 1) div 2))))"
    unfolding NewAllocatorByNodeCnt_def by (simp add: Let_def)
  then show thesis by (rule that) (simp add: length_initialize)
qed

definition torn_ok :: "file_handle \<Rightarrow> bool" where
  "torn_ok f \<longleftrightarrow> (\<forall>old new. length (torn f old new) = length new)"

text \<open>A message whose encoding, with its length, fits one platform block.\<close>

definition small :: "mail_env \<Rightarrow> string \<Rightarrow> bool" where
  "small e payload \<longleftrightarrow>
     (\<forall>m buf. mm_Payload m = payload \<longrightarrow> marshal e m = Inr buf \<longrightarrow> 4 + length buf \<le> BlockSize e)"

lemma length_chunk: "4 + length buf \<le> n \<Longrightarrow> length (chunk n buf) = n"
  by (simp add: chunk_def length_overwrite)

lemma slice_chunk:
  assumes "4 + length buf \<le> n"
  shows "slice 0 (4 + length buf) (chunk n buf) = le32 (length buf) @ buf"
  unfolding chunk_def using assms by (intro slice_overwrite_same) simp_all

lemma capacity_small: "alloc_inv ns \<Longrightarrow> capacity ns \<le> 2 ^ 29"
  unfolding capacity_def alloc_inv_def by (intro power_increasing) simp_all

lemma toBlocks_one: "0 < n \<Longrightarrow> n \<le> bS \<Longrightarrow> toBlocks bS n = 1"
  by (simp add: toBlocks_def)

lemma msg_blocks_push:
  assumes "valid_id r"
  shows "msg_blocks (ch(r := (a, k, m) # ch r)) = insert (a, k) (msg_blocks ch)"
proof (intro equalityI subsetI)
  let ?g = "\<lambda>x :: entry. (fst x, fst (snd x))" and ?ch = "ch(r := (a, k, m) # ch r)"
  fix x
  assume "x \<in> insert (a, k) (msg_blocks ch)"
  then consider "x = (a, k)" | i where "valid_id i" "x \<in> ?g ` set (ch i)"
    by (auto simp: msg_blocks_def)
  then show "x \<in> msg_blocks ?ch"
  proof cases
    case 1
    then have "x \<in> ?g ` set (?ch r)" by simp
    with assms show ?thesis unfolding msg_blocks_def by blast
  next
    case 2
    then have "x \<in> ?g ` set (?ch i)" by auto
    with 2(1) show ?thesis unfolding msg_blocks_def by blast
  qed
qed (auto simp: msg_blocks_def split: if_splits)

text \<open>Pushing one message: its block is new, so the other lists and blocks are as they were.\<close>

lemma blocks_ok_push:
  assumes "blocks_ok bS sS ns k0 ch" and "alloc_inv ns" and "valid_id r"
    and "live ns' = insert (a, k) (live ns)" and "\<forall>b \<in> live ns. apart (a, k) b"
  shows "blocks_ok bS sS ns' k0 (ch(r := (a, k, m) # ch r))"
proof -
  have fresh: "a \<noteq> b" if "(b, j) \<in> live ns" for b j
    using assms(5) that by (fastforce simp: apart_def)
  have a0: "a \<noteq> 0" using fresh base_live [OF assms(1)] by blast
  have new: "a \<notin> fst ` set (ch i)" if "valid_id i" for i
    using fresh entry_live [OF assms(1) that] by fastforce
  let ?ch = "ch(r := (a, k, m) # ch r)"
  have "live ns' = insert (0, k0) (msg_blocks ?ch)"
    unfolding msg_blocks_push [OF assms(3)]
    using assms(1,4) unfolding blocks_ok_def by (simp add: insert_commute)
  moreover have "distinct (map fst (?ch i)) \<and> 0 \<notin> fst ` set (?ch i)" if "valid_id i" for i
    using assms(1) that new [OF that] a0 by (auto simp: blocks_ok_def)
  moreover have "fst ` set (?ch i) \<inter> fst ` set (?ch j) = {}"
    if "valid_id i" "valid_id j" "i \<noteq> j" for i j
  proof -
    have "fst ` set (ch i) \<inter> fst ` set (ch j) = {}"
      using assms(1) that by (simp add: blocks_ok_def)
    then show ?thesis using that new by (cases "i = r"; cases "j = r"; simp)
  qed
  ultimately show ?thesis using assms(1) unfolding blocks_ok_def by blast
qed


text \<open>
  \<open>Send\<close> refines pushing a message. Without faults it pushes the message or leaves the file
  untouched; with a fault anywhere the file represents the old lists or the new ones.
\<close>

lemma runs_Send:
  assumes "env_ok e" and "mail_ok e (content f) q" and "torn_ok f" and "valid_id localID"
    and "Recipient msg = localMailBoxID \<or> valid_id (Recipient msg)" and "small e (Payload msg)"
    and "r = (if Recipient msg = localMailBoxID then localID else Recipient msg)"
    and "q' = q(r := (localID, Payload msg) # q r)"
  shows "runs (Send e localID msg) f (\<lambda>_ f'. mail_ok e (content f') q')
           (\<lambda>f'. (content f' = content f \<and> \<not> room e (content f) \<or> faulty f) \<and>
                 (mail_rep e (content f') q \<or> mail_rep e (content f') q'))"
    (is "runs _ _ ?P ?E")
proof -
  let ?c = "content f"
  from assms(2) obtain bS aS ns heads k0 ch where rep: "rep_at e ?c bS aS ns heads k0 ch"
    and sett: "settled bS (seg_size bS aS) ?c" and q: "\<forall>i. valid_id i \<longrightarrow> q i = list_of (ch i)"
    unfolding mail_ok_def by blast
  define sS where "sS = seg_size bS aS"
  let ?st = "current bS sS ?c"
  have R: "header_ok e ?c bS aS" "bS + 3 * sS \<le> length ?c" "state_of ?st ns heads"
    "4 * length ns = aS" "alloc_inv ns" "capacity ns * bS \<le> length ?c" "blocks_ok bS sS ns k0 ch"
    "\<And>i. valid_id i \<Longrightarrow> chain_at e ?c bS (heads i) (ch i)"
    using rep by (simp_all add: rep_at_def sS_def)
  have vr: "valid_id r" using assms(4,5,7) by auto
  have lid: "localID < 65536" using assms(4) by (simp add: valid_id_def)
  have stlen: "length ?st = sS" "8192 \<le> length ?st"
    using length_current [OF R(2)] R(3) by (simp_all add: state_of_def)
  obtain al where al: "NewAllocatorByNodeCnt (int (aS div 4)) = Inr al" "length al = length ns"
    using by_node_cnt [OF R(5)] R(4) by (metis nonzero_mult_div_cancel_left zero_neq_numeral)
  have from_st: "allocatorFromState al ?st = Some ns" using R(3) al(2) by (simp add: state_of_def)
  note hs = head_slice_valid [OF vr stlen(2)]
  have gh: "get_head ?st (head_offset r) = heads r" using R(3) vr by (simp add: state_of_def)
  have hlt: "heads r < 2 ^ 32" using get32_less gh by (metis get_head_def)
  define m where "m = \<lparr>mm_Next = heads r, mm_Sender = localID,
    mm_Length = length (Payload msg) mod 2 ^ 32, mm_Payload = Payload msg\<rparr>"
  obtain buf where buf: "marshal e m = Inr buf" "unmarshal e buf = Inr m"
    using assms(1) hlt lid unfolding env_ok_def m_def by force
  have "mm_Payload m = Payload msg" by (simp add: m_def)
  then have bl: "4 + length buf \<le> BlockSize e"
    using assms(6) buf(1) unfolding small_def by blast
  then have blS: "4 + length buf \<le> bS" using R(1) by (simp add: header_ok_def)
  have bS32: "bS < 2 ^ 32" using R(1) get32_less by (auto simp: header_ok_def)
  have one: "toBlocks bS (4 + length buf) = 1" using blS by (simp add: toBlocks_one)
  have E_same: "?E f'" if "content f' = ?c" "faulty f \<or> \<not> room e ?c" for f'
    using that mail_ok_rep [OF assms(2)] by auto
  have E_after: "?E f'" if "after f ?c f'" "faulty f" for f' using E_same afterD [OF that(1)] that(2) by blast
  obtain ns' res where alloc: "Alloc ns 1 = Some (ns', res)"
    using buddy.acq_total [OF R(5)] by blast
  have tail: "runs (check_pure res ''failed to allocate %d bytes: %v'' (\<lambda>addr.
      check (seek (addr * int bS)) ''failed to seek file: %v'' (\<lambda>_.
      check (write_file (chunk (1 * bS) buf)) ''failed to write data: %v'' (\<lambda>_.
      guard_panic (allocatorToState ns' ?st) (\<lambda>state'.
      check (writeState bS sS (put_head (head_offset r) (u32 addr) state'))
        ''failed to write state: %v'' (\<lambda>_. return_ok ())))))) f3 ?P ?E"
    if f3: "after f ?c f3" for f3
  proof (cases res)
    case (Inl err)
    have "\<not> 1 \<le> ns ! 0" using Alloc_served [OF R(5), of 1] alloc Inl by auto
    then have "\<not> room e ?c" using room_root [OF rep] by simp
    then show ?thesis
      unfolding Inl using afterD [OF f3] by (intro runs_check_pure_err E_same) auto
  next
    case (Inr v)
    from buddy.acq_disjoint [OF R(5) alloc [unfolded Inr]] obtain a k where a: "v = int a"
      "a + 2 ^ k \<le> capacity ns" "\<forall>b \<in> live ns. apart (a, k) b"
      "live ns' = insert (a, k) (live ns)" "alloc_inv ns'" "capacity ns' = capacity ns" by metis
    have aS: "a < 2 ^ 29"
    proof -
      have "(0::nat) < 2 ^ k" by simp
      then show ?thesis using a(2) capacity_small [OF R(5)] by linarith
    qed
    have len': "length ns' = length ns"
      using a(5,6) R(5) by (simp add: capacity_def alloc_inv_def)
    let ?d = "overwrite (a * bS) (chunk bS buf) ?c"
    note lc = length_chunk [OF blS]
    have data: "rep_at e (overwrite (a * bS) bs ?c) bS aS ns heads k0 ch"
      "settled bS sS (overwrite (a * bS) bs ?c)" "current bS sS (overwrite (a * bS) bs ?c) = ?st"
      if "length bs = bS" for bs
      using rep_at_data [OF rep a(2,3), of bs] that sett by (simp_all add: sS_def)
    let ?ch = "ch(r := (a, k, localID, Payload msg) # ch r)"
    let ?heads = "heads(r := u32 v)"
    obtain st1 where st1: "allocatorToState ns' ?st = Some st1"
      "state_of (put_head (head_offset r) (u32 v) st1) ns' ?heads"
      "length (put_head (head_offset r) (u32 v) st1) = length ?st"
      using state_of_update [OF R(3) len' _ vr u32_less] alloc_inv_i32 [OF a(5)] by metis
    define st2 where "st2 = put_head (head_offset r) (u32 v) st1"
    have inside: "(a + 1) * bS \<le> length ?c"
      using le_times_mono [OF a(2), of bS] R(6) by linarith
    have sto: "stored e ?d bS a m"
    proof -
      have "slice (a * bS) (4 + length buf) ?d = slice 0 (4 + length buf) (chunk bS buf)"
        using slice_overwrite_inside [of "a * bS" "chunk bS buf" ?c "a * bS" "4 + length buf"]
          inside lc blS by simp
      then show ?thesis
        unfolding stored_def using buf(2) blS bS32 slice_chunk [OF blS] by (intro exI [of _ buf]) simp
    qed
    have q': "\<forall>i. valid_id i \<longrightarrow> q' i = list_of (?ch i)" using q by (simp add: assms(8) list_of_def)
    have len_d: "length ?d = length ?c" using inside lc by (intro length_overwrite) simp
    have bk: "blocks_ok bS sS ns' k0 ?ch" by (rule blocks_ok_push [OF R(7,5) vr a(4,3)])
    have chains: "chain_at e ?d bS (?heads i) (?ch i)" if "valid_id i" for i
    proof -
      have old: "chain_at e ?d bS (heads i) (ch i)"
        using data(1) [OF lc] that by (simp add: rep_at_def)
      show ?thesis
      proof (cases "i = r")
        case True
        have "i32 (int (u32 v)) = int a" using aS by (simp add: a(1) i32_u32)
        then show ?thesis using True old sto lid hlt by (auto simp: m_def)
      qed (use old in simp)
    qed
    have above: "bS + 3 * sS \<le> fst x * bS" if "valid_id i" "x \<in> set (?ch i)" for i x
    proof (cases "x \<in> set (ch i)")
      case True
      then show ?thesis using entry_bounds(1) [OF rep that(1)] by (simp add: sS_def)
    next
      case False
      then have "fst x = a" using that(2) by (auto split: if_splits)
      moreover have "2 ^ k0 \<le> a"
        using a(3) base_live [OF R(7)] by (fastforce simp: apart_def)
      ultimately have "2 ^ k0 * bS \<le> fst x * bS" by (intro mult_le_mono1) simp
      moreover have "bS + 3 * sS \<le> 2 ^ k0 * bS" using R(7) by (simp add: blocks_ok_def)
      ultimately show ?thesis by (rule order_trans [rotated])
    qed
    have st2: "length st2 = sS" "state_of st2 ns' ?heads"
      using st1 stlen(1) by (simp_all add: st2_def)
    have cap: "capacity ns' * bS \<le> length ?d" "4 * length ns' = aS"
      using R(4,6) a(6) len' len_d by simp_all
    have ins: "installs e ?d bS aS st2 ns' ?heads k0 ?ch"
      unfolding installs_def using st2 cap a(5) bk chains above unfolding sS_def by blast
    note base = data(1) [OF lc] data(2) [OF lc, unfolded sS_def]
    note done_P = mail_installed [OF base ins q', folded sS_def]
    note done_E = mail_cut [OF base ins q' q, folded sS_def]
    have mid_E: "mail_rep e (overwrite (a * bS) bs ?c) q" if "length bs = bS" for bs
      unfolding mail_rep_def using data(1) [OF that] q by blast
    have torn_len: "length (torn f old bs) = length bs" for old bs
      using assms(3) by (simp add: torn_ok_def)
    show ?thesis
      unfolding Inr st1(1) a(1) [symmetric]
    proof (intro runs_check_pure runs_check runs_seek runs_write runs_guard runs_writeState runs_return,
        goal_cases)
      case 1
      then show ?case by (simp add: a(1))
    next
      case (2 f4 f5)
      then show ?case using st2(1) by (simp add: st2_def)
    next
      case (3 f4 f5 f6)
      then have "content f6 = cut bS sS 2 st2 st2 ?d"
        using afterD [OF f3] by (auto simp: st2_def a(1) nat_mult_distrib dest!: afterD)
      then show ?case using done_P by simp
    next
      case (4 f4 f5 n old f6)
      then have "content f6 = cut bS sS n (torn f old st2) st2 ?d" "faulty f"
        using afterD [OF f3] by (auto simp: st2_def a(1) nat_mult_distrib dest!: afterD)
      then show ?case using done_E [of "torn f old st2" n] 4(6) torn_len st2(1) by simp
    next
      case (5 f4 f5 old)
      then have "content f5 = overwrite (a * bS) (torn f old (chunk bS buf)) ?c" "faulty f"
        using afterD [OF f3] by (auto simp: a(1) nat_mult_distrib dest!: afterD)
      then show ?case using mid_E torn_len lc by simp
    qed
  qed
  have step: "runs (check (readState bS sS) ''failed to read state: %v'' (\<lambda>state.
      check_pure (NewAllocatorByNodeCnt (int (aS div 4))) ''failed to instance allocator: %v'' (\<lambda>al0.
      guard_panic (allocatorFromState al0 state) (\<lambda>al.
      guard_panic (head_slice state r) (\<lambda>hd_off.
      check_pure (marshal e \<lparr>mm_Next = get_head state hd_off, mm_Sender = localID,
          mm_Length = length (Payload msg) mod 2 ^ 32, mm_Payload = Payload msg\<rparr>)
        ''failed to encode message: %v'' (\<lambda>buf.
      guard_panic (Alloc al (i32 (int (toBlocks bS (4 + length buf))))) (\<lambda>(al', r).
      check_pure r ''failed to allocate %d bytes: %v'' (\<lambda>addr.
      check (seek (addr * int bS)) ''failed to seek file: %v'' (\<lambda>_.
      check (write_file (chunk (toBlocks bS (4 + length buf) * bS) buf)) ''failed to write data: %v'' (\<lambda>_.
      guard_panic (allocatorToState al' state) (\<lambda>state'.
      check (writeState bS sS (put_head hd_off (u32 addr) state'))
        ''failed to write state: %v'' (\<lambda>_. return_ok ())))))))))))) f2 ?P ?E"
    if f2: "after f ?c f2" for f2
  proof (intro runs_check runs_readState, goal_cases)
    case 1
    then show ?case using R(2) afterD [OF f2] by simp
  next
    case (2 f3)
    then have "after f ?c f3" and c: "content f2 = ?c" using after_trans [OF f2] afterD [OF f2] by auto
    note t = tail [OF this(1)]
    show ?case
      unfolding c al(1)
      apply (rule runs_check_pure)
      unfolding from_st apply (rule runs_guard)
      unfolding hs apply (rule runs_guard)
      unfolding gh m_def [symmetric] buf(1) apply (rule runs_check_pure)
      unfolding one of_nat_1 i32_1 alloc apply (rule runs_guard)
      unfolding prod.case by (rule t)
  next
    case (3 f3)
    then show ?case using E_after after_trans [OF f2] afterD [OF f2] by metis
  qed
  show ?thesis
    unfolding Send_def Let_def assms(7) [symmetric]
  proof (intro runs_check runs_open_data, goal_cases)
    case (1 f1 n)
    then have c1: "content f1 = ?c" using afterD by blast
    show ?case
    proof (intro runs_readHeader [of e f1 bS aS], goal_cases)
      case 1
      then show ?case using R(1) c1 by simp
    next
      case (2 f2)
      then have "after f ?c f2" using after_trans [OF 1] c1 by simp
      then show ?case unfolding prod.case sS_def [symmetric] by (rule step)
    next
      case (3 f2)
      then show ?case using E_after [of f2] after_trans [OF 1] c1 afterD [OF 1] by simp
    qed
  next
    case (2 f1)
    then show ?case using E_after by blast
  qed
qed

section \<open>Recv\<close>

definition messages :: "nat \<Rightarrow> (nat \<times> string) list \<Rightarrow> Message list" where
  "messages localID xs = map (\<lambda>(sender, payload). \<lparr>Sender = sender, Recipient = localID, Payload = payload\<rparr>) xs"

lemma runs_readChunk:
  assumes "off + n \<le> length (content f)"
    and "\<And>f'. after f (content f) f' \<Longrightarrow> P (slice off n (content f)) f'"
    and "\<And>f'. faulty f \<Longrightarrow> after f (content f) f' \<Longrightarrow> E f'"
  shows "runs (readChunk (int off) n) f P E"
  unfolding readChunk_def
proof (intro runs_check runs_seek runs_read runs_return, goal_cases)
  case (3 f1 f2)
  then show ?case using assms(2) after_trans [OF 3(1)] afterD [OF 3(1)] by simp
next
  case (4 f1)
  then show ?case using assms(3) afterD by blast
qed (use assms(1) in \<open>auto dest!: afterD\<close>)

text \<open>The loop reads the whole list, releases its blocks and writes nothing.\<close>

lemma runs_recv_loop:
  assumes "chain_at e c bS h xs" and "alloc_inv al" and "capacity al * bS \<le> length c" and "4 \<le> bS"
    and "distinct (map fst xs)" and "\<forall>x \<in> set xs. (fst x, fst (snd x)) \<in> live al"
    and "length xs \<le> fuel" and "after f0 c f"
    and "\<And>f' al'. after f0 c f' \<Longrightarrow> alloc_inv al' \<Longrightarrow> capacity al' = capacity al \<Longrightarrow>
      live al' = live al - (\<lambda>x. (fst x, fst (snd x))) ` set xs \<Longrightarrow>
      P (msgs @ messages localID (list_of xs), al') f'"
    and "\<And>f'. faulty f0 \<Longrightarrow> after f0 c f' \<Longrightarrow> E f'"
  shows "runs (recv_loop e bS localID fuel msgs al (i32 (int h))) f P E"
  using assms(1-3,5-9)
proof (induction xs arbitrary: h al fuel f msgs)
  case Nil
  then have "P (msgs, al) f" by (simp add: messages_def list_of_def)
  moreover have "i32 (int h) < 0" using Nil.prems(1) by simp
  ultimately show ?case by (cases fuel) (simp_all add: runs_return)
next
  case (Cons x xs)
  obtain a k s p where x: "x = (a, k, s, p)" by (cases x)
  from Cons.prems(6) obtain n where n: "fuel = Suc n" "length xs \<le> n" by (cases fuel) auto
  let ?m = "\<lambda>nxt. \<lparr>mm_Next = nxt, mm_Sender = s, mm_Length = length p mod 2 ^ 32, mm_Payload = p\<rparr>"
  from Cons.prems(1) x obtain nxt where nxt: "i32 (int h) = int a" "s < 65536" "nxt < 2 ^ 32"
    "stored e c bS a (?m nxt)" "chain_at e c bS nxt xs" by auto
  from nxt(4) obtain buf where buf: "unmarshal e buf = Inr (?m nxt)" "length buf < 2 ^ 32"
    "4 + length buf \<le> bS" "slice (a * bS) (4 + length buf) c = le32 (length buf) @ buf"
    unfolding stored_def by blast
  have c: "content f = c" using Cons.prems(7) afterD by blast
  have lv: "(a, k) \<in> live al" using Cons.prems(5) x by simp
  then have "a + 2 ^ k \<le> capacity al" using buddy.used_bounds [OF Cons.prems(2)] by blast
  from le_times_mono [OF this, of bS] have ac: "a * bS + bS \<le> length c"
    using Cons.prems(3) by simp
  let ?b = "slice (a * bS) bS c"
  have pre: "slice 0 (4 + length buf) ?b = le32 (length buf) @ buf"
    using slice_slice [of 0 "4 + length buf" bS "a * bS" c] buf(3,4) by simp
  have "take 4 ?b = take 4 (le32 (length buf) @ buf)"
    using arg_cong [OF pre, of "take 4"] buf(3) by (simp add: slice_def min_def)
  from get32_cong [OF this] have len: "get32 ?b = length buf"
    using get32_le32_append buf(2) by simp
  have body: "slice 4 (length buf) ?b = buf"
  proof -
    have "length buf \<le> bS - 4" using buf(3) by linarith
    then show ?thesis
      using arg_cong [OF pre, of "drop 4"] buf(3) by (simp add: slice_def drop_take min_def)
  qed
  have lb: "length ?b = bS" using ac by (simp add: length_slice)
  from buddy.give_ok [OF Cons.prems(2) lv] obtain al1 where al1: "Free al (int a) = Some (al1, None)"
    "alloc_inv al1" "capacity al1 = capacity al" "live al1 = live al - {(a, k)}" by blast
  have rest: "runs (recv_loop e bS localID n
      (msgs @ [\<lparr>Sender = s mod 65536, Recipient = localID, Payload = p\<rparr>]) al1 (i32 (int nxt))) f2 P E"
    if "after f0 c f2" for f2
  proof (rule Cons.IH [OF nxt(5) al1(2) _ _ _ n(2) that])
    show "capacity al1 * bS \<le> length c" using Cons.prems(3) al1(3) by simp
    show "distinct (map fst xs)" using Cons.prems(4) by simp
    have "a \<notin> fst ` set xs" using Cons.prems(4) x by simp
    then have "(fst y, fst (snd y)) \<noteq> (a, k)" if "y \<in> set xs" for y using that by auto
    then show "\<forall>y \<in> set xs. (fst y, fst (snd y)) \<in> live al1"
      using Cons.prems(5) unfolding al1(4) by simp
    fix f' al'
    assume fin: "after f0 c f'" "alloc_inv al'" "capacity al' = capacity al1"
      "live al' = live al1 - (\<lambda>y. (fst y, fst (snd y))) ` set xs"
    have "live al' = live al - (\<lambda>y. (fst y, fst (snd y))) ` set (x # xs)"
      unfolding fin(4) al1(4) x by auto
    from Cons.prems(8) [OF fin(1,2) _ this] fin(3) al1(3)
    have "P (msgs @ messages localID (list_of (x # xs)), al') f'" by simp
    moreover have "s mod 65536 = s" using nxt(2) by simp
    ultimately show "P ((msgs @ [\<lparr>Sender = s mod 65536, Recipient = localID, Payload = p\<rparr>]) @
        messages localID (list_of xs), al') f'"
      by (simp only: x messages_def list_of_def list.map snd_conv prod.case append_Cons append_Nil
          append_assoc)
  qed
  show ?case
    unfolding n(1) nxt(1) recv_loop.simps(2) Let_def if_not_P [OF not_less [THEN iffD2, OF of_nat_0_le_iff]]
      of_nat_mult [symmetric]
  proof (intro runs_check runs_readChunk, goal_cases)
    case 1
    then show ?case using ac c by simp
  next
    case (2 f1)
    then have f1: "after f0 c f1" using after_trans [OF Cons.prems(7)] c by simp
    have "length buf \<le> length ?b - 4" using buf(3) lb by simp
    then show ?case
      unfolding c len if_P [OF \<open>length buf \<le> length ?b - 4\<close>]
      by (intro runs_return) (simp add: body buf(1) al1(1) rest [OF f1] runs_check_pure runs_guard)
  next
    case (3 f1)
    then show ?case using assms(10) after_trans [OF Cons.prems(7)] afterD [OF Cons.prems(7)] c by simp
  qed
qed


text \<open>Emptying one list gives its blocks back.\<close>

lemma msg_blocks_empty:
  assumes "blocks_ok bS sS ns k0 ch" and "valid_id r"
  shows "msg_blocks (ch(r := [])) = msg_blocks ch - (\<lambda>x. (fst x, fst (snd x))) ` set (ch r)"
proof (intro equalityI subsetI)
  let ?g = "\<lambda>x :: entry. (fst x, fst (snd x))"
  fix y
  assume "y \<in> msg_blocks (ch(r := []))"
  then obtain i x where i: "valid_id i" "i \<noteq> r" "x \<in> set (ch i)" "y = ?g x"
    by (auto simp: msg_blocks_def split: if_splits)
  have "fst ` set (ch i) \<inter> fst ` set (ch r) = {}" using assms i by (simp add: blocks_ok_def)
  moreover have "fst y \<in> fst ` set (ch i)" using i(3,4) by simp
  moreover have "fst y \<in> fst ` set (ch r)" if "y \<in> ?g ` set (ch r)" using that by force
  ultimately have "y \<notin> ?g ` set (ch r)" by blast
  with i show "y \<in> msg_blocks ch - ?g ` set (ch r)" by (auto simp: msg_blocks_def)
next
  let ?g = "\<lambda>x :: entry. (fst x, fst (snd x))"
  fix y
  assume y: "y \<in> msg_blocks ch - ?g ` set (ch r)"
  then obtain i where i: "valid_id i" "y \<in> ?g ` set (ch i)" unfolding msg_blocks_def by blast
  with y have "i \<noteq> r" by blast
  with i have "y \<in> ?g ` set ((ch(r := [])) i)" by simp
  with i(1) show "y \<in> msg_blocks (ch(r := []))" unfolding msg_blocks_def by blast
qed

lemma blocks_ok_empty:
  assumes "blocks_ok bS sS ns k0 ch" and "valid_id r"
    and "live ns' = live ns - (\<lambda>x. (fst x, fst (snd x))) ` set (ch r)"
  shows "blocks_ok bS sS ns' k0 (ch(r := []))"
proof -
  have "(0, k0) \<notin> (\<lambda>x. (fst x, fst (snd x))) ` set (ch r)"
    using assms(1,2) by (force simp: blocks_ok_def)
  moreover have "live ns = insert (0, k0) (msg_blocks ch)" using assms(1) by (simp add: blocks_ok_def)
  ultimately have "live ns' = insert (0, k0) (msg_blocks (ch(r := [])))"
    unfolding msg_blocks_empty [OF assms(1,2)] assms(3) by auto
  then show ?thesis using assms(1) by (simp add: blocks_ok_def)
qed

lemma entries_few:
  assumes "rep_at e c bS aS ns heads k0 ch" and "valid_id i"
  shows "length (ch i) \<le> length ns"
proof -
  have bk: "blocks_ok bS (seg_size bS aS) ns k0 ch" "alloc_inv ns"
    using assms(1) by (simp_all add: rep_at_def)
  have "fst ` set (ch i) \<subseteq> {..<capacity ns}" using entry_bounds(3) [OF assms] by auto
  then have "card (fst ` set (ch i)) \<le> capacity ns" by (metis card_lessThan card_mono finite_lessThan)
  moreover have "card (fst ` set (ch i)) = length (ch i)"
    using bk(1) assms(2) distinct_card [of "map fst (ch i)"] by (simp add: blocks_ok_def)
  moreover have "capacity ns \<le> length ns"
    using bk(2) one_le_power [of "2::nat" "height ns"] by (simp add: alloc_inv_def capacity_def)
  ultimately show ?thesis by linarith
qed

text \<open>The part of \<open>Recv\<close> that runs under the lock.\<close>

definition recv_locked :: "mail_env \<Rightarrow> nat \<Rightarrow> nat \<Rightarrow> nat \<Rightarrow> nat \<Rightarrow> Message list io" where
  "recv_locked e localID bSize sSize aSize =
       check (readState bSize sSize) ''failed to read state: %v'' (\<lambda>state.
       check_pure (NewAllocatorByNodeCnt (int (aSize div 4))) ''failed to instance allocator: %v'' (\<lambda>al0.
       guard_panic (allocatorFromState al0 state) (\<lambda>al.
       guard_panic (head_slice state localID) (\<lambda>hd_off.
       attempt (recv_loop e bSize localID (length al) [] al (i32 (int (get_head state hd_off))))
         (\<lambda>(msgs, al').
       guard_panic (allocatorToState al' state) (\<lambda>state'.
       check (writeState bSize sSize (put_head hd_off (u32 (-1)) state'))
         ''failed to write state: %v'' (\<lambda>_. return_ok msgs)))))))"

lemma runs_recv_locked:
  assumes "rep_at e c bS aS ns heads k0 ch" and "settled bS (seg_size bS aS) c"
    and "\<forall>i. valid_id i \<longrightarrow> q i = list_of (ch i)" and "torn_ok f0" and "valid_id localID"
    and "after f0 c f" and "q' = q(localID := [])"
  shows "runs (recv_locked e localID bS (seg_size bS aS) aS) f
           (\<lambda>msgs f'. msgs = messages localID (q localID) \<and> mail_ok e (content f') q')
           (\<lambda>f'. faulty f0 \<and> (mail_rep e (content f') q \<or> mail_rep e (content f') q'))"
    (is "runs _ _ ?P ?E")
proof -
  define sS where "sS = seg_size bS aS"
  let ?st = "current bS sS c"
  have R: "header_ok e c bS aS" "bS + 3 * sS \<le> length c" "state_of ?st ns heads"
    "4 * length ns = aS" "alloc_inv ns" "capacity ns * bS \<le> length c" "blocks_ok bS sS ns k0 ch"
    "\<And>i. valid_id i \<Longrightarrow> chain_at e c bS (heads i) (ch i)"
    using assms(1) by (simp_all add: rep_at_def sS_def)
  have cf: "content f = c" "faulty f \<Longrightarrow> faulty f0" using assms(6) afterD by blast+
  have stlen: "length ?st = sS" "8192 \<le> length ?st"
    using length_current [OF R(2)] R(3) by (simp_all add: state_of_def)
  obtain al where al: "NewAllocatorByNodeCnt (int (aS div 4)) = Inr al" "length al = length ns"
    using by_node_cnt [OF R(5)] R(4) by (metis nonzero_mult_div_cancel_left zero_neq_numeral)
  have from_st: "allocatorFromState al ?st = Some ns" using R(3) al(2) by (simp add: state_of_def)
  note hs = head_slice_valid [OF assms(5) stlen(2)]
  have gh: "get_head ?st (head_offset localID) = heads localID"
    using R(3) assms(5) by (simp add: state_of_def)
  have E_same: "?E f'" if "faulty f0" "after f0 c f'" for f'
    using that afterD assms(1,3) unfolding mail_rep_def by blast
  have store: "runs (guard_panic (allocatorToState ns' ?st) (\<lambda>state'.
       check (writeState bS sS (put_head (head_offset localID) (u32 (-1)) state'))
         ''failed to write state: %v'' (\<lambda>_. return_ok (messages localID (q localID))))) f2 ?P ?E"
    if f2: "after f0 c f2" and ns': "alloc_inv ns'" "capacity ns' = capacity ns"
      "live ns' = live ns - (\<lambda>x. (fst x, fst (snd x))) ` set (ch localID)" for f2 ns'
  proof -
    let ?ch = "ch(localID := [])" and ?heads = "heads(localID := u32 (-1))"
    have len': "length ns' = length ns"
      using ns'(1,2) R(5) by (simp add: capacity_def alloc_inv_def)
    obtain st1 where st1: "allocatorToState ns' ?st = Some st1"
      "state_of (put_head (head_offset localID) (u32 (-1)) st1) ns' ?heads"
      "length (put_head (head_offset localID) (u32 (-1)) st1) = length ?st"
      using state_of_update [OF R(3) len' _ assms(5) u32_less] alloc_inv_i32 [OF ns'(1)] by metis
    define st2 where "st2 = put_head (head_offset localID) (u32 (-1)) st1"
    have lst2: "length st2 = sS" using st1(3) stlen(1) by (simp add: st2_def)
    have bk: "blocks_ok bS sS ns' k0 ?ch" by (rule blocks_ok_empty [OF R(7) assms(5) ns'(3)])
    have "i32 (int (u32 (-1))) < 0" by (simp add: i32_u32)
    then have chains: "\<forall>i. valid_id i \<longrightarrow> chain_at e c bS (?heads i) (?ch i)" using R(8) by simp
    have sub: "x \<in> set (ch i)" if "x \<in> set (?ch i)" for i x using that by (simp split: if_splits)
    have above: "\<forall>i x. valid_id i \<longrightarrow> x \<in> set (?ch i) \<longrightarrow> bS + 3 * sS \<le> fst x * bS"
      unfolding sS_def using entry_bounds(1) [OF assms(1) _ sub] by blast
    have ins: "installs e c bS aS st2 ns' ?heads k0 ?ch"
      unfolding installs_def using st1(2) lst2 len' R(4,6) ns'(1,2) bk chains above
      unfolding sS_def st2_def by simp
    have q': "\<forall>i. valid_id i \<longrightarrow> q' i = list_of (?ch i)"
      using assms(3) by (simp add: assms(7) list_of_def)
    note done_P = mail_installed [OF assms(1,2) ins q', folded sS_def]
    note done_E = mail_cut [OF assms(1,2) ins q' assms(3), folded sS_def]
    have torn_len: "length (torn f0 old bs) = length bs" for old bs
      using assms(4) by (simp add: torn_ok_def)
    show ?thesis
      unfolding st1(1) st2_def [symmetric]
    proof (intro runs_guard runs_check runs_writeState runs_return, goal_cases)
      case (2 f3)
      then have "content f3 = cut bS sS 2 st2 st2 (content f2)"
        unfolding st2_def by (blast dest: afterD)
      then show ?case using done_P afterD [OF f2] by simp
    next
      case (3 n old f3)
      then have "content f3 = cut bS sS n (torn f2 old st2) st2 (content f2)" "faulty f2"
        unfolding st2_def by (blast dest: afterD)+
      then show ?case
        using done_E [of "torn f0 old st2" n] torn_len lst2 afterD [OF f2] 3(2) by simp
    qed (use lst2 in \<open>simp add: st2_def\<close>)
  qed
  show ?thesis
    unfolding recv_locked_def sS_def [symmetric]
  proof (intro runs_check runs_readState, goal_cases)
    case 1
    then show ?case using R(2) cf by simp
  next
    case (2 f1)
    then have f1: "after f0 c f1" using after_trans [OF assms(6)] cf by simp
    note bk = R(7) [unfolded blocks_ok_def]
    show ?case
      unfolding cf(1) al(1)
      apply (rule runs_check_pure)
      unfolding from_st apply (rule runs_guard)
      unfolding hs apply (rule runs_guard)
      unfolding gh
    proof (intro runs_attempt runs_recv_loop [OF R(8) R(5,6) _ _ _ _ f1], goal_cases)
      case 2
      then show ?case using R(1) by (simp add: header_ok_def)
    next
      case 4
      then show ?case using entry_live [OF R(7) assms(5)] by blast
    next
      case 5
      then show ?case by (rule entries_few [OF assms(1,5)])
    next
      case (6 f2 ns')
      then show ?case using store [of f2 ns'] assms(3,5) by simp
    next
      case (7 f2)
      then show ?case by (rule E_same)
    qed (use bk assms(5) in auto)
  next
    case (3 f1)
    then show ?case using E_same after_trans [OF assms(6)] cf by simp
  qed
qed

lemma Recv_alt:
  "Recv e localID meanwhile =
     check open_data ''failed to open file: %v'' (\<lambda>_.
     check (readHeader e) ''failed to read header: %v'' (\<lambda>(bSize, sSize, aSize).
     check (readState bSize sSize) ''failed to read state: %v'' (\<lambda>state.
     guard_panic (head_slice state localID) (\<lambda>hd_off.
     if i32 (int (get_head state hd_off)) < 0 then return_ok []
     else
       check (\<lambda>f. readHeader e (f\<lparr>content := meanwhile (content f)\<rparr>)) ''failed to read header: %v''
         (\<lambda>(bSize, sSize, aSize). recv_locked e localID bSize sSize aSize)))))"
  unfolding Recv_def recv_locked_def ..

lemma runs_change:
  "runs m (f\<lparr>content := g (content f)\<rparr>) P E \<Longrightarrow> runs (\<lambda>f. m (f\<lparr>content := g (content f)\<rparr>)) f P E"
  by (simp add: runs_def)

text \<open>
  \<open>Recv\<close> refines emptying the own list. When the list is empty nothing is written; otherwise
  the list is read under the lock, after whatever the other hosts did meanwhile.
\<close>

lemma runs_Recv:
  assumes "mail_ok e (content f) q" and "mail_ok e (meanwhile (content f)) q2"
    and "torn_ok f" and "valid_id localID"
  shows "runs (Recv e localID meanwhile) f
           (\<lambda>msgs f'. if q localID = [] then msgs = [] \<and> content f' = content f
              else msgs = messages localID (q2 localID) \<and> mail_ok e (content f') (q2(localID := [])))
           (\<lambda>f'. faulty f \<and> (content f' = content f \<or>
              mail_rep e (content f') q2 \<or> mail_rep e (content f') (q2(localID := []))))"
    (is "runs _ _ ?P ?E")
proof -
  let ?c = "content f" and ?c2 = "meanwhile (content f)"
  from assms(1) obtain bS aS ns heads k0 ch where rep: "rep_at e ?c bS aS ns heads k0 ch"
    and q: "\<forall>i. valid_id i \<longrightarrow> q i = list_of (ch i)"
    unfolding mail_ok_def by blast
  from assms(2) obtain bS2 aS2 ns2 heads2 k2 ch2 where rep2: "rep_at e ?c2 bS2 aS2 ns2 heads2 k2 ch2"
    and sett2: "settled bS2 (seg_size bS2 aS2) ?c2" and q2: "\<forall>i. valid_id i \<longrightarrow> q2 i = list_of (ch2 i)"
    unfolding mail_ok_def by blast
  define sS where "sS = seg_size bS aS"
  let ?st = "current bS sS ?c"
  have R: "header_ok e ?c bS aS" "bS + 3 * sS \<le> length ?c" "state_of ?st ns heads"
    "\<And>i. valid_id i \<Longrightarrow> chain_at e ?c bS (heads i) (ch i)" "header_ok e ?c2 bS2 aS2"
    using rep rep2 by (simp_all add: rep_at_def sS_def)
  have "8192 \<le> length ?st" using R(3) by (simp add: state_of_def)
  note hs = head_slice_valid [OF assms(4) this]
  have gh: "get_head ?st (head_offset localID) = heads localID"
    using R(3) assms(4) by (simp add: state_of_def)
  have empty: "i32 (int (heads localID)) < 0 \<longleftrightarrow> q localID = []"
    using R(4) [OF assms(4)] q assms(4) by (cases "ch localID") (auto simp: list_of_def)
  have E_after: "?E f'" if "faulty f" "after f ?c f'" for f' using that afterD by blast
  let ?f2 = "\<lambda>f3. f3\<lparr>content := meanwhile (content f3)\<rparr>"
  have locked: "runs (check (\<lambda>f. readHeader e (f\<lparr>content := meanwhile (content f)\<rparr>)) ''failed to read header: %v''
         (\<lambda>(bSize, sSize, aSize). recv_locked e localID bSize sSize aSize)) f3 ?P ?E"
    if f3: "after f ?c f3" and ne: "q localID \<noteq> []" for f3
  proof (intro runs_check runs_change runs_readHeader [where bS = bS2 and aS = aS2], goal_cases)
    case 1
    then show ?case using R(5) afterD [OF f3] by simp
  next
    case (2 f4)
    have a: "after (?f2 f) ?c2 f4"
      using 2 f3 by (auto simp: after_def faulty_def)
    have t: "torn_ok (?f2 f)" using assms(3) by (simp add: torn_ok_def)
    show ?case
      unfolding prod.case
      by (rule runs_conseq [OF runs_recv_locked [OF rep2 sett2 q2 t assms(4) a refl]])
        (use ne in \<open>auto simp: faulty_def\<close>)
  next
    case (3 f4)
    have "mail_rep e (content f4) q2" using 3(2) afterD [OF f3] mail_ok_rep [OF assms(2)]
      by (simp add: after_def)
    then show ?case using 3 afterD [OF f3] by (auto simp: faulty_def)
  qed
  show ?thesis
    unfolding Recv_alt
  proof (intro runs_check runs_open_data, goal_cases)
    case (1 f1 n)
    then have c1: "content f1 = ?c" using afterD by blast
    show ?case
    proof (intro runs_readHeader [of e f1 bS aS], goal_cases)
      case 1
      then show ?case using R(1) c1 by simp
    next
      case (2 f2)
      then have f2: "after f ?c f2" "content f2 = ?c" using after_trans [OF 1] c1 afterD by auto
      show ?case
        unfolding prod.case sS_def [symmetric]
      proof (intro runs_check runs_readState, goal_cases)
        case 1
        then show ?case using R(2) f2 by simp
      next
        case (2 f3)
        then have f3: "after f ?c f3" using after_trans [OF f2(1)] f2(2) by simp
        show ?case
          unfolding f2(2) hs
          apply (rule runs_guard)
          unfolding gh empty
          using locked [OF f3] afterD [OF f3] by (simp add: runs_return)
      next
        case (3 f3)
        then show ?case using E_after after_trans [OF f2(1)] f2(2) afterD [OF f2(1)] by simp
      qed
    next
      case (3 f2)
      then show ?case using E_after after_trans [OF 1] c1 afterD [OF 1] by simp
    qed
  next
    case (2 f1)
    then show ?case using E_after by blast
  qed
qed

end
