(* ===== verification/MailBoxFormat.thy ===== *)
theory MailBoxFormat
  imports MailBoxSpec
begin

text \<open>
  Formatting: the first \<open>readHeader\<close> on a file whose header is empty turns it into a file with
  2000 empty mailboxes.
\<close>

section \<open>The first allocation of a fresh allocator\<close>

lemma t_alloc_full: "0 < s \<Longrightarrow> snd (t_alloc h (full h) s) = 0"
proof (induction h)
  case (Suc h)
  then show ?case by (auto simp: split_beta)
qed simp

lemma Alloc_fresh:
  assumes "alloc_inv ns" and "live ns = {}" and "0 < s" and "s \<le> 2 ^ height ns"
  obtains ns' k where "Alloc ns s = Some (ns', Inr 0)" and "alloc_inv ns'"
    and "length ns' = length ns" and "fits k s" and "live ns' = {(0, k)}"
proof -
  have inv: "length ns = 2 ^ Suc (height ns) - 1" "height ns \<le> 30" "tinv (height ns) (root ns)"
    using assms(1) by (simp_all add: alloc_inv_def)
  have full: "root ns = full (height ns)"
    using assms(2) blocks_empty_iff [OF inv(3)] by (simp add: live_def)
  have v: "s \<le> ns ! 0" using assms(4) full val_full val_tree_of by (metis root_def)
  have "tinv (height ns) (tree_of (height ns) ns 0)" using inv(3) by (simp add: root_def)
  from alloc_tree [OF inv(1,2) assms(3) node_at_root(1) this v] obtain ns1 where
    "alloc ns 0 s = Some (ns1, Inr (int (snd (t_alloc (height ns) (root ns) s))))"
    by (auto simp: root_def)
  then have z: "Alloc ns s = Some (ns1, Inr 0)"
    using t_alloc_full [OF assms(3)] by (simp add: Alloc_def full)
  from Alloc_served [OF assms(1,3) v] obtain ns' a k where a: "Alloc ns s = Some (ns', Inr (int a))"
    "alloc_inv ns'" "length ns' = length ns" "fits k s" "live ns' = insert (a, k) (live ns)" .
  with z assms(2) show thesis using that [of ns' k] by simp
qed

section \<open>The blocks format writes\<close>

lemma null_heads_nodes: "null_heads = nodes_bytes (replicate 2000 (-1))"
proof -
  have "map (\<lambda>i. le32 (u32 (-1))) [0..<n] = map (\<lambda>n. le32 (u32 n)) (replicate n (-1))" for n
    by (intro nth_equalityI) simp_all
  then show ?thesis by (simp only: null_heads_def nodes_bytes_def)
qed

lemma length_null_heads: "length null_heads = 8000"
  by (simp add: null_heads_nodes)

lemma get_head_null:
  assumes "valid_id i" and "8192 \<le> length s"
  shows "get_head (overwrite 192 null_heads s) (head_offset i) = u32 (-1)"
proof -
  have i: "i - 1 < 2000" "192 + 4 * (i - 1) - 192 = 4 * (i - 1)"
    using assms(1) by (auto simp: valid_id_def)
  have "slice (192 + 4 * (i - 1)) 4 (overwrite 192 null_heads s) = slice (4 * (i - 1)) 4 null_heads"
    using slice_overwrite_inside [of 192 null_heads s "192 + 4 * (i - 1)" 4] i assms(2)
    by (simp add: length_null_heads)
  also have "\<dots> = le32 (u32 (-1))"
    unfolding null_heads_nodes using i by (subst slice_nodes_bytes) simp_all
  finally show ?thesis
    using assms(1) by (simp add: get_head_def head_offset_valid)
qed

lemma state_of_fresh:
  assumes "alloc_inv ns" and "8192 + 4 * length ns \<le> n"
  shows "state_of (overwrite 8192 (nodes_bytes ns) (overwrite 192 null_heads (zeros n))) ns (\<lambda>_. u32 (-1))"
proof -
  let ?s = "overwrite 192 null_heads (zeros n)"
  have len: "length ?s = n" using assms(2) by (subst length_overwrite) (simp_all add: length_null_heads)
  then have l: "8192 + 4 * length ns \<le> length ?s" using assms(2) by simp
  have "get_head (overwrite 8192 (nodes_bytes ns) ?s) (head_offset i) = u32 (-1)" if "valid_id i" for i
    using get_head_nodes [OF that] get_head_null [OF that, of "zeros n"] l assms(2) by simp
  moreover have "allocatorFromState al (overwrite 8192 (nodes_bytes ns) ?s) = Some ns"
    if "length al = length ns" for al
    using allocatorFromState_written [OF l _ that] alloc_inv_i32 [OF assms(1)] by blast
  moreover have "length (overwrite 8192 (nodes_bytes ns) ?s) = n"
    using l len by (subst length_overwrite) simp_all
  ultimately show ?thesis using l len by (simp add: state_of_def)
qed

abbreviation header_fields :: "nat \<Rightarrow> nat \<Rightarrow> nat \<Rightarrow> string" where
  "header_fields bSize fSize aSize \<equiv>
     magicHeader @ [char_of dataVersion] @ [char_of (0::nat)] @ le32 bSize @ le32 fSize @ le32 aSize"

lemma length_magicHeader [simp]: "length magicHeader = 16"
  by (simp add: magicHeader_def)

lemma length_header_block: "30 \<le> b \<Longrightarrow> length (header_block b fs as) = b"
  by (simp add: header_block_def length_overwrite)

lemma slice_header_block:
  assumes "30 \<le> b" and "p + n \<le> 30"
  shows "slice p n (header_block b fs as) = slice p n (header_fields b fs as)"
  unfolding header_block_def
  using slice_overwrite_inside [of 0 "header_fields b fs as" "zeros b" p n] assms by simp

lemma header_block_ok:
  assumes "30 \<le> BlockSize e" and "BlockSize e \<le> length c" and "BlockSize e < 2 ^ 32"
    and "as < 2 ^ 32" and "ones_count (as + 4) = 1"
  shows "header_ok e (overwrite 0 (header_block (BlockSize e) fs as) c) (BlockSize e) as"
proof -
  let ?b = "BlockSize e"
  have l: "length (overwrite 0 (header_block ?b fs as) c) = length c"
    using assms(1,2) by (intro length_overwrite) (simp add: length_header_block)
  have s: "slice p n (overwrite 0 (header_block ?b fs as) c) = slice p n (header_fields ?b fs as)"
    if "p + n \<le> 30" for p n
    using slice_overwrite_inside [of 0 "header_block ?b fs as" c p n] slice_header_block [OF assms(1) that]
      assms(1,2) that by (simp add: length_header_block)
  have "slice 18 4 (header_fields ?b fs as) = le32 ?b" "slice 26 4 (header_fields ?b fs as) = le32 as"
    "slice 0 16 (header_fields ?b fs as) = magicHeader"
    "slice 16 1 (header_fields ?b fs as) = [char_of dataVersion]"
    "slice 17 1 (header_fields ?b fs as) = [char_of (0::nat)]"
    by (simp_all add: slice_def drop_Cons')
  with l s assms show ?thesis by (simp add: header_ok_def)
qed

section \<open>Formatting\<close>

text \<open>
  A file that can be formatted: a power of two of blocks, at most \<^verbatim>\<open>MaxInt32\<close> bytes, large
  enough for the header and three state segments.
\<close>

definition tree_bytes :: "nat \<Rightarrow> nat" where
  "tree_bytes h = (2 ^ Suc h - 1) * 4"

definition formattable :: "mail_env \<Rightarrow> string \<Rightarrow> nat \<Rightarrow> bool" where
  "formattable e c h \<longleftrightarrow>
     30 \<le> BlockSize e \<and> int (length c) \<le> 2 ^ 31 - 1 \<and> length c div BlockSize e = 2 ^ h \<and>
     1 + 3 * toBlocks (BlockSize e) (192 + 2000 * 4 + tree_bytes h) \<le> 2 ^ h"

lemma tree_bytes_ones: "ones_count (tree_bytes h + 4) = 1"
proof -
  have "(1::nat) \<le> 2 ^ Suc h" by simp
  then have "tree_bytes h + 4 = 2 ^ (Suc h + 2)"
    unfolding tree_bytes_def power_add by (simp add: diff_mult_distrib)
  then show ?thesis by (simp only: ones_count_power)
qed

lemma formattable_height:
  assumes "formattable e c h"
  shows "h \<le> 29" and "2 ^ h * BlockSize e \<le> length c" and "BlockSize e \<le> length c"
proof -
  from assms show a: "2 ^ h * BlockSize e \<le> length c"
    unfolding formattable_def by (metis div_times_less_eq_dividend)
  have "1 * BlockSize e \<le> 2 ^ h * BlockSize e" by (intro mult_le_mono1) simp
  with a show "BlockSize e \<le> length c" by linarith
  have "2 ^ h * 30 \<le> 2 ^ h * BlockSize e" using assms unfolding formattable_def by (intro mult_le_mono2) simp
  then have "2 ^ h * 30 \<le> length c" using a by linarith
  then have "(2::nat) ^ h < 2 ^ 30" using assms unfolding formattable_def by simp
  then have "h < 30" by (rule power_less_imp_less_exp [rotated]) simp
  then show "h \<le> 29" by simp
qed

lemma runs_format:
  assumes "formattable e (content f) h"
    and "\<And>f'. after f (content f') f' \<Longrightarrow> mail_ok e (content f') (\<lambda>_. []) \<Longrightarrow>
      (2 * (1 + 3 * toBlocks (BlockSize e) (192 + 2000 * 4 + tree_bytes h)) \<le> 2 ^ h \<Longrightarrow>
        room e (content f')) \<Longrightarrow>
      header_ok e (content f') (BlockSize e) (tree_bytes h) \<Longrightarrow> P () f'"
    and "\<And>f'. faulty f \<Longrightarrow> E f'"
  shows "runs (mailbox_format (BlockSize e)) f P E"
proof -
  let ?c = "content f" and ?b = "BlockSize e"
  note F = assms(1) [unfolded formattable_def] and G = formattable_height [OF assms(1)]
  have i32h: "i32 (int (length ?c div ?b)) = 2 ^ h"
    using F G(1) i32_nat [of "2 ^ h"] power_increasing [of h 30 "2::nat"] by simp
  from new_alloc_power [OF G(1)] obtain al where al: "NewAllocatorBySize (2 ^ h) = Inr al"
    "alloc_inv al" "capacity al = 2 ^ h" "live al = {}" .
  have hal: "height al = h" using al(3) by (simp add: capacity_def)
  have lal: "length al = 2 ^ Suc h - 1" using al(2) by (simp add: alloc_inv_def hal)
  have as: "length al * 4 = tree_bytes h" by (simp add: lal tree_bytes_def)
  define sB where "sB = toBlocks ?b (192 + 2000 * 4 + tree_bytes h)"
  have sB: "1 + 3 * sB \<le> 2 ^ h" "1 \<le> sB" using F by (simp_all add: sB_def toBlocks_def)
  have p30: "(2::nat) ^ h \<le> 2 ^ 29" using G(1) by (intro power_increasing) auto
  then have "2 ^ h \<le> (2::nat) ^ 30" by simp
  with sB(1) have r30: "1 + 3 * sB \<le> 2 ^ 30" by (rule order_trans)
  then have "sB \<le> 2 ^ 30" by simp
  from i32_nat [OF this] i32_nat [OF r30] have req: "i32 (1 + 3 * i32 (int sB)) = int (1 + 3 * sB)"
    by simp
  have "int (1 + 3 * sB) \<le> 2 ^ height al"
    unfolding hal using sB(1) by (metis of_nat_le_iff of_nat_numeral of_nat_power)
  from Alloc_fresh [OF al(2,4) _ this] obtain al' k where al': "Alloc al (int (1 + 3 * sB)) = Some (al', Inr 0)"
    "alloc_inv al'" "length al' = length al" "fits k (int (1 + 3 * sB))" "live al' = {(0, k)}"
    by (metis of_nat_0_less_iff zero_less_Suc plus_1_eq_Suc)
  have cap': "capacity al' = 2 ^ h" using al(3) al'(3) by (simp add: capacity_def height_def)
  let ?hb = "header_block ?b (length ?c) (length al * 4)"
  let ?c1 = "overwrite 0 ?hb ?c"
  define st where "st = overwrite 8192 (nodes_bytes al') (overwrite 192 null_heads (zeros (sB * ?b)))"
  have b0: "0 < ?b" using F by simp
  have fit: "8192 + tree_bytes h \<le> sB * ?b"
  proof -
    have "8192 + tree_bytes h - 1 < (8192 + tree_bytes h - 1) div ?b * ?b + ?b"
      using b0 by (metis add.commute div_mult_mod_eq mod_less_divisor nat_add_left_cancel_less)
    then show ?thesis by (simp add: sB_def toBlocks_def)
  qed
  have fit': "8192 + 4 * length al' \<le> sB * ?b" using fit as al'(3) by (simp add: mult.commute)
  have z: "length (overwrite 192 null_heads (zeros (sB * ?b))) = sB * ?b"
    using fit by (subst length_overwrite) (simp_all add: length_null_heads)
  have st: "allocatorToState al' (overwrite 192 null_heads (zeros (sB * ?b))) = Some st"
    unfolding st_def using fit' z by (intro allocatorToState_eq) simp
  have lst: "length st = sB * ?b"
    unfolding st_def using fit' z by (subst length_overwrite) simp_all
  have st_of: "state_of st al' (\<lambda>_. u32 (-1))"
    unfolding st_def by (rule state_of_fresh [OF al'(2) fit'])
  have seg: "seg_size ?b (tree_bytes h) = sB * ?b" by (simp add: seg_size_def sB_def)
  have room: "?b + 3 * (sB * ?b) \<le> length ?c"
  proof -
    have "(1 + 3 * sB) * ?b \<le> 2 ^ h * ?b" using sB(1) by (rule mult_le_mono1)
    then have "?b + 3 * (sB * ?b) \<le> 2 ^ h * ?b" by simp
    with G(2) show ?thesis by linarith
  qed
  have b32: "?b < 2 ^ 32" using G(3) F by simp
  have t32: "tree_bytes h < 2 ^ 32"
  proof -
    have "(2::nat) ^ Suc h \<le> 2 ^ 30" using G(1) by (intro power_increasing) auto
    then show ?thesis by (simp add: tree_bytes_def del: power_Suc)
  qed
  have hdr: "header_ok e ?c1 ?b (tree_bytes h)"
    unfolding as by (rule header_block_ok [OF _ G(3) b32 t32 tree_bytes_ones]) (use F in simp)
  have lhb: "length ?hb = ?b" using F by (simp add: length_header_block)
  have lc1: "length ?c1 = length ?c" using lhb G(3) by (subst length_overwrite) simp_all
  let ?c2 = "cut ?b (sB * ?b) 2 st st ?c1"
  have room1: "?b + 3 * (sB * ?b) \<le> length ?c1" using room lc1 by simp
  note w = current_written [OF room1 lst]
  note sb = same_but_cut [OF room1 lst lst, of 2]
  obtain rep: "rep_at e ?c2 ?b (tree_bytes h) al' (\<lambda>_. u32 (-1)) k (\<lambda>_. [])"
  proof
    have "header_ok e ?c2 ?b (tree_bytes h)" using header_frame [OF hdr sb] by simp
    moreover have lc2: "length ?c2 = length ?c" using sb lc1 by (simp add: same_but_def)
    moreover have "blocks_ok ?b (sB * ?b) al' k (\<lambda>_. [])"
    proof -
      have "1 + 3 * sB \<le> 2 ^ k"
        using al'(4) unfolding fits_def by (metis of_nat_le_iff of_nat_numeral of_nat_power)
      then have "(1 + 3 * sB) * ?b \<le> 2 ^ k * ?b" by (rule mult_le_mono1)
      then show ?thesis using al'(5) by (simp add: blocks_ok_def msg_blocks_def)
    qed
    moreover have "i32 (int (u32 (-1))) < 0" by (simp add: i32_u32)
    moreover have "4 * length al' = tree_bytes h" using as al'(3) by simp
    ultimately show "rep_at e ?c2 ?b (tree_bytes h) al' (\<lambda>_. u32 (-1)) k (\<lambda>_. [])"
      unfolding rep_at_def seg w(1) using room st_of al'(2) cap' G(2) by simp
  qed
  have ok: "mail_ok e ?c2 (\<lambda>_. [])"
    unfolding mail_ok_def using rep w(2) by (intro exI conjI) (auto simp: seg list_of_def)
  have free: "room e ?c2" if "2 * (1 + 3 * sB) \<le> 2 ^ h"
  proof -
    have "2 ^ k < 2 * (1 + 3 * sB)"
    proof (cases k)
      case (Suc j)
      then have "(2::int) ^ j < int (1 + 3 * sB)" using al'(4) by (simp add: fits_def)
      then have "2 ^ j < 1 + 3 * sB" by (metis of_nat_less_iff of_nat_numeral of_nat_power)
      with Suc show ?thesis by simp
    qed simp
    with that have "2 ^ k < capacity al'" unfolding cap' by linarith
    moreover have "\<forall>b \<in> live al'. apart (2 ^ k, 0) b" by (simp add: al'(5) apart_def)
    ultimately show ?thesis unfolding room_def using rep by blast
  qed
  have size: "runs (if sz = 0 then seek_end else return_ok sz) f1 Q E"
    if "after f ?c f1" "sz = 0 \<or> sz = length ?c" "\<And>f2. after f ?c f2 \<Longrightarrow> Q (length ?c) f2" for sz f1 Q
  proof (cases "sz = 0")
    case True
    have "runs seek_end f1 Q E"
    proof (intro runs_seek_end)
      fix f2
      assume "after f1 (content f1) f2"
      then show "Q (length (content f1)) f2"
        using that(1,3) after_trans [OF that(1)] afterD [OF that(1)] by simp
    qed
    with True show ?thesis by simp
  next
    case False
    with that show ?thesis by (auto intro: runs_return)
  qed
  have main: "runs (if int (length ?c) > 2 ^ 31 - 1 then fail_with ''file size %d exceeds maximum size %d''
     else check_pure (NewAllocatorBySize (i32 (int (length ?c div ?b))))
            ''failed to initialize allocator: %v'' (\<lambda>al.
     check (seek 0) ''failed to seek file: %v'' (\<lambda>_.
     check (write_file (header_block ?b (length ?c) (length al * 4))) ''failed to write header: %v'' (\<lambda>_.
     guard_panic (Alloc al (i32 (1 + 3 * i32 (int (toBlocks ?b (192 + 2000 * 4 + length al * 4)))))) (\<lambda>(al', r).
     check_pure r ''failed to allocate header: %v'' (\<lambda>addr.
     if addr \<noteq> 0 then (\<lambda>_. None)
     else
       guard_panic (allocatorToState al' (overwrite 192 null_heads
           (zeros (toBlocks ?b (192 + 2000 * 4 + length al * 4) * ?b)))) (\<lambda>state'.
       check (writeState ?b (toBlocks ?b (192 + 2000 * 4 + length al * 4) * ?b) state')
         ''failed to write state: %v'' (\<lambda>_. return_ok ())))))))) f1 P E"
    if f1: "after f ?c f1" for f1
  proof -
    have big: "\<not> int (length ?c) > 2 ^ 31 - 1" using F by simp
    show ?thesis
      unfolding if_not_P [OF big] i32h al(1)
    proof (intro runs_check_pure runs_check runs_seek runs_write, goal_cases)
      case (2 f2 f3)
      then have f3: "after f ?c1 f3" using after_trans [OF f1] afterD [OF f1] afterD [OF 2(1)]
        by (metis after_trans nat_zero_as_int)
      show ?case
        unfolding as sB_def [symmetric] req al'(1)
        apply (rule runs_guard)
        unfolding prod.case apply (rule runs_check_pure)
        unfolding if_not_P [OF not_not [THEN iffD2, OF refl]] st apply (rule runs_guard)
      proof (intro runs_check runs_writeState runs_return, goal_cases)
        case 1
        then show ?case by (rule lst)
      next
        case (2 f4)
        then have f4: "content f4 = ?c2" using afterD [OF f3] afterD by metis
        have "after f (content f4) f4" using after_trans [OF f3 2] f4 afterD [OF f3] by simp
        then show ?case using assms(2) ok free f4 header_frame [OF hdr sb] by (simp add: sB_def)
      next
        case (3 n old f4)
        then show ?case using assms(3) afterD [OF f3] by blast
      qed
    next
      case (3 f2 f3 old)
      then show ?case using assms(3) afterD [OF f1] afterD by blast
    qed simp
  qed
  show ?thesis
    unfolding mailbox_format_def Let_def
  proof (intro runs_check runs_stat, goal_cases)
    case (1 f1)
    show ?case
    proof (rule size [OF 1(1)])
      show "(if blockdev f then 0 else length ?c) = 0 \<or> (if blockdev f then 0 else length ?c) = length ?c"
        by simp
    qed (rule main)
  next
    case 2
    then show ?case using assms(3) by blast
  qed
qed

text \<open>The first access to an empty file formats it; a formatted one is left as it is.\<close>

lemma zeros_not_magic: "zeros 16 \<noteq> magicHeader"
  by (simp add: zeros_def magicHeader_def numeral_eq_Suc)

lemma runs_readHeader_format:
  assumes "formattable e (content f) h" and "take 16 (content f) = zeros 16"
    and "\<And>f'. after f (content f') f' \<Longrightarrow> mail_ok e (content f') (\<lambda>_. []) \<Longrightarrow>
      (2 * (1 + 3 * toBlocks (BlockSize e) (192 + 2000 * 4 + tree_bytes h)) \<le> 2 ^ h \<Longrightarrow>
        room e (content f')) \<Longrightarrow>
      P (BlockSize e, seg_size (BlockSize e) (tree_bytes h), tree_bytes h) f'"
    and "\<And>f'. faulty f \<Longrightarrow> E f'"
  shows "runs (readHeader e) f P E"
proof -
  let ?b = "BlockSize e" and ?c = "content f"
  have b: "30 \<le> ?b" "?b \<le> length ?c"
    using assms(1) formattable_height(3) by (auto simp: formattable_def)
  have t: "take 16 (slice 0 ?b ?c) = zeros 16" using b(1) assms(2) by (simp add: slice_def min_def)
  have two: "2 = Suc (Suc 0)" by simp
  show ?thesis
    unfolding readHeader_def two header_loop.simps(2) [of _ "Suc 0"]
  proof (intro runs_attempt runs_check runs_seek runs_read, goal_cases)
    case 2
    then show ?case using b(2) afterD by auto
  next
    case (3 f1 f2)
    then have f1: "content f1 = ?c" "offset f1 = 0" and f2: "after f ?c f2"
      using afterD after_trans by auto
    have fm: "formattable e (content f2) h" using assms(1) afterD [OF f2] by simp
    have ff: "take 16 (slice (offset f1) ?b (content f1)) = zeros 16" using t f1 by simp
    show ?case
      unfolding ff if_not_P [OF zeros_not_magic] if_P [OF conjI [OF One_nat_def [symmetric] refl]]
    proof (intro runs_check runs_format [OF fm], goal_cases)
      case (1 f3)
      then have f3: "after f (content f3) f3" using after_trans [OF f2] by blast
      show ?case
      proof (rule runs_header_loop, goal_cases)
        case (4 f4)
        then have "after f (content f4) f4" "content f4 = content f3"
          using after_trans [OF f3] afterD by auto
        then show ?case
          using 1(2,3) by (intro runs_parse_header [OF 1(4)] assms(3)) simp_all
      next
        case (5 f4)
        then show ?case using assms(4) afterD [OF f3] by blast
      qed (use 1(4) in \<open>auto simp: header_ok_def\<close>)
    next
      case (2 f3)
      then show ?case using assms(4) afterD [OF f2] by blast
    qed
  next
    case (4 f1)
    then show ?case using assms(4) afterD by blast
  qed simp
qed

lemma runs_NewMailBox:
  assumes "valid_id localID"
    and "\<And>f1. after f (content f) f1 \<Longrightarrow> runs (readHeader e) f1 (\<lambda>_ f'. P localID f') E"
    and "\<And>f'. faulty f \<Longrightarrow> E f'"
  shows "runs (NewMailBox e localID) f P E"
proof -
  have v: "\<not> (localID = 0 \<or> localID > 2000)" using assms(1) by (auto simp: valid_id_def)
  show ?thesis
    unfolding NewMailBox_def if_not_P [OF v]
  proof (intro runs_check runs_tick, goal_cases)
    case (1 f1)
    have a: "after f (content f) (f1\<lparr>offset := 0\<rparr>)" using 1(1) by (simp add: after_def faulty_def)
    have "runs (readHeader e) (f1\<lparr>offset := 0\<rparr>) (\<lambda>x f'. runs (return_ok localID) f' P E) E"
      by (rule runs_conseq [OF assms(2) [OF a]]) (auto intro: runs_return)
    then show ?case by (simp add: runs_def)
  next
    case 2
    then show ?case using assms(3) by blast
  qed
qed

end
