(* ===== verification/MailBoxService.thy ===== *)
theory MailBoxService
  imports MailBoxFormat "HOL-Library.Multiset"
begin

text \<open>
  The mailboxes as a service: the locale \<open>mail_service\<close> states what its clients rely on, any
  sequence of operations delivers every message exactly once, and the code's \<open>Send\<close> and
  \<open>Recv\<close> interpret it. The properties of the mailbox follow, with the two places where the
  on-disk protocol falls short.
\<close>

section \<open>The interface\<close>

datatype mail_op = Post nat Message | Fetch nat

definition target :: "nat \<Rightarrow> Message \<Rightarrow> nat" where
  "target localID msg = (if Recipient msg = localMailBoxID then localID else Recipient msg)"

definition pushed :: "nat \<Rightarrow> Message \<Rightarrow> (nat \<Rightarrow> (nat \<times> string) list) \<Rightarrow> nat \<Rightarrow> (nat \<times> string) list" where
  "pushed localID msg q = q(target localID msg := (localID, Payload msg) # q (target localID msg))"

text \<open>
  Running operations one after the other: what was accepted (recipient, sender, payload), what
  was handed out, and the final state.
\<close>

type_synonym post = "nat \<times> nat \<times> string"

fun exec :: "('s \<Rightarrow> nat \<Rightarrow> Message \<Rightarrow> ((go_error + unit) \<times> 's) option) \<Rightarrow>
    ('s \<Rightarrow> nat \<Rightarrow> ((go_error + Message list) \<times> 's) option) \<Rightarrow> 's \<Rightarrow> mail_op list \<Rightarrow>
    (post list \<times> post list \<times> 's) option" where
  "exec push pull s [] = Some ([], [], s)"
| "exec push pull s (Post i m # ops) =
     (case push s i m of
        None \<Rightarrow> None
      | Some (r, s') \<Rightarrow>
          (case exec push pull s' ops of
             None \<Rightarrow> None
           | Some (ps, gs, s'') \<Rightarrow>
               Some ((case r of Inl _ \<Rightarrow> [] | Inr _ \<Rightarrow> [(target i m, i, Payload m)]) @ ps, gs, s'')))"
| "exec push pull s (Fetch i # ops) =
     (case pull s i of
        None \<Rightarrow> None
      | Some (r, s') \<Rightarrow>
          (case exec push pull s' ops of
             None \<Rightarrow> None
           | Some (ps, gs, s'') \<Rightarrow>
               Some (ps, (case r of Inl _ \<Rightarrow> []
                          | Inr ms \<Rightarrow> map (\<lambda>m. (Recipient m, Sender m, Payload m)) ms) @ gs, s'')))"

definition valid_post :: "nat \<Rightarrow> Message \<Rightarrow> bool" where
  "valid_post i m \<longleftrightarrow> valid_id i \<and> (Recipient m = localMailBoxID \<or> valid_id (Recipient m))"

fun valid_op :: "(string \<Rightarrow> bool) \<Rightarrow> mail_op \<Rightarrow> bool" where
  "valid_op fit (Post i m) = (valid_post i m \<and> fit (Payload m))"
| "valid_op fit (Fetch i) = valid_id i"

text \<open>What waits in the mailboxes.\<close>

definition waiting :: "(nat \<Rightarrow> (nat \<times> string) list) \<Rightarrow> post multiset" where
  "waiting q = (\<Sum>i \<in> {i. valid_id i}. image_mset (\<lambda>x. (i, x)) (mset (q i)))"

lemma finite_valid_id [simp]: "finite {i. valid_id i}"
  by (rule finite_subset [of _ "{..2000}"]) (auto simp: valid_id_def)

lemma waiting_update:
  assumes "valid_id i"
  shows "waiting (q(i := xs)) + image_mset (\<lambda>x. (i, x)) (mset (q i)) =
         waiting q + image_mset (\<lambda>x. (i, x)) (mset xs)"
proof -
  have "waiting p = image_mset (\<lambda>x. (i, x)) (mset (p i)) +
      (\<Sum>j \<in> {j. valid_id j} - {i}. image_mset (\<lambda>x. (j, x)) (mset (p j)))" for p
    unfolding waiting_def using assms by (subst sum.remove [of _ i]) simp_all
  from this [of q] this [of "q(i := xs)"] show ?thesis by simp
qed

lemma union_lcomm_add: "(a + b) + c = (c + a) + (b :: 'a multiset)"
  by (simp add: ac_simps)

locale mail_service =
  fixes holds :: "'s \<Rightarrow> (nat \<Rightarrow> (nat \<times> string) list) \<Rightarrow> bool"
    and fit :: "'s \<Rightarrow> string \<Rightarrow> bool"
    and push :: "'s \<Rightarrow> nat \<Rightarrow> Message \<Rightarrow> ((go_error + unit) \<times> 's) option"
    and pull :: "'s \<Rightarrow> nat \<Rightarrow> ((go_error + Message list) \<times> 's) option"
  assumes push_law: "holds s q \<Longrightarrow> valid_post i m \<Longrightarrow> fit s (Payload m) \<Longrightarrow>
      \<exists>r s'. push s i m = Some (r, s') \<and> fit s' = fit s \<and>
        (case r of Inl _ \<Rightarrow> holds s' q | Inr _ \<Rightarrow> holds s' (pushed i m q))"
    and pull_law: "holds s q \<Longrightarrow> valid_id j \<Longrightarrow>
      \<exists>s'. pull s j = Some (Inr (messages j (q j)), s') \<and> fit s' = fit s \<and> holds s' (q(j := []))"
begin

lemma exec_conserves:
  assumes "holds s q" and "\<forall>x \<in> set ops. valid_op (fit s) x"
  shows "\<exists>ps gs s' q'. exec push pull s ops = Some (ps, gs, s') \<and> holds s' q' \<and>
           mset ps + waiting q = mset gs + waiting q'"
  using assms
proof (induction ops arbitrary: s q)
  case Nil
  then show ?case by auto
next
  case (Cons x ops)
  show ?case
  proof (cases x)
    case (Post i m)
    then have v: "valid_post i m" "fit s (Payload m)" using Cons.prems(2) by auto
    from push_law [OF Cons.prems(1) v] obtain r s1 where s1: "push s i m = Some (r, s1)" "fit s1 = fit s"
      "case r of Inl _ \<Rightarrow> holds s1 q | Inr _ \<Rightarrow> holds s1 (pushed i m q)" by blast
    have rest: "\<forall>x \<in> set ops. valid_op (fit s1) x" using Cons.prems(2) s1(2) by simp
    show ?thesis
    proof (cases r)
      case (Inl e)
      with s1(3) have "holds s1 q" by simp
      from Cons.IH [OF this rest] obtain ps gs s' q' where ih: "exec push pull s1 ops = Some (ps, gs, s')"
        "holds s' q'" "mset ps + waiting q = mset gs + waiting q'" by blast
      moreover have "exec push pull s (x # ops) = Some (ps, gs, s')"
        using ih(1) s1(1) Inl Post by simp
      ultimately show ?thesis by blast
    next
      case (Inr u)
      with s1(3) have "holds s1 (pushed i m q)" by simp
      from Cons.IH [OF this rest] obtain ps gs s' q' where ih: "exec push pull s1 ops = Some (ps, gs, s')"
        "holds s' q'" "mset ps + waiting (pushed i m q) = mset gs + waiting q'" by blast
      have "valid_id (target i m)" using v(1) by (auto simp: valid_post_def target_def)
      from waiting_update [OF this, of q "(i, Payload m) # q (target i m)"]
      have "waiting (pushed i m q) = waiting q + {#(target i m, i, Payload m)#}"
        by (simp add: pushed_def)
      with ih(3) have "mset ((target i m, i, Payload m) # ps) + waiting q = mset gs + waiting q'"
        by simp
      moreover have "exec push pull s (x # ops) = Some ((target i m, i, Payload m) # ps, gs, s')"
        using ih(1) s1(1) Inr Post by simp
      ultimately show ?thesis using ih(2) by blast
    qed
  next
    case (Fetch j)
    then have v: "valid_id j" using Cons.prems(2) by simp
    from pull_law [OF Cons.prems(1) v] obtain s1 where s1: "pull s j = Some (Inr (messages j (q j)), s1)"
      "fit s1 = fit s" "holds s1 (q(j := []))" by blast
    have rest: "\<forall>x \<in> set ops. valid_op (fit s1) x" using Cons.prems(2) s1(2) by simp
    from Cons.IH [OF s1(3) rest] obtain ps gs s' q' where ih: "exec push pull s1 ops = Some (ps, gs, s')"
      "holds s' q'" "mset ps + waiting (q(j := [])) = mset gs + waiting q'" by blast
    let ?got = "map (\<lambda>m. (Recipient m, Sender m, Payload m)) (messages j (q j))"
    have w: "waiting q = waiting (q(j := [])) + image_mset (\<lambda>x. (j, x)) (mset (q j))"
      using waiting_update [OF v, of q "[]"] by simp
    have g: "mset ?got = image_mset (\<lambda>x. (j, x)) (mset (q j))"
      by (simp add: messages_def comp_def case_prod_unfold)
    have "mset ps + waiting q = (mset ps + waiting (q(j := []))) + mset ?got"
      unfolding w g by (rule add.assoc [symmetric])
    also have "\<dots> = mset (?got @ gs) + waiting q'"
      unfolding ih(3) mset_append by (rule union_lcomm_add)
    finally have "mset ps + waiting q = mset (?got @ gs) + waiting q'" .
    moreover have "exec push pull s (x # ops) =
        Some (ps, map (\<lambda>m. (Recipient m, Sender m, Payload m)) (messages j (q j)) @ gs, s')"
      using ih(1) s1(1) Fetch by simp
    ultimately show ?thesis using ih(2) by blast
  qed
qed

end

section \<open>The code provides it\<close>

type_synonym mail_state = "mail_env \<times> file_handle"

definition mail_holds :: "mail_state \<Rightarrow> (nat \<Rightarrow> (nat \<times> string) list) \<Rightarrow> bool" where
  "mail_holds s q \<longleftrightarrow> env_ok (fst s) \<and> \<not> faulty (snd s) \<and> torn_ok (snd s) \<and>
     mail_ok (fst s) (content (snd s)) q"

definition mail_fit :: "mail_state \<Rightarrow> string \<Rightarrow> bool" where
  "mail_fit s = small (fst s)"

definition mail_push :: "mail_state \<Rightarrow> nat \<Rightarrow> Message \<Rightarrow> ((go_error + unit) \<times> mail_state) option" where
  "mail_push s i m = map_option (\<lambda>(r, f). (r, (fst s, f))) (Send (fst s) i m (snd s))"

definition mail_pull :: "mail_state \<Rightarrow> nat \<Rightarrow> ((go_error + Message list) \<times> mail_state) option" where
  "mail_pull s i = map_option (\<lambda>(r, f). (r, (fst s, f))) (Recv (fst s) i id (snd s))"

text \<open>The device's fault plan is all that an operation may use up.\<close>

definition calm :: "'a io \<Rightarrow> bool" where
  "calm m \<longleftrightarrow> (\<forall>f r f'. m f = Some (r, f') \<longrightarrow> torn f' = torn f \<and> (faulty f' \<longrightarrow> faulty f))"

lemma calmI:
  "(\<And>f r f'. m f = Some (r, f') \<Longrightarrow> torn f' = torn f \<and> (faulty f' \<longrightarrow> faulty f)) \<Longrightarrow> calm m"
  by (simp add: calm_def)

lemma calm_return: "calm (return_ok x)" and calm_fail: "calm (fail_with msg)"
  and calm_panic: "calm (\<lambda>_. None)"
  by (simp_all add: calm_def return_ok_def fail_with_def)

lemma calm_bind:
  assumes "calm m" and "\<And>x. calm (k x)" and "c f = Some (r, f')"
    and "\<And>e f1. m f = Some (Inl e, f1) \<Longrightarrow> c f = Some (g e, f1)"
    and "\<And>x f1. m f = Some (Inr x, f1) \<Longrightarrow> c f = k x f1" and "m f = None \<Longrightarrow> c f = None"
  shows "torn f' = torn f \<and> (faulty f' \<longrightarrow> faulty f)"
proof (cases "m f")
  case None
  with assms(3,6) show ?thesis by simp
next
  case (Some p)
  obtain v f1 where p: "p = (v, f1)" by fastforce
  have f1: "torn f1 = torn f \<and> (faulty f1 \<longrightarrow> faulty f)"
    using assms(1) Some p unfolding calm_def by blast
  show ?thesis
  proof (cases v)
    case (Inl e)
    with assms(3,4) Some p f1 show ?thesis by simp
  next
    case (Inr x)
    then have "k x f1 = Some (r, f')" using assms(3,5) Some p by simp
    with assms(2) f1 show ?thesis unfolding calm_def by metis
  qed
qed

lemma calm_check:
  assumes "calm m" and "\<And>x. calm (k x)"
  shows "calm (check m msg k)"
proof (rule calmI)
  fix f r f'
  assume "check m msg k f = Some (r, f')"
  then show "torn f' = torn f \<and> (faulty f' \<longrightarrow> faulty f)"
    by (rule calm_bind [OF assms, where g = "\<lambda>_. Inl (Plain msg)"]) (simp_all add: check_def)
qed

lemma calm_attempt:
  assumes "calm m" and "\<And>x. calm (k x)"
  shows "calm (attempt m k)"
proof (rule calmI)
  fix f r f'
  assume "attempt m k f = Some (r, f')"
  then show "torn f' = torn f \<and> (faulty f' \<longrightarrow> faulty f)"
    by (rule calm_bind [OF assms, where g = Inl]) (simp_all add: attempt_def)
qed

lemma calm_check_pure: "(\<And>x. calm (k x)) \<Longrightarrow> calm (check_pure r msg k)"
  by (cases r) (simp_all add: calm_def check_pure_def)

lemma calm_guard: "(\<And>x. calm (k x)) \<Longrightarrow> calm (guard_panic r k)"
  by (cases r) (simp_all add: calm_def guard_panic_def)

lemma calm_tick: "calm tick"
proof (rule calmI)
  fix f r f'
  assume "tick f = Some (r, f')"
  then show "torn f' = torn f \<and> (faulty f' \<longrightarrow> faulty f)"
    by (cases f rule: tick_cases) (auto dest: afterD)
qed

lemma calm_seek: "calm (seek off)" and calm_seek_end: "calm seek_end"
  by (auto intro!: calmI simp: seek_def seek_end_def faulty_def split: if_splits)

lemma calm_stat: "calm stat_size"
proof (rule calmI)
  fix f r f'
  assume "stat_size f = Some (r, f')"
  then show "torn f' = torn f \<and> (faulty f' \<longrightarrow> faulty f)"
    by (cases f rule: tick_cases) (auto simp: stat_size_def dest: afterD)
qed

lemma calm_read: "calm (read_full n)"
proof (rule calmI)
  fix f r f'
  assume "read_full n f = Some (r, f')"
  then show "torn f' = torn f \<and> (faulty f' \<longrightarrow> faulty f)"
    by (cases f rule: tick_cases)
      (auto simp: read_full_def after_def faulty_def split: if_splits)
qed

lemma calm_write: "calm (write_file bs)"
proof (rule calmI)
  fix f r f'
  assume "write_file bs f = Some (r, f')"
  then show "torn f' = torn f \<and> (faulty f' \<longrightarrow> faulty f)"
    by (cases f rule: tick_cases) (auto simp: write_file_def after_def faulty_def)
qed

lemmas calm_ops = calm_seek calm_seek_end calm_stat calm_read calm_write

lemmas calm_rules = calm_return calm_fail calm_panic calm_check calm_attempt calm_check_pure
  calm_guard calm_tick calm_ops

lemma calm_if: "calm m \<Longrightarrow> calm m' \<Longrightarrow> calm (if b then m else m')"
  by simp

lemma calm_reset: "calm m \<Longrightarrow> calm (\<lambda>f. m (f\<lparr>offset := n\<rparr>))"
  "calm m \<Longrightarrow> calm (\<lambda>f. m (f\<lparr>content := g (content f)\<rparr>))"
  unfolding calm_def faulty_def by fastforce+

lemma calm_write_copies: "calm (write_copies n st)"
  by (induction n) (auto intro!: calm_rules)

lemma calm_readState: "calm (readState b s)" and calm_writeState: "calm (writeState b s st)"
  and calm_readChunk: "calm (readChunk off n)" and calm_open: "calm open_data"
  unfolding readState_def writeState_def readChunk_def open_data_def
  by (auto intro!: calm_rules calm_if calm_write_copies calm_reset)

lemma calm_format: "calm (mailbox_format b)"
  unfolding mailbox_format_def Let_def case_prod_unfold
  by (intro calm_rules calm_if calm_writeState)

lemma calm_header_loop: "calm (header_loop b n block)"
  by (induction n arbitrary: block) (auto intro!: calm_rules calm_format)

lemma calm_readHeader: "calm (readHeader e)"
  unfolding readHeader_def parse_header_def Let_def
  by (intro calm_rules calm_if calm_header_loop)

lemma calm_recv_loop: "calm (recv_loop e b i n msgs al addr)"
proof (induction n arbitrary: msgs al addr)
  case 0
  then show ?case by (simp add: calm_rules)
next
  case (Suc n)
  have "calm (case r of None \<Rightarrow> recv_loop e b i n ms al' a | Some e \<Rightarrow> fail_with msg)" for r ms al' a msg
    using Suc by (cases r) (simp_all add: calm_fail)
  then show ?case
    unfolding recv_loop.simps Let_def case_prod_unfold
    by (intro calm_rules calm_if calm_readChunk)
qed

lemma calm_Send: "calm (Send e i m)"
  unfolding Send_def Let_def case_prod_unfold
  by (intro calm_rules calm_if calm_open calm_readHeader calm_readState calm_writeState)

lemma calm_Recv: "calm (Recv e i g)"
  unfolding Recv_def Let_def case_prod_unfold
  by (intro calm_rules calm_if calm_open calm_readHeader calm_readState calm_writeState
      calm_recv_loop calm_reset)

lemma mail_push_law:
  assumes "mail_holds s q" and "valid_post i m" and "mail_fit s (Payload m)"
  shows "\<exists>r s'. mail_push s i m = Some (r, s') \<and> mail_fit s' = mail_fit s \<and>
    (case r of Inl _ \<Rightarrow> mail_holds s' q \<and> \<not> room (fst s) (content (snd s))
     | Inr _ \<Rightarrow> mail_holds s' (pushed i m q))"
proof -
  obtain e f where s: "s = (e, f)" by fastforce
  note h = assms [unfolded s mail_holds_def mail_fit_def valid_post_def fst_conv snd_conv]
  from h have "runs (Send e i m) f (\<lambda>_ f'. mail_ok e (content f') (pushed i m q))
      (\<lambda>f'. content f' = content f \<and> \<not> room e (content f))"
    using runs_conseq [OF runs_Send [of e f q i m "target i m" "pushed i m q"]]
    by (auto simp: pushed_def target_def)
  then show ?thesis
  proof (cases rule: runs_cases)
    case (ok x f')
    then have "mail_holds (e, f') (pushed i m q)"
      using calm_Send h by (fastforce simp: mail_holds_def calm_def torn_ok_def)
    then show ?thesis using ok by (simp add: mail_push_def mail_fit_def s)
  next
    case (err x f')
    then have "mail_holds (e, f') q"
      using calm_Send h by (fastforce simp: mail_holds_def calm_def torn_ok_def)
    then show ?thesis using err by (simp add: mail_push_def mail_fit_def s)
  qed
qed

lemma mail_pull_law:
  assumes "mail_holds s q" and "valid_id i"
  shows "\<exists>s'. mail_pull s i = Some (Inr (messages i (q i)), s') \<and> mail_fit s' = mail_fit s \<and>
    mail_holds s' (q(i := []))"
proof -
  obtain e f where s: "s = (e, f)" by fastforce
  note h = assms [unfolded s mail_holds_def fst_conv snd_conv]
  have upd: "q(i := []) = q" if "q i = []" using that by auto
  from h have "runs (Recv e i id) f
      (\<lambda>ms f'. ms = messages i (q i) \<and> mail_ok e (content f') (q(i := []))) (\<lambda>_. False)"
    using runs_conseq [OF runs_Recv [of e f q id q i]] upd
    by (auto simp: messages_def split: if_splits)
  then show ?thesis
  proof (cases rule: runs_cases)
    case (ok x f')
    then have "mail_holds (e, f') (q(i := []))"
      using calm_Recv h by (fastforce simp: mail_holds_def calm_def torn_ok_def)
    then show ?thesis using ok by (simp add: mail_pull_def mail_fit_def s)
  qed simp
qed

interpretation mailbox: mail_service mail_holds mail_fit mail_push mail_pull
proof (unfold_locales, goal_cases)
  case (1 s q i m)
  from mail_push_law [OF this] obtain r s' where
    "mail_push s i m = Some (r, s') \<and> mail_fit s' = mail_fit s"
    "case r of Inl _ \<Rightarrow> mail_holds s' q \<and> \<not> room (fst s) (content (snd s))
     | Inr _ \<Rightarrow> mail_holds s' (pushed i m q)" by blast
  then show ?case by (cases r) auto
next
  case (2 s q j)
  then show ?case by (rule mail_pull_law)
qed

section \<open>A concrete mailbox\<close>

text \<open>
  The instance the witnesses run on: the platform's block size, a plain encoding of the four
  fields, and a blank file of 64 blocks.
\<close>

definition healthy :: "string \<Rightarrow> file_handle" where
  "healthy c = \<lparr>content = c, blockdev = False, offset = 0, faults = None, torn = (\<lambda>old new. new)\<rparr>"

definition plain_codec :: mail_env where
  "plain_codec =
     \<lparr>BlockSize = 4096,
      marshal = (\<lambda>m. Inr (le32 (mm_Next m) @ le32 (mm_Sender m) @ le32 (mm_Length m) @ mm_Payload m)),
      unmarshal = (\<lambda>s. Inr \<lparr>mm_Next = get32 s, mm_Sender = get32 (drop 4 s),
        mm_Length = get32 (drop 8 s), mm_Payload = drop 12 s\<rparr>)\<rparr>"

lemma plain_codec_ok: "env_ok plain_codec"
  by (simp add: env_ok_def plain_codec_def get32_le32_append)

lemma plain_codec_small: "length p \<le> 4080 \<Longrightarrow> small plain_codec p"
  by (auto simp: small_def plain_codec_def)

lemma healthy_simps [simp]: "content (healthy c) = c" "\<not> faulty (healthy c)" "torn_ok (healthy c)"
  by (simp_all add: healthy_def faulty_def torn_ok_def)

lemma blank_formattable: "formattable plain_codec (zeros 262144) 6"
  by (simp add: formattable_def plain_codec_def tree_bytes_def toBlocks_def)

lemma take_zeros: "n \<le> m \<Longrightarrow> take n (zeros m) = zeros n"
  by (simp add: zeros_def)

lemma runs_NewMailBox_format:
  assumes "env_ok e" and "formattable e (content f) h" and "take 16 (content f) = zeros 16"
    and "valid_id i"
  shows "runs (NewMailBox e i) f
    (\<lambda>r f'. r = i \<and> mail_ok e (content f') (\<lambda>_. []) \<and>
      (2 * (1 + 3 * toBlocks (BlockSize e) (192 + 2000 * 4 + tree_bytes h)) \<le> 2 ^ h \<longrightarrow>
        room e (content f')))
    (\<lambda>_. faulty f)"
proof (rule runs_NewMailBox [OF assms(4)])
  fix f1
  assume f1: "after f (content f) f1"
  then have c: "content f1 = content f" using afterD by blast
  show "runs (readHeader e) f1
      (\<lambda>_ f'. i = i \<and> mail_ok e (content f') (\<lambda>_. []) \<and>
        (2 * (1 + 3 * toBlocks (BlockSize e) (192 + 2000 * 4 + tree_bytes h)) \<le> 2 ^ h \<longrightarrow>
          room e (content f')))
      (\<lambda>_. faulty f)"
    by (rule runs_readHeader_format [of e f1 h]) (use assms(2,3) c afterD [OF f1] in auto)
qed

lemma calm_NewMailBox: "calm (NewMailBox e i)"
  unfolding NewMailBox_def by (intro calm_rules calm_if calm_reset calm_readHeader)

lemma opened:
  obtains f where "NewMailBox plain_codec 1 (healthy (zeros 262144)) = Some (Inr 1, f)"
    and "mail_holds (plain_codec, f) (\<lambda>_. [])" and "room plain_codec (content f)"
proof -
  have r: "2 * (1 + 3 * toBlocks (BlockSize plain_codec) (192 + 2000 * 4 + tree_bytes 6)) \<le> 2 ^ 6"
    by (simp add: plain_codec_def toBlocks_def tree_bytes_def)
  have "runs (NewMailBox plain_codec 1) (healthy (zeros 262144))
      (\<lambda>x f'. x = 1 \<and> mail_ok plain_codec (content f') (\<lambda>_. []) \<and> room plain_codec (content f'))
      (\<lambda>_. False)"
    using runs_conseq [OF runs_NewMailBox_format [OF plain_codec_ok, of "healthy (zeros 262144)" 6 1]]
      blank_formattable r by (auto simp: take_zeros valid_id_def)
  then show thesis
  proof (cases rule: runs_cases)
    case (ok x f')
    then have "mail_holds (plain_codec, f') (\<lambda>_. [])"
      using calm_NewMailBox plain_codec_ok healthy_simps
      by (fastforce simp: mail_holds_def calm_def torn_ok_def)
    then show thesis using that ok by blast
  qed simp
qed

section \<open>Properties\<close>

text \<open>C33: Opening a mailbox on a file whose first 16 bytes are zero formats it: afterwards the file
  represents 2000 empty mailboxes, and unless the device fails the call succeeds. Any file of
  a power of two of blocks that can hold the header and the state segments qualifies.\<close>

theorem NewMailBox_formats:
  assumes "env_ok e" and "formattable e (content f) h" and "take 16 (content f) = zeros 16"
    and "valid_id i"
  shows "case NewMailBox e i f of
           None \<Rightarrow> False
         | Some (Inr r, f') \<Rightarrow> r = i \<and> mail_ok e (content f') (\<lambda>_. [])
         | Some (Inl _, f') \<Rightarrow> faults f \<noteq> None"
  using runs_NewMailBox_format [OF assms]
  by (cases rule: runs_cases) (simp_all add: faulty_def)

theorem NewMailBox_formats_witness:
  "case NewMailBox plain_codec 1 (healthy (zeros 262144)) of
     None \<Rightarrow> False
   | Some (Inr r, f') \<Rightarrow> r = 1 \<and> mail_ok plain_codec (content f') (\<lambda>_. [])
   | Some (Inl _, f') \<Rightarrow> False"
proof -
  have "faults (healthy (zeros 262144)) = None" by (simp add: healthy_def)
  then show ?thesis
    using NewMailBox_formats [OF plain_codec_ok, of "healthy (zeros 262144)" 6 1] blank_formattable
    by (auto simp: take_zeros valid_id_def split: option.splits sum.splits)
qed

text \<open>C10: \<open>Send\<close> refines a push: on a healthy device, for a message that fits one block, it puts the
  message at the front of the recipient's list (0 is the sender's own) and leaves every other
  list as it is. It fails only when no block is free, and then the file is unchanged.\<close>

theorem Send_pushes:
  assumes "env_ok e" and "mail_ok e (content f) q" and "faults f = None" and "torn_ok f"
    and "valid_post i m" and "small e (Payload m)"
  shows "case Send e i m f of
           None \<Rightarrow> False
         | Some (Inr _, f') \<Rightarrow> mail_ok e (content f') (pushed i m q)
         | Some (Inl _, f') \<Rightarrow> content f' = content f \<and> \<not> room e (content f)"
proof -
  have "runs (Send e i m) f (\<lambda>_ f'. mail_ok e (content f') (pushed i m q))
      (\<lambda>f'. content f' = content f \<and> \<not> room e (content f))"
    using runs_conseq [OF runs_Send [of e f q i m "target i m" "pushed i m q"]] assms
    by (auto simp: pushed_def target_def faulty_def valid_post_def)
  then show ?thesis by (cases rule: runs_cases) simp_all
qed

abbreviation hello :: Message where
  "hello \<equiv> \<lparr>Sender = 0, Recipient = 2, Payload = ''hello''\<rparr>"

theorem Send_pushes_witness:
  "\<exists>f f'. NewMailBox plain_codec 1 (healthy (zeros 262144)) = Some (Inr 1, f) \<and>
     Send plain_codec 1 hello f = Some (Inr (), f') \<and>
     mail_ok plain_codec (content f') ((\<lambda>_. [])(2 := [(1, ''hello'')]))"
proof -
  obtain f where f: "NewMailBox plain_codec 1 (healthy (zeros 262144)) = Some (Inr 1, f)"
    "mail_holds (plain_codec, f) (\<lambda>_. [])" "room plain_codec (content f)" by (rule opened)
  have v: "valid_post 1 hello" by (simp add: valid_post_def valid_id_def)
  have "runs (Send plain_codec 1 hello) f
      (\<lambda>_ f'. mail_ok plain_codec (content f') (pushed 1 hello (\<lambda>_. [])))
      (\<lambda>f'. content f' = content f \<and> \<not> room plain_codec (content f))"
    unfolding runs_def by (rule Send_pushes)
      (use f v in \<open>simp_all add: mail_holds_def faulty_def plain_codec_small\<close>)
  then obtain u f' where "Send plain_codec 1 hello f = Some (Inr u, f')"
    "mail_ok plain_codec (content f') (pushed 1 hello (\<lambda>_. []))"
    using f(3) by (cases rule: runs_cases) auto
  then show ?thesis using f(1) by (simp add: pushed_def target_def localMailBoxID_def)
qed

text \<open>C7: \<open>Send\<close> is atomic under a crash: whatever operation the device dies in, and whatever that
  write leaves in the region it was writing, the file afterwards represents the old lists or
  the new ones, never a mixture.\<close>

theorem Send_crash_atomic:
  assumes "env_ok e" and "mail_ok e (content f) q" and "torn_ok f"
    and "valid_post i m" and "small e (Payload m)"
  shows "case Send e i m f of
           None \<Rightarrow> False
         | Some (_, f') \<Rightarrow> mail_rep e (content f') q \<or> mail_rep e (content f') (pushed i m q)"
proof -
  have "runs (Send e i m) f
      (\<lambda>_ f'. mail_rep e (content f') q \<or> mail_rep e (content f') (pushed i m q))
      (\<lambda>f'. mail_rep e (content f') q \<or> mail_rep e (content f') (pushed i m q))"
    using runs_conseq [OF runs_Send [of e f q i m "target i m" "pushed i m q"]] assms mail_ok_rep
    by (auto simp: pushed_def target_def valid_post_def)
  then show ?thesis by (cases rule: runs_cases) simp_all
qed

theorem Send_crash_atomic_witness:
  "\<exists>f. NewMailBox plain_codec 1 (healthy (zeros 262144)) = Some (Inr 1, f) \<and>
     (case Send plain_codec 1 hello (f\<lparr>faults := Some 5, torn := \<lambda>old new. zeros (length new)\<rparr>) of
        None \<Rightarrow> False
      | Some (_, f') \<Rightarrow> mail_rep plain_codec (content f') (\<lambda>_. []) \<or>
          mail_rep plain_codec (content f') (pushed 1 hello (\<lambda>_. [])))"
proof -
  obtain f where f: "NewMailBox plain_codec 1 (healthy (zeros 262144)) = Some (Inr 1, f)"
    "mail_holds (plain_codec, f) (\<lambda>_. [])" by (rule opened)
  have v: "valid_post 1 hello" by (simp add: valid_post_def valid_id_def)
  have t: "torn_ok (f\<lparr>faults := Some 5, torn := \<lambda>old new. zeros (length new)\<rparr>)"
    by (simp add: torn_ok_def)
  show ?thesis
    using f Send_crash_atomic [OF plain_codec_ok _ t v] by (auto simp: mail_holds_def plain_codec_small)
qed

text \<open>C11: \<open>Recv\<close> empties the own mailbox: on a healthy device it returns all messages waiting when it
  holds the lock, newest first, and removes exactly those; what the other hosts did between
  its unlocked look and the lock is taken into account. With an empty mailbox it returns
  nothing and writes nothing. It always returns.\<close>

theorem Recv_empties:
  assumes "mail_ok e (content f) q" and "mail_ok e (meanwhile (content f)) q2"
    and "faults f = None" and "torn_ok f" and "valid_id i"
  shows "case Recv e i meanwhile f of
           Some (Inr ms, f') \<Rightarrow>
             if q i = [] then ms = [] \<and> content f' = content f
             else ms = messages i (q2 i) \<and> mail_ok e (content f') (q2(i := []))
         | _ \<Rightarrow> False"
  using runs_Recv [of e f q meanwhile q2 i] assms
  by (auto simp: faulty_def elim!: runs_cases)

theorem Recv_empties_witness:
  "\<exists>f f1 f2. NewMailBox plain_codec 1 (healthy (zeros 262144)) = Some (Inr 1, f) \<and>
     Send plain_codec 1 hello f = Some (Inr (), f1) \<and>
     Recv plain_codec 2 id f1 = Some (Inr [\<lparr>Sender = 1, Recipient = 2, Payload = ''hello''\<rparr>], f2)"
proof -
  obtain f where f: "NewMailBox plain_codec 1 (healthy (zeros 262144)) = Some (Inr 1, f)"
    "mail_holds (plain_codec, f) (\<lambda>_. [])" "room plain_codec (content f)" by (rule opened)
  have v: "valid_post 1 hello" "mail_fit (plain_codec, f) (Payload hello)"
    by (simp_all add: valid_post_def valid_id_def mail_fit_def plain_codec_small)
  from mail_push_law [OF f(2) v, unfolded fst_conv snd_conv] obtain r s1 where p: "mail_push (plain_codec, f) 1 hello = Some (r, s1)"
    "case r of Inl _ \<Rightarrow> mail_holds s1 (\<lambda>_. []) \<and> \<not> room plain_codec (content f)
     | Inr _ \<Rightarrow> mail_holds s1 (pushed 1 hello (\<lambda>_. []))" by blast
  from p(2) f(3) obtain u where "r = Inr u" "mail_holds s1 (pushed 1 hello (\<lambda>_. []))"
    by (cases r) auto
  with p(1) obtain f1 where f1: "Send plain_codec 1 hello f = Some (Inr u, f1)"
    "mail_holds (plain_codec, f1) (pushed 1 hello (\<lambda>_. []))"
    by (auto simp: mail_push_def)
  have v2: "valid_id 2" by (simp add: valid_id_def)
  have q: "pushed 1 hello (\<lambda>_. []) 2 = [(1, ''hello'')]"
    by (simp add: pushed_def target_def localMailBoxID_def)
  have "runs (Recv plain_codec 2 id) f1
      (\<lambda>ms f'. if pushed 1 hello (\<lambda>_. []) 2 = [] then ms = [] \<and> content f' = content f1
         else ms = messages 2 (pushed 1 hello (\<lambda>_. []) 2) \<and>
           mail_ok plain_codec (content f') ((pushed 1 hello (\<lambda>_. []))(2 := []))) (\<lambda>_. False)"
    unfolding runs_def using f1(2) v2
    by (intro Recv_empties) (simp_all add: mail_holds_def faulty_def)
  then obtain f2 where "Recv plain_codec 2 id f1 = Some (Inr (messages 2 [(1, ''hello'')]), f2)"
    unfolding q by (cases rule: runs_cases) auto
  then show ?thesis using f(1) f1(1) by (simp add: messages_def)
qed

text \<open>C8: \<open>Recv\<close> is atomic under a crash: a failure anywhere leaves a file that represents the lists
  before the call or the lists with the own mailbox emptied.\<close>

theorem Recv_crash_atomic:
  assumes "mail_ok e (content f) q" and "torn_ok f" and "valid_id i"
  shows "case Recv e i id f of
           None \<Rightarrow> False
         | Some (_, f') \<Rightarrow> mail_rep e (content f') q \<or> mail_rep e (content f') (q(i := []))"
proof -
  have "runs (Recv e i id) f
      (\<lambda>_ f'. mail_rep e (content f') q \<or> mail_rep e (content f') (q(i := [])))
      (\<lambda>f'. mail_rep e (content f') q \<or> mail_rep e (content f') (q(i := [])))"
  proof (rule runs_conseq [OF runs_Recv [of e f q id q i]], goal_cases)
    case (5 ms f')
    then show ?case using assms(1) mail_ok_rep by (auto split: if_splits)
  next
    case (6 f')
    then show ?case using assms(1) mail_ok_rep by auto
  qed (use assms in auto)
  then show ?thesis by (cases rule: runs_cases) simp_all
qed

theorem Recv_crash_atomic_witness:
  "\<exists>f. NewMailBox plain_codec 1 (healthy (zeros 262144)) = Some (Inr 1, f) \<and>
     (case Recv plain_codec 1 id (f\<lparr>faults := Some 2\<rparr>) of
        None \<Rightarrow> False
      | Some (_, f') \<Rightarrow> mail_rep plain_codec (content f') (\<lambda>_. []))"
proof -
  obtain f where f: "NewMailBox plain_codec 1 (healthy (zeros 262144)) = Some (Inr 1, f)"
    "mail_holds (plain_codec, f) (\<lambda>_. [])" by (rule opened)
  have "torn_ok (f\<lparr>faults := Some 2\<rparr>)" using f(2) by (simp add: mail_holds_def torn_ok_def)
  then have "case Recv plain_codec 1 id (f\<lparr>faults := Some 2\<rparr>) of
           None \<Rightarrow> False
         | Some (_, f') \<Rightarrow> mail_rep plain_codec (content f') (\<lambda>_. []) \<or>
             mail_rep plain_codec (content f') ((\<lambda>_. [])(1 := []))"
    using f(2) by (intro Recv_crash_atomic) (simp_all add: mail_holds_def valid_id_def)
  moreover have "(\<lambda>_. [])(k := []) = (\<lambda>_. [] :: (nat \<times> string) list)" for k :: nat by auto
  ultimately show ?thesis using f(1) by (auto split: option.splits)
qed



text \<open>What a later, undisturbed \<open>readState\<close> finds.\<close>

definition read_back :: "nat \<Rightarrow> nat \<Rightarrow> string \<Rightarrow> (go_error + string) option" where
  "read_back bSize sSize c = map_option fst (readState bSize sSize (healthy c))"

lemma read_back_current:
  assumes "bSize + 3 * sSize \<le> length c"
  shows "read_back bSize sSize c = Some (Inr (current bSize sSize c))"
proof -
  have "runs (readState bSize sSize) (healthy c) (\<lambda>x _. x = current bSize sSize c) (\<lambda>_. False)"
    by (rule runs_readState) (use assms in auto)
  then show ?thesis by (cases rule: runs_cases) (simp_all add: read_back_def)
qed

text \<open>C9: The three-copy protocol: if the copies agree and a \<open>writeState\<close> is cut short anywhere, a
  later \<open>readState\<close> finds the old state or the new one; if it completes, it finds the new one and
  the copies agree again.\<close>

theorem writeState_atomic:
  assumes "bSize + 3 * sSize \<le> length (content f)" and "length st = sSize" and "torn_ok f"
    and "settled bSize sSize (content f)"
  shows "case writeState bSize sSize st f of
           None \<Rightarrow> False
         | Some (Inr _, f') \<Rightarrow>
             read_back bSize sSize (content f') = Some (Inr st) \<and> settled bSize sSize (content f')
         | Some (Inl _, f') \<Rightarrow>
             read_back bSize sSize (content f') \<in> {read_back bSize sSize (content f), Some (Inr st)}"
proof -
  have "runs (writeState bSize sSize st) f
      (\<lambda>_ f'. read_back bSize sSize (content f') = Some (Inr st) \<and> settled bSize sSize (content f'))
      (\<lambda>f'. read_back bSize sSize (content f') \<in> {read_back bSize sSize (content f), Some (Inr st)})"
  proof (rule runs_writeState [OF assms(2)])
    fix f'
    assume "after f (cut bSize sSize 2 st st (content f)) f'"
    then have "content f' = cut bSize sSize 2 st st (content f)" using afterD by blast
    then show "read_back bSize sSize (content f') = Some (Inr st) \<and> settled bSize sSize (content f')"
      using current_written [OF assms(1,2)] length_cut [OF assms(1,2,2), of 2] assms(1)
      by (simp add: read_back_current)
  next
    fix n old f'
    assume n: "n < 3" "after f (cut bSize sSize n (torn f old st) st (content f)) f'"
    have l: "length (torn f old st) = sSize" using assms(2,3) by (simp add: torn_ok_def)
    have "content f' = cut bSize sSize n (torn f old st) st (content f)" using n(2) afterD by blast
    then show "read_back bSize sSize (content f') \<in> {read_back bSize sSize (content f), Some (Inr st)}"
      using current_cut [OF assms(1,2) l n(1) assms(4)] length_cut [OF assms(1,2) l n(1)] assms(1)
      by (auto simp: read_back_current)
  qed
  then show ?thesis by (cases rule: runs_cases) simp_all
qed

abbreviation half_torn :: "string \<Rightarrow> nat \<Rightarrow> file_handle" where
  "half_torn c n \<equiv> \<lparr>content = c, blockdev = False, offset = 0, faults = Some n,
     torn = (\<lambda>old new. take 1 new @ drop 1 old)\<rparr>"

theorem writeState_atomic_witness:
  "case writeState 1 2 ''BB'' \<lparr>content = ''hAAAAAA'', blockdev = False, offset = 0, faults = Some 1,
       torn = (\<lambda>old new. replicate (length new) CHR ''x'')\<rparr> of
     None \<Rightarrow> False
   | Some (Inr _, f') \<Rightarrow> False
   | Some (Inl _, f') \<Rightarrow> read_back 1 2 (content f') = Some (Inr ''AA'')"
  using writeState_atomic [of 1 2 "\<lparr>content = ''hAAAAAA'', blockdev = False, offset = 0, faults = Some 1,
       torn = (\<lambda>old new. replicate (length new) CHR ''x'')\<rparr>" "''BB''"]
  by (simp add: torn_ok_def settled_def copy_def slice_def writeState_def numeral_3_eq_3 numeral_2_eq_2
      check_def seek_def write_file_def tick_def overwrite_def zeros_def read_back_def healthy_def
      readState_def read_full_def return_ok_def)


lemma runs_error:
  assumes "runs m f (\<lambda>_ _. False) E"
  obtains err f' where "m f = Some (Inl err, f')" and "E f'"
  using assms by (cases rule: runs_cases) auto

lemma chunk_prefix: "4 + length buf \<le> n \<Longrightarrow> 4 \<le> m \<Longrightarrow> take 4 (take m (chunk n buf)) = le32 (length buf)"
  by (simp add: chunk_def overwrite_def min_def)

lemma toBlocks_fit:
  assumes "4 \<le> bS"
  shows "n \<le> toBlocks bS n * bS"
proof -
  have "(n - 1) mod bS < bS" using assms by simp
  then have "n - 1 < (n - 1) div bS * bS + bS"
    using div_mult_mod_eq [of "n - 1" bS] by linarith
  then show ?thesis by (simp add: toBlocks_def)
qed

lemma stored_chunk:
  assumes "slice p n c = chunk n buf" and "0 < n" and "4 + length buf \<le> n"
  shows "p + n \<le> length c" and "k \<le> n \<Longrightarrow> slice p k c = take k (chunk n buf)"
proof -
  have "length (slice p n c) = n" unfolding assms(1) by (rule length_chunk [OF assms(3)])
  then show "p + n \<le> length c" using assms(2) by (auto simp: length_slice min_def split: if_splits)
  show "slice p k c = take k (chunk n buf)" if "k \<le> n"
    unfolding assms(1) [symmetric] using that by (simp add: slice_def min_def)
qed



end
