(* ===== verification/GoRegexp.thy ===== *)
theory GoRegexp
  imports Prelude
begin

text \<open>
  The fragment of Go's \<^verbatim>\<open>regexp\<close> that the source uses: character classes, concatenation,
  alternation, repetition, the anchors \<open>^\<close> and \<open>$\<close>, and the flags \<^verbatim>\<open>(?mi)\<close>. The matcher works by
  derivatives and is executable; \<open>lang\<close> is the specification it is proved against.
\<close>

section \<open>Expressions and their language\<close>

datatype re =
    Nothing
  | Empty
  | Cls "char \<Rightarrow> bool"
  | Cat re re
  | Or re re
  | Many re

inductive lang :: "re \<Rightarrow> string \<Rightarrow> bool" where
  lang_Empty: "lang Empty []"
| lang_Cls: "p c \<Longrightarrow> lang (Cls p) [c]"
| lang_Cat: "lang r xs \<Longrightarrow> lang s ys \<Longrightarrow> lang (Cat r s) (xs @ ys)"
| lang_Or1: "lang r xs \<Longrightarrow> lang (Or r s) xs"
| lang_Or2: "lang s xs \<Longrightarrow> lang (Or r s) xs"
| lang_Many0: "lang (Many r) []"
| lang_Many1: "lang r xs \<Longrightarrow> lang (Many r) ys \<Longrightarrow> lang (Many r) (xs @ ys)"

inductive_simps lang_simps [simp]:
  "lang Nothing xs" "lang Empty xs" "lang (Cls p) xs" "lang (Or r s) xs"

inductive_cases lang_CatE: "lang (Cat r s) xs"

definition Plus :: "re \<Rightarrow> re" where
  "Plus r = Cat r (Many r)"

definition Lit :: "string \<Rightarrow> re" where
  "Lit s = foldr (\<lambda>c. Cat (Cls (\<lambda>d. d = c))) s Empty"

section \<open>Matching by derivatives\<close>

fun nullable :: "re \<Rightarrow> bool" where
  "nullable Nothing = False"
| "nullable Empty = True"
| "nullable (Cls p) = False"
| "nullable (Cat r s) = (nullable r \<and> nullable s)"
| "nullable (Or r s) = (nullable r \<or> nullable s)"
| "nullable (Many r) = True"

fun deriv :: "char \<Rightarrow> re \<Rightarrow> re" where
  "deriv c Nothing = Nothing"
| "deriv c Empty = Nothing"
| "deriv c (Cls p) = (if p c then Empty else Nothing)"
| "deriv c (Cat r s) =
     (if nullable r then Or (Cat (deriv c r) s) (deriv c s) else Cat (deriv c r) s)"
| "deriv c (Or r s) = Or (deriv c r) (deriv c s)"
| "deriv c (Many r) = Cat (deriv c r) (Many r)"

text \<open>\<open>full_match\<close>: an expression anchored at both ends; \<open>prefix_match\<close>: at the start only.\<close>

fun full_match :: "re \<Rightarrow> string \<Rightarrow> bool" where
  "full_match r [] = nullable r"
| "full_match r (c # cs) = full_match (deriv c r) cs"

fun prefix_match :: "re \<Rightarrow> string \<Rightarrow> bool" where
  "prefix_match r [] = nullable r"
| "prefix_match r (c # cs) = (nullable r \<or> prefix_match (deriv c r) cs)"

text \<open>
  \<^verbatim>\<open>(?mi)^...\<close>: case-insensitive, anchored at the start of any line. The expression is
  given in lower case and the text is folded.
\<close>

definition fold_case :: "char \<Rightarrow> char" where
  "fold_case c =
     (let n = of_char c :: nat in if 65 \<le> n \<and> n \<le> 90 then char_of (n + 32) else c)"

fun match_at_lines :: "re \<Rightarrow> bool \<Rightarrow> string \<Rightarrow> bool" where
  "match_at_lines r start [] = (start \<and> nullable r)"
| "match_at_lines r start (c # cs) =
     (start \<and> prefix_match r (c # cs) \<or> match_at_lines r (c = CHR 0x0A) cs)"

definition match_mi :: "re \<Rightarrow> string \<Rightarrow> bool" where
  "match_mi r s = match_at_lines r True (map fold_case s)"

section \<open>Correctness of the matcher\<close>

lemma lang_Cat_iff: "lang (Cat r s) xs \<longleftrightarrow> (\<exists>u v. xs = u @ v \<and> lang r u \<and> lang s v)"
proof
  assume "lang (Cat r s) xs"
  then show "\<exists>u v. xs = u @ v \<and> lang r u \<and> lang s v" by (rule lang_CatE) blast
qed (auto intro: lang_Cat)

lemma lang_Many_iff:
  "lang (Many r) xs \<longleftrightarrow> xs = [] \<or> (\<exists>u v. xs = u @ v \<and> lang r u \<and> lang (Many r) v)"
  by (subst lang.simps) auto

lemma nullable_iff: "nullable r \<longleftrightarrow> lang r []"
proof (induction r)
  case (Cat r s)
  then show ?case by (simp add: lang_Cat_iff)
next
  case (Many r)
  then show ?case by (simp add: lang_Many0)
qed simp_all

lemma lang_Many_Cons:
  "lang (Many r) xs \<Longrightarrow> xs = c # cs \<Longrightarrow>
   \<exists>u v. cs = u @ v \<and> lang r (c # u) \<and> lang (Many r) v"
proof (induction "Many r" xs rule: lang.induct)
  case (lang_Many1 xs ys)
  then show ?case by (cases xs) auto
qed simp

lemma lang_deriv: "lang (deriv c r) cs \<longleftrightarrow> lang r (c # cs)"
proof (induction r arbitrary: cs)
  case (Cat r s)
  have "lang (Cat r s) (c # cs) \<longleftrightarrow>
        (\<exists>u v. cs = u @ v \<and> lang r (c # u) \<and> lang s v) \<or> (lang r [] \<and> lang s (c # cs))"
    by (simp add: lang_Cat_iff Cons_eq_append_conv) blast
  with Cat show ?case by (simp add: lang_Cat_iff nullable_iff)
next
  case (Many r)
  have "lang (Many r) (c # cs) \<longleftrightarrow> (\<exists>u v. cs = u @ v \<and> lang r (c # u) \<and> lang (Many r) v)"
    using lang_Many_Cons by (metis append_Cons lang_Many1)
  with Many show ?case by (simp add: lang_Cat_iff)
qed auto

lemma full_match_lang: "full_match r s \<longleftrightarrow> lang r s"
  by (induction s arbitrary: r) (simp_all add: nullable_iff lang_deriv)

lemma prefix_match_lang: "prefix_match r s \<longleftrightarrow> (\<exists>u v. s = u @ v \<and> lang r u)"
proof (induction s arbitrary: r)
  case (Cons c cs)
  then show ?case by (auto simp: nullable_iff lang_deriv Cons_eq_append_conv)
qed (simp add: nullable_iff)

lemma cls_split:
  "(\<exists>u v. s = u @ v \<and> lang (Cls p) u \<and> P v) \<longleftrightarrow> (\<exists>c cs. s = c # cs \<and> p c \<and> P cs)"
proof
  assume "\<exists>c cs. s = c # cs \<and> p c \<and> P cs"
  then obtain c cs where "s = [c] @ cs" "lang (Cls p) [c]" "P cs" by (auto intro: lang_Cls)
  then show "\<exists>u v. s = u @ v \<and> lang (Cls p) u \<and> P v" by blast
qed auto

lemma lang_Many_Cls: "lang (Many (Cls p)) s \<longleftrightarrow> list_all p s"
proof (induction s)
  case (Cons c cs)
  have "lang (Many (Cls p)) (c # cs) \<longleftrightarrow> p c \<and> lang (Many (Cls p)) cs"
    unfolding lang_Many_iff [of "Cls p" "c # cs"] cls_split by simp
  with Cons show ?case by simp
qed (simp add: lang_Many0)

lemma lang_Cat_Cls: "lang (Cat (Cls p) r) s \<longleftrightarrow> (\<exists>c cs. s = c # cs \<and> p c \<and> lang r cs)"
  unfolding lang_Cat_iff cls_split ..

lemma lang_Plus_Cls: "lang (Plus (Cls p)) s \<longleftrightarrow> s \<noteq> [] \<and> list_all p s"
  by (cases s) (auto simp: Plus_def lang_Cat_Cls lang_Many_Cls)

lemma lang_Lit: "lang (Lit l) s \<longleftrightarrow> s = l"
  by (induction l arbitrary: s) (auto simp: Lit_def lang_Cat_Cls)

end
