(* ===== verification/GoStrings.thy ===== *)
theory GoStrings
  imports Prelude
begin

text \<open>
  The functions of Go's \<^verbatim>\<open>strings\<close> and \<^verbatim>\<open>strconv\<close> the source uses, on byte strings, with their
  round trips: \<open>split_on\<close> and \<open>join_with\<close> for \<^verbatim>\<open>strings.Split\<close> and \<^verbatim>\<open>strings.Join\<close>, \<open>decimal\<close>
  for \<^verbatim>\<open>strconv.Itoa\<close> and \<^verbatim>\<open>%d\<close>, \<open>atoi\<close> for \<^verbatim>\<open>strconv.Atoi\<close>.
\<close>

section \<open>Split and join\<close>

text \<open>\<^verbatim>\<open>strings.Split\<close> with a one-character separator.\<close>

fun split_on :: "char \<Rightarrow> string \<Rightarrow> string list" where
  "split_on c [] = [[]]"
| "split_on c (b # bs) =
     (if b = c then [] # split_on c bs
      else case split_on c bs of t # ts \<Rightarrow> (b # t) # ts | [] \<Rightarrow> [[b]])"

fun join_with :: "string \<Rightarrow> string list \<Rightarrow> string" where
  "join_with sep [] = []"
| "join_with sep [x] = x"
| "join_with sep (x # y # zs) = x @ sep @ join_with sep (y # zs)"

lemma split_on_none: "c \<notin> set s \<Longrightarrow> split_on c s = [s]"
  by (induction s) auto

lemma split_on_append: "c \<notin> set s \<Longrightarrow> split_on c (s @ c # t) = s # split_on c t"
  by (induction s) auto

lemma split_on_not_Nil: "split_on c s \<noteq> []"
  by (induction s) (auto split: list.split)

lemma split_on_two: "split_on c s = [a, b] \<Longrightarrow> s = a @ c # b \<and> c \<notin> set a \<and> c \<notin> set b"
proof (induction s arbitrary: a b)
  case (Cons x xs)
  have one: "split_on c ys = [t] \<Longrightarrow> ys = t \<and> c \<notin> set t" for ys t
  proof (induction ys arbitrary: t)
    case (Cons y ys)
    then show ?case using split_on_not_Nil [of c ys] by (auto split: if_splits list.splits)
  qed simp
  show ?case
    using Cons one split_on_not_Nil [of c xs] by (auto split: if_splits list.splits)
qed simp

lemma split_join:
  "xs \<noteq> [] \<Longrightarrow> \<forall>x \<in> set xs. c \<notin> set x \<Longrightarrow> split_on c (join_with [c] xs) = xs"
  by (induction "[c]" xs rule: join_with.induct) (simp_all add: split_on_none split_on_append)

lemma join_eq_Nil: "join_with sep xs = [] \<Longrightarrow> sep \<noteq> [] \<Longrightarrow> xs = [] \<or> xs = [[]]"
  by (induction sep xs rule: join_with.induct) auto

section \<open>Decimal numbers\<close>

definition digit :: "nat \<Rightarrow> char" where
  "digit d = char_of (48 + d)"

fun decimal :: "nat \<Rightarrow> string" where
  "decimal n = (if n < 10 then [digit n] else decimal (n div 10) @ [digit (n mod 10)])"

declare decimal.simps [simp del]

definition digit_value :: "char \<Rightarrow> nat option" where
  "digit_value c =
     (let n = of_char c :: nat in if 48 \<le> n \<and> n \<le> 57 then Some (n - 48) else None)"

fun digits_value :: "nat \<Rightarrow> string \<Rightarrow> nat option" where
  "digits_value acc [] = Some acc"
| "digits_value acc (c # cs) =
     (case digit_value c of None \<Rightarrow> None | Some d \<Rightarrow> digits_value (10 * acc + d) cs)"

text \<open>\<^verbatim>\<open>strconv.Atoi\<close>: an optional sign and at least one digit, in the range of a 64-bit integer.\<close>

definition atoi :: "string \<Rightarrow> int option" where
  "atoi s =
     (let neg = (take 1 s = ''-''); body = (if take 1 s \<in> {''-'', ''+''} then drop 1 s else s) in
      if body = [] then None
      else case digits_value 0 body of
        None \<Rightarrow> None
      | Some n \<Rightarrow>
          let v = (if neg then - int n else int n) in
          if - (2 ^ 63) \<le> v \<and> v < 2 ^ 63 then Some v else None)"

lemma digit_value_digit: "d < 10 \<Longrightarrow> digit_value (digit d) = Some d"
  by (simp add: digit_value_def digit_def)

lemma digits_value_append:
  "digits_value acc (xs @ ys) =
     (case digits_value acc xs of None \<Rightarrow> None | Some n \<Rightarrow> digits_value n ys)"
  by (induction xs arbitrary: acc) (auto split: option.splits)

lemma decimal_not_Nil: "decimal n \<noteq> []"
  by (simp add: decimal.simps [of n])

lemma digits_value_decimal: "digits_value 0 (decimal n) = Some n"
proof (induction n rule: decimal.induct)
  case (1 n)
  show ?case
  proof (cases "n < 10")
    case True
    then show ?thesis by (simp add: decimal.simps [of n] digit_value_digit)
  next
    case False
    then show ?thesis
      using 1 by (simp add: decimal.simps [of n] digits_value_append digit_value_digit)
  qed
qed

lemma decimal_inj: "decimal m = decimal n \<longleftrightarrow> m = n"
  by (metis digits_value_decimal option.inject)

lemma digit_eq_table: "list_all (\<lambda>d. digit d \<in> set ''0123456789'') [0..<10]"
  by code_simp

lemma digit_chars: "d < 10 \<Longrightarrow> digit d \<in> set ''0123456789''"
  using digit_eq_table by (simp only: list_all_iff set_upt atLeastLessThan_iff) simp

lemma decimal_chars: "c \<in> set (decimal n) \<Longrightarrow> c \<in> set ''0123456789''"
proof (induction n rule: decimal.induct)
  case (1 n)
  have "n mod 10 < 10" by simp
  then show ?case
    using 1 digit_chars [of "n mod 10"] digit_chars [of n] decimal.simps [of n]
    by (cases "n < 10") (auto simp only: if_True if_False set_append Un_iff list.set insert_iff empty_iff)
qed

lemma atoi_decimal:
  assumes "n < 2 ^ 63"
  shows "atoi (decimal n) = Some (int n)"
proof -
  obtain c cs where d: "decimal n = c # cs" using decimal_not_Nil by (cases "decimal n") auto
  then have "c \<in> set ''0123456789''" by (intro decimal_chars [of _ n]) (simp only: list.set_intros)
  then have "[c] \<noteq> ''-''" "[c] \<noteq> ''+''" by auto
  moreover have "int n < 2 ^ 63" using assms by (metis of_nat_less_iff of_nat_numeral of_nat_power)
  ultimately show ?thesis
    using digits_value_decimal [of n] by (auto simp: atoi_def d Let_def)
qed

end
