(* ===== verification/TagEncoder.thy ===== *)
theory TagEncoder
  imports Prelude
begin

text \<open>
  \<^verbatim>\<open>pkg/driverd/tagencoder.go\<close>: the escaping of arbitrary byte strings into the characters
  LVM accepts in a tag. A plain byte stands for itself, any other byte is written as
  \<open>&\<close> and two hexadecimal digits.
\<close>

unbundle bit_operations_syntax

section \<open>The code\<close>

definition in_range :: "char \<Rightarrow> char \<Rightarrow> char \<Rightarrow> bool" where
  "in_range lo hi b \<longleftrightarrow> (of_char lo :: nat) \<le> of_char b \<and> (of_char b :: nat) \<le> of_char hi"

definition isPlain :: "char \<Rightarrow> nat \<Rightarrow> bool" where
  "isPlain b pos \<longleftrightarrow>
     in_range CHR ''a'' CHR ''z'' b \<or>
     in_range CHR ''A'' CHR ''Z'' b \<or>
     in_range CHR ''0'' CHR ''9'' b \<or>
     b = CHR ''_'' \<or>
     b = CHR ''+'' \<or>
     b = CHR ''.'' \<or>
     (b = CHR ''-'' \<and> pos > 0) \<or>
     b = CHR ''/'' \<or>
     b = CHR ''='' \<or>
     b = CHR ''!'' \<or>
     b = CHR '':'' \<or>
     b = CHR ''#''"

definition hexDecode :: "char \<Rightarrow> go_error + nat" where
  "hexDecode hex =
     (if in_range CHR ''0'' CHR ''9'' hex then Inr (of_char hex - 48)
      else if in_range CHR ''A'' CHR ''F'' hex then Inr (of_char hex - 65 + 10)
      else if in_range CHR ''a'' CHR ''f'' hex then Inr (of_char hex - 97 + 10)
      else Inl (Plain ''invalid hexadecimal sequence''))"

text \<open>\<^verbatim>\<open>fmt.Sprintf("%2x", b)\<close>: lower-case hexadecimal, padded to two columns with a \<^emph>\<open>space\<close>.\<close>

definition hex_digit :: "nat \<Rightarrow> char" where
  "hex_digit n = char_of (if n < 10 then n + 48 else n - 10 + 97)"

definition sprintf_2x :: "nat \<Rightarrow> string" where
  "sprintf_2x b =
     (if b < 16 then [CHR '' '', hex_digit b] else [hex_digit (b div 16), hex_digit (b mod 16)])"

fun encode_from :: "nat \<Rightarrow> string \<Rightarrow> string" where
  "encode_from i [] = []"
| "encode_from i (b # bs) =
     (if isPlain b i then [b] else CHR ''&'' # sprintf_2x (of_char b)) @ encode_from (Suc i) bs"

definition encodeTag :: "string \<Rightarrow> string" where
  "encodeTag value = encode_from 0 value"

datatype quote_state = Normal | Quote1 | Quote2

text \<open>
  The loop of \<^verbatim>\<open>decodeTag\<close>: byte index, \<^verbatim>\<open>qState\<close>, \<^verbatim>\<open>qValue\<close>, the bytes written so far and the
  bytes still to read.
\<close>

fun decode_loop :: "nat \<Rightarrow> quote_state \<Rightarrow> nat \<Rightarrow> string \<Rightarrow> string \<Rightarrow> go_error + string" where
  "decode_loop i qState qValue sb [] =
     (if qState \<noteq> Normal then Inl (Plain ''encoded tag contains truncated quote sequence'')
      else Inr sb)"
| "decode_loop i qState qValue sb (b # bs) =
     (if qState \<noteq> Normal then
        (case hexDecode b of
           Inl _ \<Rightarrow> Inl (Plain ''encoded tag contains invalid quote sequence'')
         | Inr v \<Rightarrow>
             if qState = Quote1 then decode_loop (Suc i) Quote2 (push_bit 4 v mod 256) sb bs
             else decode_loop (Suc i) Normal 0 (sb @ [char_of (qValue OR v)]) bs)
      else if b = CHR ''&'' then decode_loop (Suc i) Quote1 qValue sb bs
      else if isPlain b i then decode_loop (Suc i) Normal qValue (sb @ [b]) bs
      else Inl (Plain ''encoded tag contains an invalid character''))"

definition decodeTag :: "string \<Rightarrow> go_error + string" where
  "decodeTag encodedTag = decode_loop 0 Normal 0 [] encodedTag"

section \<open>Lemmas\<close>

text \<open>The bytes \<open>%2x\<close> writes with two hexadecimal digits.\<close>

definition two_digits :: "char \<Rightarrow> bool" where
  "two_digits b \<longleftrightarrow> 16 \<le> (of_char b :: nat)"

lemma hex_digit_table: "list_all (\<lambda>n. hexDecode (hex_digit n) = Inr n) [0..<16]"
  by code_simp

lemma hexDecode_hex_digit: "n < 16 \<Longrightarrow> hexDecode (hex_digit n) = Inr n"
  using hex_digit_table by (simp only: list_all_iff set_upt atLeastLessThan_iff) simp

lemma quote_value_table:
  "list_all (\<lambda>a. list_all (\<lambda>b. (push_bit 4 a mod 256) OR b = 16 * a + b) [0..<16]) [0..<16::nat]"
  by code_simp

lemma quote_value:
  assumes "a < 16" and "b < 16"
  shows "(push_bit 4 a mod 256) OR b = 16 * a + (b::nat)"
  using quote_value_table assms by (simp only: list_all_iff set_upt atLeastLessThan_iff) simp

lemma amp_not_plain: "\<not> isPlain CHR ''&'' i"
  by (simp add: isPlain_def in_range_def)

lemma plain_two_digits: "isPlain b i \<Longrightarrow> two_digits b"
  by (auto simp: isPlain_def in_range_def two_digits_def)

lemma isPlain_index: "(0 < i \<longleftrightarrow> 0 < j) \<Longrightarrow> isPlain b i = isPlain b j"
  by (simp add: isPlain_def)

lemma space_not_hex: "hexDecode CHR '' '' = Inl (Plain ''invalid hexadecimal sequence'')"
  by (simp add: hexDecode_def in_range_def)

lemma decode_quoted:
  assumes "two_digits b"
  shows "decode_loop j Quote1 q sb (sprintf_2x (of_char b) @ rest) =
         decode_loop (Suc (Suc j)) Normal 0 (sb @ [b]) rest"
proof -
  let ?n = "of_char b :: nat"
  have d: "?n div 16 < 16" by (rule less_mult_imp_div_less) (simp add: nat_of_char_less_256)
  have m: "?n mod 16 < 16" by simp
  have "(push_bit 4 (?n div 16) mod 256) OR (?n mod 16) = ?n"
    using quote_value[OF d m] by (simp only: mult_div_mod_eq)
  with d m show ?thesis
    using assms by (simp add: sprintf_2x_def two_digits_def hexDecode_hex_digit)
qed

lemma decode_encode_loop:
  assumes "0 < i \<longleftrightarrow> 0 < j" and "\<forall>b \<in> set bs. two_digits b"
  shows "decode_loop j Normal q sb (encode_from i bs) = Inr (sb @ bs)"
  using assms
proof (induction bs arbitrary: i j q sb)
  case (Cons b bs)
  show ?case
  proof (cases "isPlain b i")
    case True
    then have "isPlain b j" "b \<noteq> CHR ''&''"
      using isPlain_index[OF Cons.prems(1)] amp_not_plain by auto
    with True Cons show ?thesis by simp
  next
    case False
    have "two_digits b" using Cons.prems(2) by simp
    with decode_quoted False Cons show ?thesis by simp
  qed
qed simp

lemma decode_encode_loop_fails:
  assumes "0 < i \<longleftrightarrow> 0 < j" and "\<exists>b \<in> set bs. \<not> two_digits b"
  shows "decode_loop j Normal q sb (encode_from i bs) =
         Inl (Plain ''encoded tag contains invalid quote sequence'')"
  using assms
proof (induction bs arbitrary: i j q sb)
  case (Cons b bs)
  show ?case
  proof (cases "isPlain b i")
    case True
    then have "isPlain b j" "b \<noteq> CHR ''&''" "two_digits b"
      using isPlain_index[OF Cons.prems(1)] amp_not_plain plain_two_digits by auto
    with True Cons show ?thesis by auto
  next
    case False
    show ?thesis
    proof (cases "two_digits b")
      case True
      with decode_quoted False Cons show ?thesis by auto
    next
      case nope: False
      then have "sprintf_2x (of_char b) = [CHR '' '', hex_digit (of_char b)]"
        by (simp add: sprintf_2x_def two_digits_def)
      with False space_not_hex show ?thesis by simp
    qed
  qed
qed simp

lemma encode_from_append:
  "encode_from i (xs @ ys) = encode_from i xs @ encode_from (i + length xs) ys"
  by (induction xs arbitrary: i) simp_all

lemma encode_from_positive: "0 < i \<Longrightarrow> encode_from i bs = encode_from 1 bs"
proof (induction bs arbitrary: i)
  case (Cons b bs)
  have "isPlain b i = isPlain b 1" by (rule isPlain_index) (use Cons.prems in simp)
  with Cons.IH[of "Suc i"] Cons.IH[of 2] show ?case by (simp add: numeral_2_eq_2)
qed simp

section \<open>Properties\<close>

text \<open>C26: Decoding an encoded tag gives the value back exactly when every byte of it has two
  hexadecimal digits; a byte below 16 is padded with a space instead of a zero
  (\<^verbatim>\<open>%2x\<close>), and then the encoded tag cannot be decoded at all.\<close>

theorem decodeTag_encodeTag:
  "decodeTag (encodeTag v) =
     (if list_all (\<lambda>b. 16 \<le> (of_char b :: nat)) v then Inr v
      else Inl (Plain ''encoded tag contains invalid quote sequence''))"
  using decode_encode_loop[of 0 0 v 0 "[]"] decode_encode_loop_fails[of 0 0 v 0 "[]"]
  by (auto simp: decodeTag_def encodeTag_def two_digits_def list_all_iff)

end
