(* ===== verification/Tags.thy ===== *)
theory Tags
  imports TagEncoder "HOL-Library.Char_ord" "HOL-Library.List_Lexorder"
begin

text \<open>
  \<^verbatim>\<open>pkg/driverd/tags.go\<close>: the driver's key/value tags on logical volumes. A Go
  \<^verbatim>\<open>map[TagKey]string\<close> is an association list with distinct keys, read with \<open>map_of\<close>;
  Go compares strings bytewise, as the lexicographic order on \<open>string\<close> does here.
\<close>

section \<open>The code\<close>

type_synonym tag_key = string

type_synonym tag_map = "(tag_key \<times> string) list"

definition tagPrefix :: string where
  "tagPrefix = ''csi-sanlock-lvm.vleo.net/''"

definition nameTagKey :: tag_key where "nameTagKey = ''name''"

definition fsTagKey :: tag_key where "fsTagKey = ''fs''"

definition ownerIdTagKey :: tag_key where "ownerIdTagKey = ''ownerId''"

definition ownerNodeTagKey :: tag_key where "ownerNodeTagKey = ''ownerNode''"

definition sourceTagKey :: tag_key where "sourceTagKey = ''src''"

definition rpcRoleTagKey :: tag_key where "rpcRoleTagKey = ''rpcRole''"

definition encodedTagPrefix :: string where
  "encodedTagPrefix = encodeTag tagPrefix"

text \<open>\<^verbatim>\<open>strings.HasPrefix\<close> and \<^verbatim>\<open>strings.Index(s, "=")\<close>.\<close>

definition has_prefix :: "string \<Rightarrow> string \<Rightarrow> bool" where
  "has_prefix s p \<longleftrightarrow> take (length p) s = p"

fun index_of :: "string \<Rightarrow> char \<Rightarrow> nat option" where
  "index_of [] c = None"
| "index_of (b # bs) c = (if b = c then Some 0 else map_option Suc (index_of bs c))"

text \<open>\<open>Inr None\<close> is \<^verbatim>\<open>ok = false\<close>: not one of the driver's tags.\<close>

definition decodeTagKV :: "string \<Rightarrow> go_error + (tag_key \<times> string) option" where
  "decodeTagKV encoded =
     (if \<not> has_prefix encoded encodedTagPrefix then Inr None
      else case decodeTag (drop (length encodedTagPrefix) encoded) of
        Inl e \<Rightarrow> Inl e
      | Inr decoded \<Rightarrow>
          (case index_of decoded CHR ''='' of
             None \<Rightarrow> Inl (Plain ''invalid tag value %q'')
           | Some i \<Rightarrow> Inr (Some (take i decoded, drop (i + 1) decoded))))"

definition encodeTagKV :: "tag_key \<Rightarrow> string \<Rightarrow> string" where
  "encodeTagKV key val = encodeTag (tagPrefix @ key @ ''='' @ val)"

definition encodeTagKeyPrefix :: "tag_key \<Rightarrow> string" where
  "encodeTagKeyPrefix key = encodeTag (tagPrefix @ key @ ''='')"

definition encodeTags :: "tag_map \<Rightarrow> string list" where
  "encodeTags tags = map (\<lambda>key. encodeTagKV key (the (map_of tags key))) (sort (map fst tags))"

fun decode_tags_loop :: "tag_map \<Rightarrow> string list \<Rightarrow> go_error + tag_map" where
  "decode_tags_loop r [] = Inr r"
| "decode_tags_loop r (v # vs) =
     (case decodeTagKV v of
        Inl e \<Rightarrow> Inl e
      | Inr None \<Rightarrow> decode_tags_loop r vs
      | Inr (Some (key, val)) \<Rightarrow>
          if map_of r key \<noteq> None then Inl (Plain ''duplicate tag entry for key %q'')
          else decode_tags_loop (r @ [(key, val)]) vs)"

definition decodeTags :: "string list \<Rightarrow> go_error + tag_map" where
  "decodeTags encodedTags = decode_tags_loop [] encodedTags"

section \<open>Lemmas\<close>

text \<open>
  The keys and values the encoding can carry: a key has no \<open>=\<close> and does not start with a
  hyphen, and no byte is below 16. Every key constant of the package qualifies.
\<close>

definition good_key :: "tag_key \<Rightarrow> bool" where
  "good_key k \<longleftrightarrow> CHR ''='' \<notin> set k \<and> take 1 k \<noteq> ''-'' \<and> (\<forall>b \<in> set k. two_digits b)"

definition good_value :: "string \<Rightarrow> bool" where
  "good_value v \<longleftrightarrow> (\<forall>b \<in> set v. two_digits b)"

lemma good_keys: "good_key nameTagKey" "good_key fsTagKey" "good_key ownerIdTagKey"
  "good_key ownerNodeTagKey" "good_key sourceTagKey" "good_key rpcRoleTagKey"
  by (simp_all add: good_key_def nameTagKey_def fsTagKey_def ownerIdTagKey_def
      ownerNodeTagKey_def sourceTagKey_def rpcRoleTagKey_def two_digits_def)

lemma encodedTagPrefix_eq: "encodedTagPrefix = tagPrefix"
  by (simp add: encodedTagPrefix_def tagPrefix_def encodeTag_def isPlain_def in_range_def)

lemma encodeTagKV_split:
  "encodeTagKV k v = encodedTagPrefix @ encode_from (length tagPrefix) (k @ ''='' @ v)"
  by (simp add: encodeTagKV_def encodedTagPrefix_def encodeTag_def encode_from_append)

lemma index_of_append:
  "c \<notin> set k \<Longrightarrow> index_of (k @ c # v) c = Some (length k)"
  by (induction k) auto

lemma decode_suffix:
  assumes "take 1 s \<noteq> ''-''" and "\<forall>b \<in> set s. two_digits b"
  shows "decodeTag (encode_from (Suc n) s) = Inr s"
proof (cases s)
  case Nil
  then show ?thesis by (simp add: decodeTag_def)
next
  case (Cons b bs)
  with assms(1) have "isPlain b (Suc n) = isPlain b 0" by (auto simp: isPlain_def)
  moreover have "encode_from (Suc (Suc n)) bs = encode_from (Suc 0) bs"
    using encode_from_positive[of "Suc (Suc n)" bs] by simp
  ultimately have "encode_from (Suc n) s = encode_from 0 s" using Cons by simp
  with decode_encode_loop[of 0 0 s 0 "[]"] assms(2) show ?thesis by (simp add: decodeTag_def)
qed

lemma decodeTagKV_encodeTagKV:
  assumes "good_key k" and "good_value v"
  shows "decodeTagKV (encodeTagKV k v) = Inr (Some (k, v))"
proof -
  have l: "length tagPrefix = Suc 24" by (simp add: tagPrefix_def)
  have "decodeTag (encode_from (Suc 24) (k @ ''='' @ v)) = Inr (k @ ''='' @ v)"
    using assms by (intro decode_suffix)
      (auto simp: good_key_def good_value_def two_digits_def take_Cons' split: if_splits)
  moreover have "index_of (k @ ''='' @ v) CHR ''='' = Some (length k)"
    using assms(1) by (simp add: good_key_def index_of_append)
  ultimately show ?thesis
    by (simp add: decodeTagKV_def encodeTagKV_split l has_prefix_def)
qed

text \<open>Decoding a list of encoded pairs with fresh, distinct keys appends them in order.\<close>

lemma decode_tags_loop_encoded:
  assumes "distinct (map fst kvs)" and "set (map fst kvs) \<inter> set (map fst r) = {}"
    and "\<forall>(k, v) \<in> set kvs. good_key k \<and> good_value v"
  shows "decode_tags_loop r (map (\<lambda>(k, v). encodeTagKV k v) kvs) = Inr (r @ kvs)"
  using assms
proof (induction kvs arbitrary: r)
  case (Cons kv kvs)
  obtain k v where kv: "kv = (k, v)" by fastforce
  have "map_of r k = None" using Cons.prems(2) kv by (simp add: map_of_eq_None_iff)
  moreover have "decodeTagKV (encodeTagKV k v) = Inr (Some (k, v))"
    using Cons.prems(3) kv by (intro decodeTagKV_encodeTagKV) auto
  moreover have "decode_tags_loop (r @ [(k, v)]) (map (\<lambda>(k, v). encodeTagKV k v) kvs) =
                 Inr ((r @ [(k, v)]) @ kvs)"
    by (rule Cons.IH) (use Cons.prems kv in auto)
  ultimately show ?case using kv by simp
qed simp

lemma encodeTags_pairs:
  "encodeTags tags =
     map (\<lambda>(k, v). encodeTagKV k v) (map (\<lambda>k. (k, the (map_of tags k))) (sort (map fst tags)))"
  by (simp add: encodeTags_def)

lemma map_of_sorted_pairs:
  "map_of (map (\<lambda>k. (k, the (map_of tags k))) (sort (map fst tags))) = map_of tags"
proof
  fix k
  have "map_of (map (\<lambda>k. (k, the (map_of tags k))) ks) k =
        (if k \<in> set ks then Some (the (map_of tags k)) else None)" for ks
    by (induction ks) auto
  moreover have "k \<in> fst ` set tags \<longleftrightarrow> map_of tags k \<noteq> None" by (simp add: map_of_eq_None_iff)
  ultimately show "map_of (map (\<lambda>k. (k, the (map_of tags k))) (sort (map fst tags))) k = map_of tags k"
    by simp
qed

lemma decodeTags_sorted:
  assumes "distinct (map fst tags)"
    and "\<forall>(k, v) \<in> set tags. good_key k \<and> good_value v"
  shows "decodeTags (encodeTags tags) =
    Inr (map (\<lambda>k. (k, the (map_of tags k))) (sort (map fst tags)))"
proof -
  let ?kvs = "map (\<lambda>k. (k, the (map_of tags k))) (sort (map fst tags))"
  have "good_key k \<and> good_value (the (map_of tags k))" if "k \<in> fst ` set tags" for k
  proof -
    from that obtain v where "map_of tags k = Some v"
      using map_of_eq_None_iff[of tags k] by auto
    with map_of_SomeD[OF this] assms(2) show ?thesis by auto
  qed
  then have "\<forall>(k, v) \<in> set ?kvs. good_key k \<and> good_value v" by simp
  moreover have "distinct (map fst ?kvs)" using assms(1) by (simp add: comp_def)
  ultimately show ?thesis
    using decode_tags_loop_encoded[of ?kvs "[]"] by (simp add: decodeTags_def encodeTags_pairs)
qed

text \<open>
  What \<open>decodeTags\<close> does on any list: it succeeds exactly when every tag decodes and no two
  positions carry the same key, and then the map holds exactly the pairs found.
\<close>

definition carries :: "string \<Rightarrow> tag_key \<Rightarrow> string \<Rightarrow> bool" where
  "carries t k v \<longleftrightarrow> decodeTagKV t = Inr (Some (k, v))"

lemma decode_loop_ok:
  "decode_tags_loop r ts = Inr m \<Longrightarrow>
     (\<forall>t \<in> set ts. \<exists>x. decodeTagKV t = Inr x) \<and>
     (\<forall>k v. map_of m k = Some v \<longleftrightarrow> map_of r k = Some v \<or> (\<exists>t \<in> set ts. carries t k v)) \<and>
     (\<forall>t \<in> set ts. \<forall>k v. carries t k v \<longrightarrow> map_of r k = None)"
proof (induction ts arbitrary: r)
  case (Cons t ts)
  show ?case
  proof (cases "decodeTagKV t")
    case (Inr x)
    show ?thesis
    proof (cases x)
      case None
      have "\<not> carries t k v" for k v using Inr None by (simp add: carries_def)
      then show ?thesis using Cons.IH [of r] Cons.prems Inr None by auto
    next
      case (Some kv)
      obtain k v where kv: "kv = (k, v)" by (cases kv)
      have new: "map_of r k = None" and ih: "decode_tags_loop (r @ [(k, v)]) ts = Inr m"
        using Cons.prems Inr Some kv by (auto split: if_splits)
      have c: "carries t k' v' \<longleftrightarrow> k' = k \<and> v' = v" for k' v'
        using Inr Some kv by (auto simp: carries_def)
      have app: "map_of (r @ [(k, v)]) k' = Some v' \<longleftrightarrow> map_of r k' = Some v' \<or> k' = k \<and> v' = v" for k' v'
        using new by (auto simp: map_add_def split: option.splits)
      have non: "map_of (r @ [(k, v)]) k' = None \<Longrightarrow> map_of r k' = None" for k'
        by (auto simp: map_add_def split: option.splits if_splits)
      note IH = Cons.IH [OF ih, unfolded app]
      have "\<forall>u \<in> set (t # ts). \<exists>x. decodeTagKV u = Inr x" using IH Inr by simp
      moreover have "map_of m k' = Some v' \<longleftrightarrow> map_of r k' = Some v' \<or> (\<exists>u \<in> set (t # ts). carries u k' v')" for k' v'
        using IH by (simp add: c)
      moreover have "map_of r k' = None" if "u \<in> set (t # ts)" "carries u k' v'" for u k' v'
        using that IH new non c by (metis set_ConsD)
      ultimately show ?thesis by blast
    qed
  qed (use Cons.prems in simp)
qed simp

lemma decode_loop_total:
  assumes "\<forall>t \<in> set ts. \<exists>x. decodeTagKV t = Inr x" and "distinct ts"
    and "\<forall>t \<in> set ts. \<forall>u \<in> set ts. \<forall>k v w. carries t k v \<longrightarrow> carries u k w \<longrightarrow> t = u"
    and "\<forall>t \<in> set ts. \<forall>k v. carries t k v \<longrightarrow> map_of r k = None"
  shows "\<exists>m. decode_tags_loop r ts = Inr m"
  using assms
proof (induction ts arbitrary: r)
  case (Cons t ts)
  obtain x where x: "decodeTagKV t = Inr x" using Cons.prems(1) by auto
  have step: "\<exists>m. decode_tags_loop r' ts = Inr m"
    if "\<forall>u \<in> set ts. \<forall>k v. carries u k v \<longrightarrow> map_of r' k = None" for r'
    by (rule Cons.IH) (use Cons.prems that in auto)
  show ?case
  proof (cases x)
    case None
    then show ?thesis using step [of r] x Cons.prems(4) by auto
  next
    case (Some kv)
    obtain k v where kv: "kv = (k, v)" by (cases kv)
    then have c: "carries t k v" using x Some by (simp add: carries_def)
    have "map_of (r @ [(k, v)]) k' = None" if "u \<in> set ts" "carries u k' v'" for u k' v'
    proof -
      have "k' \<noteq> k" using that c Cons.prems(2,3) by (metis distinct.simps(2) list.set_intros)
      moreover have "map_of r k' = None" using that Cons.prems(4) by (meson list.set_intros(2))
      ultimately show ?thesis by (simp add: map_add_def)
    qed
    then show ?thesis using step [of "r @ [(k, v)]"] x Some kv c Cons.prems(4) by auto
  qed
qed simp

lemma decodeTags_ok:
  "decodeTags ts = Inr m \<Longrightarrow> map_of m k = Some v \<longleftrightarrow> (\<exists>t \<in> set ts. carries t k v)"
  "decodeTags ts = Inr m \<Longrightarrow> t \<in> set ts \<Longrightarrow> \<exists>x. decodeTagKV t = Inr x"
  using decode_loop_ok [of "[]" ts m] by (auto simp: decodeTags_def)

lemma decode_loop_unique:
  assumes "decode_tags_loop r ts = Inr m" and "t \<in> set ts" and "u \<in> set ts"
    and "carries t k v" and "carries u k w"
  shows "t = u"
  using assms
proof (induction ts arbitrary: r)
  case (Cons x ts)
  obtain y where y: "decodeTagKV x = Inr y" using Cons.prems(1) by (cases "decodeTagKV x") auto
  have "\<exists>r'. decode_tags_loop r' ts = Inr m \<and> (\<forall>k' v'. carries x k' v' \<longrightarrow> map_of r' k' \<noteq> None)"
  proof (cases y)
    case None
    then show ?thesis using Cons.prems(1) y by (auto simp: carries_def)
  next
    case (Some kv)
    obtain a b where kv: "kv = (a, b)" by (cases kv)
    then have "decode_tags_loop (r @ [(a, b)]) ts = Inr m" and "map_of r a = None"
      using Cons.prems(1) y Some by (auto split: if_splits)
    then show ?thesis using y Some kv by (intro exI [of _ "r @ [(a, b)]"]) (simp add: carries_def map_add_def)
  qed
  then obtain r' where r': "decode_tags_loop r' ts = Inr m"
    and key: "\<And>k' v'. carries x k' v' \<Longrightarrow> map_of r' k' \<noteq> None" by blast
  have "z = x \<Longrightarrow> carries z k v' \<Longrightarrow> z' \<in> set ts \<Longrightarrow> carries z' k w' \<Longrightarrow> False" for z z' v' w'
    using key decode_loop_ok [OF r'] by blast
  then show ?case using Cons.IH [OF r'] Cons.prems(2-5) by (metis set_ConsD)
qed simp

lemma decodeTags_unique:
  "decodeTags ts = Inr m \<Longrightarrow> t \<in> set ts \<Longrightarrow> u \<in> set ts \<Longrightarrow> carries t k v \<Longrightarrow> carries u k w \<Longrightarrow> t = u"
  unfolding decodeTags_def by (rule decode_loop_unique)

lemma decodeTags_total:
  assumes "\<forall>t \<in> set ts. \<exists>x. decodeTagKV t = Inr x" and "distinct ts"
    and "\<forall>t \<in> set ts. \<forall>u \<in> set ts. \<forall>k v w. carries t k v \<longrightarrow> carries u k w \<longrightarrow> t = u"
  shows "\<exists>m. decodeTags ts = Inr m"
  unfolding decodeTags_def by (rule decode_loop_total) (use assms in auto)

lemma carries_encoded: "good_key k \<Longrightarrow> good_value v \<Longrightarrow> carries (encodeTagKV k v) k' v' \<longleftrightarrow> k' = k \<and> v' = v"
  by (auto simp: carries_def decodeTagKV_encodeTagKV)

section \<open>Properties\<close>

text \<open>C25: The tags written on a volume read back as the same map: \<open>decodeTags\<close> inverts
  \<open>encodeTags\<close> for every map whose keys contain no \<open>=\<close> and do not start with a hyphen, and
  whose keys and values have no byte below 16.\<close>

theorem decodeTags_encodeTags:
  assumes "distinct (map fst tags)"
    and "\<forall>(k, v) \<in> set tags. good_key k \<and> good_value v"
  shows "\<exists>tags'. decodeTags (encodeTags tags) = Inr tags' \<and> map_of tags' = map_of tags"
  using decodeTags_sorted [OF assms] map_of_sorted_pairs by blast

theorem decodeTags_encodeTags_witness:
  "\<exists>tags'. decodeTags (encodeTags [(''name'', ''a b''), (''fs'', ''ext4'')]) = Inr tags' \<and>
     map_of tags' ''fs'' = Some ''ext4''"
proof -
  have "\<exists>tags'. decodeTags (encodeTags [(''name'', ''a b''), (''fs'', ''ext4'')]) = Inr tags' \<and>
     map_of tags' = map_of [(''name'', ''a b''), (''fs'', ''ext4'')]"
    by (rule decodeTags_encodeTags) (simp_all add: good_key_def good_value_def two_digits_def)
  then show ?thesis by auto
qed



end
