(* ===== verification/LvmCtrld.thy ===== *)
theory LvmCtrld
  imports GoRegexp GoStrings Tags Proto
begin

text \<open>
  The lvmctrld daemon, \<^verbatim>\<open>pkg/lvmctrld/lvmctrldserver.go\<close>: it turns each request into the
  arguments of an LVM command, runs it and reads its report or its messages. What runs the
  command and what lies outside the source (the decoder of the JSON report and the conversion
  of its times to protobuf) are the fields of \<open>lvm_env\<close>.

  A handler returns \<open>None\<close> when it panics, an error, or its response; \<open>Inr None\<close> is Go's
  \<^verbatim>\<open>return nil, nil\<close>: no error and no response either.
\<close>

section \<open>The report of LVM\<close>

record lvmReportLvs =
  rl_LvName :: string
  rl_VgName :: string
  rl_LvAttr :: string
  rl_LvSize :: nat
  rl_PoolLv :: string
  rl_Origin :: string
  rl_DataPercent :: string
  rl_MetadataPercent :: string
  rl_MovePv :: string
  rl_MirrorLog :: string
  rl_CopyPercent :: string
  rl_ConvertLv :: string
  rl_LvTags :: string
  rl_LvRole :: string
  rl_LvTime :: Timestamp
  rl_LvDeviceOpen :: string

record lvmReportVgs =
  rv_VgName :: string
  rv_PvCount :: nat
  rv_LvCount :: nat
  rv_SnapCount :: nat
  rv_VgAttr :: string
  rv_VgSize :: nat
  rv_VgFree :: nat
  rv_VgTags :: string

record lvmReport =
  Report :: "(lvmReportLvs list \<times> lvmReportVgs list) list"

text \<open>What \<^verbatim>\<open>runner.Exec\<close> returns, and the code outside the source the server calls.\<close>

record exec_result =
  ex_code :: int
  ex_stdout :: string
  ex_stderr :: string
  ex_failed :: bool

record 'w lvm_env =
  Exec :: "string \<Rightarrow> string list \<Rightarrow> 'w \<Rightarrow> exec_result \<times> 'w"
  json_Unmarshal :: "string \<Rightarrow> go_error + lvmReport"
  TimestampProto :: "Timestamp \<Rightarrow> Timestamp option"

type_synonym ('a, 'w) handler = "'w \<Rightarrow> ((go_error + 'a option) \<times> 'w) option"

section \<open>The patterns\<close>

definition is_space :: "char \<Rightarrow> bool" where
  "is_space c \<longleftrightarrow> c \<in> {CHR 0x09, CHR 0x0A, CHR 0x0C, CHR 0x0D, CHR '' ''}"

definition is_digit :: "char \<Rightarrow> bool" where
  "is_digit c \<longleftrightarrow> in_range CHR ''0'' CHR ''9'' c"

definition tag_char :: "char \<Rightarrow> bool" where
  "tag_char c \<longleftrightarrow>
     in_range CHR ''A'' CHR ''Z'' c \<or> in_range CHR ''a'' CHR ''z'' c \<or>
     in_range CHR ''0'' CHR ''9'' c \<or>
     c \<in> {CHR ''_'', CHR ''+'', CHR ''.'', CHR ''-'', CHR ''/'', CHR ''='', CHR ''!'', CHR '':'',
          CHR ''#'', CHR ''&''}"

definition tagRe :: re where
  "tagRe = Plus (Cls tag_char)"

text \<open>\<^verbatim>\<open>\s*\<close>, \<^verbatim>\<open>[^"]+\<close>, \<^verbatim>\<open>\S+\<close> and \<^verbatim>\<open>\d+\<close>; the literals are in lower case, see \<open>match_mi\<close>.\<close>

abbreviation blanks :: re where "blanks \<equiv> Many (Cls is_space)"

abbreviation unquoted :: re where "unquoted \<equiv> Plus (Cls (\<lambda>c. c \<noteq> CHR 0x22))"

abbreviation solid :: re where "solid \<equiv> Plus (Cls (\<lambda>c. \<not> is_space c))"

abbreviation number :: re where "number \<equiv> Plus (Cls is_digit)"

definition lvLockedRe :: re where
  "lvLockedRe = Cat blanks (Lit ''lv locked by other host'')"

definition lvExists :: re where
  \<open>lvExists = Cat blanks (Cat (Lit ''logical volume "'') (Cat unquoted
     (Lit ''" already exists in volume group'')))\<close>

definition lvNotFound :: "re list" where
  \<open>lvNotFound =
     [Cat blanks (Cat (Lit ''failed to find logical volume "'') (Cat unquoted (Lit ''"''))),
      Cat blanks (Cat (Lit ''logical volume '') (Cat solid (Cat (Lit '' not found in volume group '')
        (Cat solid (Cls (\<lambda>c. c \<noteq> CHR 0x0A))))))]\<close>

definition vgNotFound :: re where
  \<open>vgNotFound = Cat blanks (Cat (Lit ''volume group "'') (Cat unquoted (Lit ''" not found'')))\<close>

definition lvOutOfRange :: "re list" where
  \<open>lvOutOfRange =
     [Cat blanks (Cat (Lit ''volume group "'') (Cat unquoted (Lit ''" has insufficient free space''))),
      Cat blanks (Cat (Lit ''insufficient free space: '') (Cat number
        (Cat (Lit '' extents needed, but only '') (Cat number (Lit '' available'')))))]\<close>

definition lvSizeMatches :: re where
  "lvSizeMatches = Cat blanks (Cat (Lit ''new size ('') (Cat number
     (Cat (Lit '' extents) matches existing size ('') (Cat number (Lit '' extents)'')))))"

text \<open>\<^verbatim>\<open>parseLvmError\<close>; \<open>None\<close> is the nil error.\<close>

definition parseLvmError :: "int \<Rightarrow> string \<Rightarrow> string \<Rightarrow> go_error option" where
  "parseLvmError code stdout stderr =
     (if code = 0 then None
      else if code \<noteq> 5 then Some (Plain ''unexpected error: rc=%d stdout=%q stderr=%q'')
      else if match_mi lvExists stderr then Some (Status AlreadyExists ''target already exists'')
      else if match_mi lvLockedRe stderr then
        Some (Status PermissionDenied ''target is locked by another host'')
      else if match_mi vgNotFound stderr then Some (Status NotFound ''volume group does not exist'')
      else if list_ex (\<lambda>re. match_mi re stderr) lvNotFound then
        Some (Status NotFound ''logical volume does not exist'')
      else if list_ex (\<lambda>re. match_mi re stderr) lvOutOfRange then
        Some (Status OutOfRange ''insufficient free space'')
      else if match_mi lvSizeMatches stderr then None
      else Some (Plain ''unexpected error: rc=%d stdout=%q stderr=%q''))"

section \<open>From reports to messages\<close>

definition splitLvmField :: "string \<Rightarrow> string list" where
  "splitLvmField v = (if v = '''' then [] else split_on CHR '','' v)"

definition decodeLvDeviceOpen :: "string \<Rightarrow> LvDeviceOpen" where
  "decodeLvDeviceOpen v =
     (if v = ''open'' then LV_DEVICE_OPEN_OPEN else LV_DEVICE_OPEN_UNKNOWN)"

definition lvmToVolumeGroup :: "lvmReportVgs \<Rightarrow> VolumeGroup" where
  "lvmToVolumeGroup vg =
     \<lparr>vg_VgName = rv_VgName vg,
      vg_PvCount = rv_PvCount vg,
      vg_LvCount = rv_LvCount vg,
      vg_SnapCount = rv_SnapCount vg,
      vg_VgAttr = rv_VgAttr vg,
      vg_VgSize = rv_VgSize vg,
      vg_VgFree = rv_VgFree vg,
      vg_VgTags = splitLvmField (rv_VgTags vg)\<rparr>"

definition lvmToLogicalVolume :: "'w lvm_env \<Rightarrow> lvmReportLvs \<Rightarrow> LogicalVolume" where
  "lvmToLogicalVolume e lv =
     \<lparr>lv_LvName = rl_LvName lv,
      lv_VgName = rl_VgName lv,
      lv_LvAttr = rl_LvAttr lv,
      lv_LvSize = rl_LvSize lv,
      lv_PoolLv = rl_PoolLv lv,
      lv_Origin = rl_Origin lv,
      lv_DataPercent = rl_DataPercent lv,
      lv_MetadataPercent = rl_MetadataPercent lv,
      lv_MovePv = rl_MovePv lv,
      lv_MirrorLog = rl_MirrorLog lv,
      lv_CopyPercent = rl_CopyPercent lv,
      lv_ConvertLv = rl_ConvertLv lv,
      lv_LvTags = splitLvmField (rl_LvTags lv),
      lv_LvRole = splitLvmField (rl_LvRole lv),
      lv_LvTime = TimestampProto e (rl_LvTime lv),
      lv_LvDeviceOpen = decodeLvDeviceOpen (rl_LvDeviceOpen lv)\<rparr>"

text \<open>\<^verbatim>\<open>lvmToActivationMode\<close> panics on a mode outside the enumeration.\<close>

fun lvmToActivationMode :: "string list \<Rightarrow> LvActivationMode \<Rightarrow> string list option" where
  "lvmToActivationMode args LV_ACTIVATION_MODE_NONE = Some args"
| "lvmToActivationMode args LV_ACTIVATION_MODE_ACTIVE_EXCLUSIVE = Some (args @ [''-a'', ''ey''])"
| "lvmToActivationMode args LV_ACTIVATION_MODE_ACTIVE_SHARED = Some (args @ [''-a'', ''sy''])"
| "lvmToActivationMode args LV_ACTIVATION_MODE_DEACTIVATE = Some (args @ [''-a'', ''n''])"
| "lvmToActivationMode args (LvActivationModeOther _) = None"

section \<open>Running commands\<close>

text \<open>
  The end every command shares: \<^verbatim>\<open>if code != 0 || err != nil\<close> the result is whatever
  \<^verbatim>\<open>parseLvmError\<close> makes of it, together with a nil response.
\<close>

definition lvm_result :: "exec_result \<Rightarrow> 'a \<Rightarrow> go_error + 'a option" where
  "lvm_result r resp =
     (if ex_code r \<noteq> 0 \<or> ex_failed r then
        (case parseLvmError (ex_code r) (ex_stdout r) (ex_stderr r) of
           Some err \<Rightarrow> Inl err
         | None \<Rightarrow> Inr None)
      else Inr (Some resp))"

definition run_command :: "'w lvm_env \<Rightarrow> string \<Rightarrow> string list \<Rightarrow> (unit, 'w) handler" where
  "run_command e exe args w = (case Exec e exe args w of (r, w') \<Rightarrow> Some (lvm_result r (), w'))"

definition runReport :: "'w lvm_env \<Rightarrow> string \<Rightarrow> string list \<Rightarrow> (lvmReport, 'w) handler" where
  "runReport e exe args w =
     (case Exec e exe args w of
        (r, w') \<Rightarrow>
          Some (case lvm_result r () of
                  Inl err \<Rightarrow> Inl err
                | Inr None \<Rightarrow> Inr None
                | Inr (Some _) \<Rightarrow>
                    (case json_Unmarshal e (ex_stdout r) of
                       Inl _ \<Rightarrow> Inl (Plain ''failed to deserialize lvm report with error %v: %q'')
                     | Inr result \<Rightarrow> Inr (Some result)), w'))"

text \<open>
  What \<^verbatim>\<open>Vgs\<close> and \<^verbatim>\<open>Lvs\<close> do with the report: a nil report is dereferenced (\<open>None\<close>, a panic), and
  exactly one report is expected.
\<close>

definition single_report ::
  "((lvmReportLvs list \<times> lvmReportVgs list) \<Rightarrow> 'a) \<Rightarrow>
   ((go_error + lvmReport option) \<times> 'w) option \<Rightarrow> ((go_error + 'a option) \<times> 'w) option" where
  "single_report f x =
     (case x of
        None \<Rightarrow> None
      | Some (Inl err, w) \<Rightarrow> Some (Inl err, w)
      | Some (Inr None, w) \<Rightarrow> None
      | Some (Inr (Some out), w) \<Rightarrow>
          if length (Report out) \<noteq> 1 then Some (Inl (Plain ''unexpected multiple reports''), w)
          else Some (Inr (Some (f (Report out ! 0))), w))"

definition select_args :: "string \<Rightarrow> string list" where
  "select_args sel = (if sel \<noteq> '''' then [''-S'', sel] else [])"

definition report_args :: "string \<Rightarrow> string list" where
  "report_args columns =
     [''--options'', columns, ''--units'', ''b'', ''--nosuffix'', ''--reportformat'', ''json'']"

section \<open>The handlers\<close>

definition GetStatus :: "nat \<Rightarrow> nat" where
  "GetStatus node_id = node_id mod 2 ^ 32"

definition Vgs :: "'w lvm_env \<Rightarrow> VgsRequest \<Rightarrow> (VolumeGroup list, 'w) handler" where
  "Vgs e req w =
     single_report (\<lambda>(lvs, vgs). map lvmToVolumeGroup vgs)
       (runReport e ''vgs''
          (report_args ''vg_name,pv_count,lv_count,snap_count,vg_attr,vg_size,vg_free,vg_tags'' @
           select_args (vgs_Select req) @ vgs_Target req) w)"

definition LvCreate :: "'w lvm_env \<Rightarrow> LvCreateRequest \<Rightarrow> (unit, 'w) handler" where
  "LvCreate e req w =
     (case lvmToActivationMode [''-y'', ''-L'', decimal (lvc_Size req) @ ''b''] (lvc_Activate req) of
        None \<Rightarrow> None
      | Some args \<Rightarrow>
          (let args = args @ (if lvc_Origin req \<noteq> '''' then [''-s'', lvc_Origin req] else []) in
           if list_ex (\<lambda>tag. \<not> full_match tagRe tag) (lvc_LvTags req)
           then Some (Inl (Plain ''invalid tag %s''), w)
           else run_command e ''lvcreate''
             (args @ concat (map (\<lambda>tag. [''--addtag'', tag]) (lvc_LvTags req)) @
              [''-n'', lvc_VgName req @ ''/'' @ lvc_LvName req]) w))"

definition LvRemove :: "'w lvm_env \<Rightarrow> LvRemoveRequest \<Rightarrow> (unit, 'w) handler" where
  "LvRemove e req w =
     run_command e ''lvremove'' ([''-f''] @ select_args (lvr_Select req) @ lvr_Target req) w"

definition Lvs :: "'w lvm_env \<Rightarrow> LvsRequest \<Rightarrow> (LogicalVolume list, 'w) handler" where
  "Lvs e req w =
     single_report (\<lambda>(lvs, vgs). map (lvmToLogicalVolume e) lvs)
       (runReport e ''lvs''
          (report_args (''lv_name,vg_name,lv_attr,lv_size,pool_lv,origin,data_percent,'' @
             ''metadata_percent,move_pv,mirror_log,copy_percent,convert_lv,lv_tags,lv_role,'' @
             ''lv_time,lv_device_open'') @
           select_args (lvs_Select req) @
           (if lvs_Sort req \<noteq> [] then [''-O'', join_with '','' (lvs_Sort req)] else []) @
           lvs_Target req) w)"

definition LvResize :: "'w lvm_env \<Rightarrow> LvResizeRequest \<Rightarrow> (unit, 'w) handler" where
  "LvResize e req w =
     run_command e ''lvresize''
       [''-f'', ''-L'', decimal (lrs_Size req) @ ''b'', lrs_VgName req @ ''/'' @ lrs_LvName req] w"

definition LvChange :: "'w lvm_env \<Rightarrow> LvChangeRequest \<Rightarrow> (unit, 'w) handler" where
  "LvChange e req w =
     (case lvmToActivationMode [] (lch_Activate req) of
        None \<Rightarrow> None
      | Some args \<Rightarrow>
          run_command e ''lvchange''
            (args @ concat (map (\<lambda>tag. [''--addtag'', tag]) (lch_AddTag req)) @
             concat (map (\<lambda>tag. [''--deltag'', tag]) (lch_DelTag req)) @
             select_args (lch_Select req) @ lch_Target req) w)"

section \<open>What LVM reports\<close>

text \<open>
  The messages the daemon understands, with their fields; \<open>text\<close> is the line LVM prints,
  \<open>rank\<close> the order in which \<^verbatim>\<open>parseLvmError\<close> looks for them and \<open>verdict\<close> what it answers.
\<close>

datatype lvm_failure =
    LvExists string
  | LvLocked
  | VgMissing string
  | LvMissing string
  | LvMissingIn string string char
  | VgFull string
  | NoExtents string string
  | SameSize string string

fun message :: "lvm_failure \<Rightarrow> string" where
  \<open>message (LvExists lv) = ''Logical Volume "'' @ lv @ ''" already exists in volume group''\<close>
| \<open>message LvLocked = ''LV locked by other host''\<close>
| \<open>message (VgMissing vg) = ''Volume group "'' @ vg @ ''" not found''\<close>
| \<open>message (LvMissing lv) = ''Failed to find logical volume "'' @ lv @ ''"''\<close>
| \<open>message (LvMissingIn lv vg c) =
     ''Logical volume '' @ lv @ '' not found in volume group '' @ vg @ [c]\<close>
| \<open>message (VgFull vg) = ''Volume group "'' @ vg @ ''" has insufficient free space''\<close>
| \<open>message (NoExtents n m) =
     ''Insufficient free space: '' @ n @ '' extents needed, but only '' @ m @ '' available''\<close>
| \<open>message (SameSize n m) =
     ''New size ('' @ n @ '' extents) matches existing size ('' @ m @ '' extents)''\<close>

definition quotable :: "string \<Rightarrow> bool" where
  "quotable x \<longleftrightarrow> x \<noteq> [] \<and> CHR 0x22 \<notin> set x"

definition word_like :: "string \<Rightarrow> bool" where
  "word_like x \<longleftrightarrow> x \<noteq> [] \<and> list_all (\<lambda>c. \<not> is_space c) x"

definition numeric :: "string \<Rightarrow> bool" where
  "numeric x \<longleftrightarrow> x \<noteq> [] \<and> list_all is_digit x"

fun proper :: "lvm_failure \<Rightarrow> bool" where
  "proper (LvExists lv) = quotable lv"
| "proper LvLocked = True"
| "proper (VgMissing vg) = quotable vg"
| "proper (LvMissing lv) = quotable lv"
| "proper (LvMissingIn lv vg c) = (word_like lv \<and> word_like vg \<and> c \<noteq> CHR 0x0A)"
| "proper (VgFull vg) = quotable vg"
| "proper (NoExtents n m) = (numeric n \<and> numeric m)"
| "proper (SameSize n m) = (numeric n \<and> numeric m)"

fun rank :: "lvm_failure \<Rightarrow> nat" where
  "rank (LvExists _) = 0"
| "rank LvLocked = 1"
| "rank (VgMissing _) = 2"
| "rank (LvMissing _) = 3"
| "rank (LvMissingIn _ _ _) = 3"
| "rank (VgFull _) = 4"
| "rank (NoExtents _ _) = 4"
| "rank (SameSize _ _) = 5"

definition verdict :: "nat \<Rightarrow> go_error option" where
  "verdict k =
     [Some (Status AlreadyExists ''target already exists''),
      Some (Status PermissionDenied ''target is locked by another host''),
      Some (Status NotFound ''volume group does not exist''),
      Some (Status NotFound ''logical volume does not exist''),
      Some (Status OutOfRange ''insufficient free space''),
      None] ! k"

text \<open>\<open>reported F s\<close>: a line of \<open>s\<close>, indented and in any case, starts with the message of \<open>F\<close>.\<close>

definition reported :: "lvm_failure \<Rightarrow> string \<Rightarrow> bool" where
  "reported F s \<longleftrightarrow>
     (\<exists>pre ind post. map fold_case s = pre @ ind @ map fold_case (message F) @ post \<and>
        (pre = [] \<or> last pre = CHR 0x0A) \<and> list_all is_space ind)"

section \<open>The patterns match exactly the messages\<close>

lemma ex_list: "(\<exists>xs. P xs) \<longleftrightarrow> P [] \<or> (\<exists>x xs. P (x # xs))"
  by (metis neq_Nil_conv)

lemma match_at_lines_iff:
  "match_at_lines r start s \<longleftrightarrow>
     (\<exists>pre u v. s = pre @ u @ v \<and> (if pre = [] then start else last pre = CHR 0x0A) \<and> lang r u)"
proof (induction s arbitrary: start)
  case (Cons c cs)
  have "(\<exists>pre u v. c # cs = pre @ u @ v \<and> (if pre = [] then start else last pre = CHR 0x0A) \<and> lang r u)
    \<longleftrightarrow> (start \<and> (\<exists>u v. c # cs = u @ v \<and> lang r u)) \<or>
       (\<exists>pre u v. cs = pre @ u @ v \<and> (if pre = [] then c = CHR 0x0A else last pre = CHR 0x0A) \<and> lang r u)"
    by (subst ex_list) auto
  with Cons show ?case by (simp add: prefix_match_lang)
qed (auto simp: nullable_iff)

lemma code_fold:
  "(of_char (fold_case c) :: nat) =
     (if 65 \<le> (of_char c :: nat) \<and> (of_char c :: nat) \<le> 90 then of_char c + 32 else of_char c)"
  by (simp add: fold_case_def Let_def)

lemma char_code: "c = d \<longleftrightarrow> (of_char c :: nat) = of_char d"
  by simp

lemma fold_case_simps [simp]:
  "fold_case (fold_case c) = fold_case c"
  "fold_case c = CHR 0x22 \<longleftrightarrow> c = CHR 0x22"
  "fold_case c = CHR 0x0A \<longleftrightarrow> c = CHR 0x0A"
  "is_space (fold_case c) \<longleftrightarrow> is_space c"
  "is_digit (fold_case c) \<longleftrightarrow> is_digit c"
  unfolding char_code is_space_def insert_iff empty_iff is_digit_def in_range_def code_fold by auto

lemma quote_fold [simp]: "CHR 0x22 \<in> set (map fold_case x) \<longleftrightarrow> CHR 0x22 \<in> set x"
  by (induction x) (auto simp: eq_commute [of "CHR 0x22"])

lemma fields_fold [simp]:
  "quotable (map fold_case x) = quotable x"
  "word_like (map fold_case x) = word_like x"
  "numeric (map fold_case x) = numeric x"
  by (simp_all add: quotable_def word_like_def numeric_def list.pred_map comp_def del: set_map)

lemma match_reported:
  assumes lang: "\<And>u. lang r u \<longleftrightarrow> (\<exists>ind x. list_all is_space ind \<and> Q x \<and> u = ind @ M x)"
    and M: "\<And>x. map fold_case (M x) = map fold_case (message (K x))"
    and F: "\<And>x. map fold_case (M x) = M (F x)" "\<And>x. Q (F x) \<longleftrightarrow> Q x"
  shows "match_mi r s \<longleftrightarrow> (\<exists>x. Q x \<and> reported (K x) s)"
proof
  assume "match_mi r s"
  then obtain pre ind x v where s: "map fold_case s = pre @ (ind @ M x) @ v"
      "pre = [] \<or> last pre = CHR 0x0A" "list_all is_space ind" "Q x"
    unfolding match_mi_def match_at_lines_iff lang if_bool_eq_disj by blast
  have "map fold_case (map fold_case s) = map fold_case s" by (simp add: comp_def)
  then have "map fold_case (M x) = M x" unfolding s(1) by (simp add: append_eq_append_conv)
  then have "map fold_case s = pre @ ind @ map fold_case (message (K x)) @ v"
    using s(1) M by simp
  then show "\<exists>x. Q x \<and> reported (K x) s" using s reported_def by blast
next
  assume "\<exists>x. Q x \<and> reported (K x) s"
  then obtain x pre ind post where s: "map fold_case s = pre @ ind @ map fold_case (message (K x)) @ post"
      "pre = [] \<or> last pre = CHR 0x0A" "list_all is_space ind" "Q x" unfolding reported_def by blast
  then have "map fold_case s = pre @ (ind @ M (F x)) @ post" by (simp only: M [symmetric] F append_assoc)
  moreover have "lang r (ind @ M (F x))" using s F(2) unfolding lang by blast
  ultimately show "match_mi r s" unfolding match_mi_def match_at_lines_iff if_bool_eq_disj using s(2) by blast
qed

lemma lang_Cat_parts:
  "lang (Cat (Many (Cls p)) r) u \<longleftrightarrow> (\<exists>x v. u = x @ v \<and> list_all p x \<and> lang r v)"
  "lang (Cat (Lit l) r) u \<longleftrightarrow> (\<exists>v. u = l @ v \<and> lang r v)"
  "lang (Cat (Plus (Cls p)) r) u \<longleftrightarrow> (\<exists>x v. u = x @ v \<and> x \<noteq> [] \<and> list_all p x \<and> lang r v)"
  by (auto simp: lang_Cat_iff lang_Many_Cls lang_Lit lang_Plus_Cls)

lemma quotable_iff: "x \<noteq> [] \<and> list_all (\<lambda>c. c \<noteq> CHR 0x22) x \<longleftrightarrow> quotable x"
  by (auto simp: quotable_def list_all_iff)

lemma fold_literals [simp]:
  \<open>map fold_case ''Logical Volume "'' = ''logical volume "''\<close>
  \<open>map fold_case ''" already exists in volume group'' = ''" already exists in volume group''\<close>
  \<open>map fold_case ''LV locked by other host'' = ''lv locked by other host''\<close>
  \<open>map fold_case ''Volume group "'' = ''volume group "''\<close>
  \<open>map fold_case ''" not found'' = ''" not found''\<close>
  \<open>map fold_case ''Failed to find logical volume "'' = ''failed to find logical volume "''\<close>
  \<open>map fold_case ''"'' = ''"''\<close>
  \<open>map fold_case ''Logical volume '' = ''logical volume ''\<close>
  \<open>map fold_case '' not found in volume group '' = '' not found in volume group ''\<close>
  \<open>map fold_case ''" has insufficient free space'' = ''" has insufficient free space''\<close>
  \<open>map fold_case ''Insufficient free space: '' = ''insufficient free space: ''\<close>
  \<open>map fold_case '' extents needed, but only '' = '' extents needed, but only ''\<close>
  \<open>map fold_case '' available'' = '' available''\<close>
  \<open>map fold_case ''New size ('' = ''new size (''\<close>
  \<open>map fold_case '' extents) matches existing size ('' = '' extents) matches existing size (''\<close>
  \<open>map fold_case '' extents)'' = '' extents)''\<close>
  by code_simp+

lemma fold_single: "map fold_case [c] = [fold_case c]"
  by simp

lemma fold_quote: "fold_case CHR 0x22 = CHR 0x22"
  by simp

lemma fold_lower [simp]:
  \<open>map fold_case ''logical volume "'' = ''logical volume "''\<close>
  \<open>map fold_case ''lv locked by other host'' = ''lv locked by other host''\<close>
  \<open>map fold_case ''volume group "'' = ''volume group "''\<close>
  \<open>map fold_case ''failed to find logical volume "'' = ''failed to find logical volume "''\<close>
  \<open>map fold_case ''logical volume '' = ''logical volume ''\<close>
  \<open>map fold_case ''insufficient free space: '' = ''insufficient free space: ''\<close>
  \<open>map fold_case ''new size ('' = ''new size (''\<close>
  by code_simp+

lemmas fold_message = message.simps map_append fold_literals fold_lower fields_fold map_map comp_def
  fold_case_simps fold_single fold_quote

lemma match_lvExists: "match_mi lvExists s \<longleftrightarrow> (\<exists>lv. quotable lv \<and> reported (LvExists lv) s)"
proof (rule match_reported [where F = "map fold_case"])
  fix u
  show \<open>lang lvExists u \<longleftrightarrow> (\<exists>ind x. list_all is_space ind \<and> quotable x \<and>
      u = ind @ ''logical volume "'' @ x @ ''" already exists in volume group'')\<close>
    unfolding lvExists_def lang_Cat_parts lang_Lit quotable_iff [symmetric] by blast
qed (simp_all only: fold_message)

lemma match_lvLockedRe: "match_mi lvLockedRe s \<longleftrightarrow> reported LvLocked s"
proof -
  have "match_mi lvLockedRe s \<longleftrightarrow> (\<exists>x::unit. True \<and> reported LvLocked s)"
  proof (rule match_reported [where F = id])
    fix u
    show "lang lvLockedRe u \<longleftrightarrow> (\<exists>ind x. list_all is_space ind \<and> True \<and> u = ind @ ''lv locked by other host'')"
      unfolding lvLockedRe_def lang_Cat_parts lang_Lit by blast
  qed (simp_all only: fold_message)
  then show ?thesis by simp
qed

lemma match_vgNotFound: "match_mi vgNotFound s \<longleftrightarrow> (\<exists>vg. quotable vg \<and> reported (VgMissing vg) s)"
proof (rule match_reported [where F = "map fold_case"])
  fix u
  show \<open>lang vgNotFound u \<longleftrightarrow> (\<exists>ind x. list_all is_space ind \<and> quotable x \<and>
      u = ind @ ''volume group "'' @ x @ ''" not found'')\<close>
    unfolding vgNotFound_def lang_Cat_parts lang_Lit quotable_iff [symmetric] by blast
qed (simp_all only: fold_message)

lemma match_lvMissing:
  "match_mi (lvNotFound ! 0) s \<longleftrightarrow> (\<exists>lv. quotable lv \<and> reported (LvMissing lv) s)"
proof (rule match_reported [where F = "map fold_case"])
  fix u
  show \<open>lang (lvNotFound ! 0) u \<longleftrightarrow> (\<exists>ind x. list_all is_space ind \<and> quotable x \<and>
      u = ind @ ''failed to find logical volume "'' @ x @ ''"'')\<close>
    unfolding lvNotFound_def nth_Cons_0 lang_Cat_parts lang_Lit quotable_iff [symmetric] by blast
qed (simp_all only: fold_message)

lemma match_vgFull:
  "match_mi (lvOutOfRange ! 0) s \<longleftrightarrow> (\<exists>vg. quotable vg \<and> reported (VgFull vg) s)"
proof (rule match_reported [where F = "map fold_case"])
  fix u
  show \<open>lang (lvOutOfRange ! 0) u \<longleftrightarrow> (\<exists>ind x. list_all is_space ind \<and> quotable x \<and>
      u = ind @ ''volume group "'' @ x @ ''" has insufficient free space'')\<close>
    unfolding lvOutOfRange_def nth_Cons_0 lang_Cat_parts lang_Lit quotable_iff [symmetric] by blast
qed (simp_all only: fold_message)

lemma match_NoExtents:
  "match_mi (lvOutOfRange ! 1) s \<longleftrightarrow>
     (\<exists>n m. (numeric n \<and> numeric m) \<and> reported (NoExtents n m) s)"
proof -
  have "match_mi (lvOutOfRange ! 1) s \<longleftrightarrow>
    (\<exists>x. (numeric (fst x) \<and> numeric (snd x)) \<and> reported (NoExtents (fst x) (snd x)) s)"
  proof (rule match_reported [where F = "map_prod (map fold_case) (map fold_case)"])
    fix u
    show "lang (lvOutOfRange ! 1) u \<longleftrightarrow>
       (\<exists>ind x. list_all is_space ind \<and> (numeric (fst x) \<and> numeric (snd x)) \<and>
         u = ind @ ''insufficient free space: '' @ fst x @ '' extents needed, but only '' @ snd x @
             '' available'')"
      unfolding lvOutOfRange_def One_nat_def nth_Cons_Suc nth_Cons_0 lang_Cat_parts lang_Lit
        numeric_def split_paired_Ex fst_conv snd_conv by blast
  qed (simp_all only: fold_message fst_map_prod snd_map_prod)
  then show ?thesis by (simp add: split_paired_Ex)
qed

lemma match_lvSizeMatches:
  "match_mi lvSizeMatches s \<longleftrightarrow> (\<exists>n m. (numeric n \<and> numeric m) \<and> reported (SameSize n m) s)"
proof -
  have "match_mi lvSizeMatches s \<longleftrightarrow>
    (\<exists>x. (numeric (fst x) \<and> numeric (snd x)) \<and> reported (SameSize (fst x) (snd x)) s)"
  proof (rule match_reported [where F = "map_prod (map fold_case) (map fold_case)"])
    fix u
    show "lang lvSizeMatches u \<longleftrightarrow>
       (\<exists>ind x. list_all is_space ind \<and> (numeric (fst x) \<and> numeric (snd x)) \<and>
         u = ind @ ''new size ('' @ fst x @ '' extents) matches existing size ('' @ snd x @
             '' extents)'')"
      unfolding lvSizeMatches_def lang_Cat_parts lang_Lit numeric_def split_paired_Ex fst_conv snd_conv
      by blast
  qed (simp_all only: fold_message fst_map_prod snd_map_prod)
  then show ?thesis by (simp add: split_paired_Ex)
qed

lemma lang_solid: "lang (Cat solid r) u \<longleftrightarrow> (\<exists>x v. u = x @ v \<and> word_like x \<and> lang r v)"
  unfolding lang_Cat_parts word_like_def by blast

lemma lang_lvMissingIn:
  "lang (Cat solid (Cat (Lit l) (Cat solid (Cls q)))) u \<longleftrightarrow>
     (\<exists>lv vg c. (word_like lv \<and> word_like vg \<and> q c) \<and> u = lv @ l @ vg @ [c])"
  unfolding lang_solid lang_Cat_parts lang_simps by blast

lemma match_lvMissingIn:
  "match_mi (lvNotFound ! 1) s \<longleftrightarrow>
     (\<exists>lv vg c. (word_like lv \<and> word_like vg \<and> c \<noteq> CHR 0x0A) \<and> reported (LvMissingIn lv vg c) s)"
proof -
  let ?Q = "\<lambda>x. word_like (fst x) \<and> word_like (fst (snd x)) \<and> snd (snd x) \<noteq> CHR 0x0A"
  have "match_mi (lvNotFound ! 1) s \<longleftrightarrow>
    (\<exists>x. ?Q x \<and> reported (LvMissingIn (fst x) (fst (snd x)) (snd (snd x))) s)"
  proof (rule match_reported [where F = "map_prod (map fold_case) (map_prod (map fold_case) fold_case)"])
    fix u
    have "lang (lvNotFound ! 1) u \<longleftrightarrow> (\<exists>i v. u = i @ ''logical volume '' @ v \<and> list_all is_space i \<and>
       lang (Cat solid (Cat (Lit '' not found in volume group '') (Cat solid (Cls (\<lambda>c. c \<noteq> CHR 0x0A))))) v)"
      unfolding lvNotFound_def One_nat_def nth_Cons_Suc nth_Cons_0 lang_Cat_parts(1,2) by blast
    then show "lang (lvNotFound ! 1) u \<longleftrightarrow>
       (\<exists>ind x. list_all is_space ind \<and> ?Q x \<and>
         u = ind @ ''logical volume '' @ fst x @ '' not found in volume group '' @ fst (snd x) @
             [snd (snd x)])"
      unfolding lang_lvMissingIn split_paired_Ex fst_conv snd_conv by blast
  qed (simp_all only: fold_message fst_map_prod snd_map_prod)
  then show ?thesis by (simp add: split_paired_Ex)
qed

text \<open>\<open>hit k s\<close>: some message of rank \<open>k\<close> is reported.\<close>

definition hit :: "nat \<Rightarrow> string \<Rightarrow> bool" where
  "hit k s \<longleftrightarrow> (\<exists>F. proper F \<and> reported F s \<and> rank F = k)"

lemma ex_failure:
  "(\<exists>F. P F) \<longleftrightarrow> (\<exists>x. P (LvExists x)) \<or> P LvLocked \<or> (\<exists>x. P (VgMissing x)) \<or> (\<exists>x. P (LvMissing x)) \<or>
     (\<exists>x y c. P (LvMissingIn x y c)) \<or> (\<exists>x. P (VgFull x)) \<or> (\<exists>x y. P (NoExtents x y)) \<or>
     (\<exists>x y. P (SameSize x y))"
  by (metis lvm_failure.exhaust)

lemma hit_match:
  "hit 0 s \<longleftrightarrow> match_mi lvExists s"
  "hit 1 s \<longleftrightarrow> match_mi lvLockedRe s"
  "hit 2 s \<longleftrightarrow> match_mi vgNotFound s"
  "hit 3 s \<longleftrightarrow> list_ex (\<lambda>re. match_mi re s) lvNotFound"
  "hit 4 s \<longleftrightarrow> list_ex (\<lambda>re. match_mi re s) lvOutOfRange"
  "hit 5 s \<longleftrightarrow> match_mi lvSizeMatches s"
proof -
  have two: "list_ex P xs \<longleftrightarrow> P (xs ! 0) \<or> P (xs ! 1)" if "length xs = 2" for P and xs :: "re list"
    using that by (cases xs; cases "tl xs") auto
  have l: "length lvNotFound = 2" "length lvOutOfRange = 2"
    by (simp_all add: lvNotFound_def lvOutOfRange_def)
  note M = match_lvExists match_lvLockedRe match_vgNotFound match_lvMissing match_lvMissingIn
    match_vgFull match_NoExtents match_lvSizeMatches two [OF l(1)] two [OF l(2)]
  show "hit 0 s \<longleftrightarrow> match_mi lvExists s" "hit 1 s \<longleftrightarrow> match_mi lvLockedRe s"
    "hit 2 s \<longleftrightarrow> match_mi vgNotFound s" "hit 3 s \<longleftrightarrow> list_ex (\<lambda>re. match_mi re s) lvNotFound"
    "hit 4 s \<longleftrightarrow> list_ex (\<lambda>re. match_mi re s) lvOutOfRange" "hit 5 s \<longleftrightarrow> match_mi lvSizeMatches s"
    unfolding hit_def ex_failure M by (simp_all only: proper.simps rank.simps) simp_all
qed

lemma parseLvmError_hits:
  "parseLvmError 5 stdout stderr =
     (if hit 0 stderr then verdict 0 else if hit 1 stderr then verdict 1
      else if hit 2 stderr then verdict 2 else if hit 3 stderr then verdict 3
      else if hit 4 stderr then verdict 4 else if hit 5 stderr then verdict 5
      else Some (Plain ''unexpected error: rc=%d stdout=%q stderr=%q''))"
  unfolding hit_match parseLvmError_def verdict_def by simp

lemma rank_le: "rank F \<le> 5"
  by (cases F) simp_all

lemma least_hit:
  assumes "proper F" and "reported F stderr"
    and "\<forall>G. proper G \<and> reported G stderr \<longrightarrow> rank F \<le> rank G"
  shows "parseLvmError 5 stdout stderr = verdict (rank F)"
proof -
  have "hit (rank F) stderr" using assms(1,2) by (auto simp: hit_def)
  moreover have "\<not> hit k stderr" if "k < rank F" for k
    using assms(3) that by (auto simp: hit_def)
  moreover have "rank F \<in> {0, 1, 2, 3, 4, 5}" using rank_le [of F] by (simp; linarith)
  ultimately show ?thesis unfolding parseLvmError_hits by auto
qed

section \<open>Tags on the command line and in the report\<close>

lemma tag_char_digits: "list_all (\<lambda>n. tag_char (hex_digit n)) [0..<16]"
  by code_simp

lemma plain_tag_char: "isPlain c i \<Longrightarrow> tag_char c"
  by (auto simp: isPlain_def tag_char_def)

lemma sprintf_tag_char:
  assumes "two_digits b" and "c \<in> set (sprintf_2x (of_char b))"
  shows "tag_char c"
proof -
  have "tag_char (hex_digit n)" if "n < 16" for n
    using tag_char_digits that by (simp only: list_all_iff set_upt atLeastLessThan_iff) simp
  moreover have "(of_char b :: nat) div 16 < 16"
    using nat_of_char_less_256 [of b] by (intro less_mult_imp_div_less) simp
  moreover have "(of_char b :: nat) mod 16 < 16" by simp
  ultimately show ?thesis using assms by (auto simp: sprintf_2x_def two_digits_def)
qed

lemma encode_from_tag_chars: "\<forall>b \<in> set bs. two_digits b \<Longrightarrow> list_all tag_char (encode_from i bs)"
proof (induction bs arbitrary: i)
  case (Cons b bs)
  have "list_all tag_char (sprintf_2x (of_char b))"
    using sprintf_tag_char Cons.prems by (auto simp: list_all_iff)
  moreover have "tag_char CHR ''&''" by (simp add: tag_char_def)
  ultimately show ?case using Cons by (auto dest: plain_tag_char)
qed simp

lemma tagPrefix_two_digits: "\<forall>b \<in> set tagPrefix. two_digits b"
  by (simp add: tagPrefix_def two_digits_def)

lemma encodeTagKV_tag_chars:
  assumes "good_key k" and "good_value v"
  shows "list_all tag_char (encodeTagKV k v)" and "encodeTagKV k v \<noteq> []"
proof -
  have "\<forall>b \<in> set (tagPrefix @ k @ ''='' @ v). two_digits b"
    using assms tagPrefix_two_digits by (auto simp: good_key_def good_value_def two_digits_def)
  then show "list_all tag_char (encodeTagKV k v)"
    unfolding encodeTagKV_def encodeTag_def by (rule encode_from_tag_chars)
  show "encodeTagKV k v \<noteq> []"
    unfolding encodeTagKV_split encodedTagPrefix_eq by (simp add: tagPrefix_def)
qed

lemma tagRe_match: "full_match tagRe t \<longleftrightarrow> t \<noteq> [] \<and> list_all tag_char t"
  by (simp add: full_match_lang tagRe_def lang_Plus_Cls)

lemma encodeTags_members:
  assumes "\<forall>(k, v) \<in> set tags. good_key k \<and> good_value v" and "t \<in> set (encodeTags tags)"
  shows "t \<noteq> [] \<and> list_all tag_char t"
proof -
  obtain k where k: "k \<in> fst ` set tags" "t = encodeTagKV k (the (map_of tags k))"
    using assms(2) by (auto simp: encodeTags_def)
  then obtain v where v: "map_of tags k = Some v" using map_of_eq_None_iff [of tags k] by auto
  with map_of_SomeD [OF v] assms(1) have "good_key k" "good_value v" by auto
  then show ?thesis using encodeTagKV_tag_chars k(2) v by simp
qed

lemma split_tags: "(\<And>t. t \<in> set ts \<Longrightarrow> t \<noteq> [] \<and> list_all tag_char t) \<Longrightarrow> splitLvmField (join_with '','' ts) = ts"
proof -
  assume *: "\<And>t. t \<in> set ts \<Longrightarrow> t \<noteq> [] \<and> list_all tag_char t"
  have "\<not> tag_char CHR '',''" by (simp add: tag_char_def in_range_def)
  with * have "\<forall>t \<in> set ts. CHR '','' \<notin> set t" by (auto simp: list_all_iff)
  moreover have "join_with '','' ts \<noteq> []" if "ts \<noteq> []"
    using join_eq_Nil [of "'',''" ts] * that by auto
  ultimately show ?thesis by (cases "ts = []") (auto simp: splitLvmField_def split_join)
qed

section \<open>Properties\<close>

text \<open>C31: An ordinary failure (exit code 5) is classified by what LVM printed, whatever else is on the
  other lines and in whichever case: among the messages reported, the first in the order
  exists, locked, no group, no volume, no space, same size decides the status; without any of
  them the error is unexpected.\<close>

theorem parseLvmError_classifies:
  "(proper F \<and> reported F stderr \<and> (\<forall>G. proper G \<and> reported G stderr \<longrightarrow> rank F \<le> rank G) \<longrightarrow>
      parseLvmError 5 stdout stderr = verdict (rank F)) \<and>
   ((\<forall>G. proper G \<longrightarrow> \<not> reported G stderr) \<longrightarrow>
      parseLvmError 5 stdout stderr = Some (Plain ''unexpected error: rc=%d stdout=%q stderr=%q''))"
  using least_hit [of F stderr stdout] by (auto simp: parseLvmError_hits hit_def)

abbreviation exists_output :: string where
  \<open>exists_output \<equiv> ''  WARNING: x'' @ [CHR 0x0A] @ ''  Logical volume "lv1" already exists in volume group "vg"''\<close>

lemma exists_output_reported: "reported (LvExists ''lv1'') exists_output"
proof -
  have \<open>map fold_case exists_output = map fold_case (''  WARNING: x'' @ [CHR 0x0A]) @ ''  '' @
      map fold_case (message (LvExists ''lv1'')) @ map fold_case '' "vg"''\<close>
    by code_simp
  then show ?thesis unfolding reported_def
    by (intro exI conjI) (assumption, simp, simp add: is_space_def)
qed

theorem parseLvmError_classifies_witness:
  "parseLvmError 5 '''' exists_output = Some (Status AlreadyExists ''target already exists'')"
proof -
  have "parseLvmError 5 '''' exists_output = verdict (rank (LvExists ''lv1''))"
    using parseLvmError_classifies [of "LvExists ''lv1''" exists_output "''''"] exists_output_reported
    by (simp add: quotable_def)
  then show ?thesis by (simp add: verdict_def)
qed


text \<open>A machine that records the commands it is given and always succeeds.\<close>

definition recorder :: "(string \<times> string list) list lvm_env" where
  "recorder =
     \<lparr>Exec = (\<lambda>exe args w.
        (\<lparr>ex_code = 0, ex_stdout = '''', ex_stderr = '''', ex_failed = False\<rparr>, w @ [(exe, args)])),
      json_Unmarshal = (\<lambda>_. Inr \<lparr>Report = [([], [])]\<rparr>),
      TimestampProto = Some\<rparr>"

abbreviation tagged_request :: "string list \<Rightarrow> LvCreateRequest" where
  "tagged_request ts \<equiv>
     \<lparr>lvc_VgName = ''vg'', lvc_LvName = ''lv'', lvc_Size = 512, lvc_LvTags = ts, lvc_Origin = '''',
      lvc_Activate = LV_ACTIVATION_MODE_NONE\<rparr>"


end
