(* ===== verification/GoCrypto.thy ===== *)
theory GoCrypto
  imports Prelude
begin

text \<open>
  The two routines of the Go standard library that name logical volumes:
  \<^verbatim>\<open>crypto/sha256\<close> (FIPS 180-4) on 32-bit words and \<^verbatim>\<open>encoding/base64\<close> without padding.
  Byte strings are strings, bytes in arithmetic are numbers below 256.
\<close>

section \<open>SHA-256\<close>

type_synonym w32 = "32 word"

definition sha_k :: "w32 list" where
  "sha_k =
    [1116352408, 1899447441, 3049323471, 3921009573, 961987163, 1508970993, 2453635748, 2870763221,
     3624381080, 310598401, 607225278, 1426881987, 1925078388, 2162078206, 2614888103, 3248222580,
     3835390401, 4022224774, 264347078, 604807628, 770255983, 1249150122, 1555081692, 1996064986,
     2554220882, 2821834349, 2952996808, 3210313671, 3336571891, 3584528711, 113926993, 338241895,
     666307205, 773529912, 1294757372, 1396182291, 1695183700, 1986661051, 2177026350, 2456956037,
     2730485921, 2820302411, 3259730800, 3345764771, 3516065817, 3600352804, 4094571909, 275423344,
     430227734, 506948616, 659060556, 883997877, 958139571, 1322822218, 1537002063, 1747873779,
     1955562222, 2024104815, 2227730452, 2361852424, 2428436474, 2756734187, 3204031479, 3329325298]"

definition sha_init :: "w32 list" where
  "sha_init = [1779033703, 3144134277, 1013904242, 2773480762, 1359893119, 2600822924, 528734635, 1541459225]"

definition rotr :: "nat \<Rightarrow> w32 \<Rightarrow> w32" where
  "rotr n w = or (drop_bit n w) (push_bit (32 - n) w)"

text \<open>\<open>be_bytes n x\<close>: the \<open>n\<close> low bytes of \<open>x\<close>, the most significant first.\<close>

fun be_bytes :: "nat \<Rightarrow> nat \<Rightarrow> nat list" where
  "be_bytes 0 x = []"
| "be_bytes (Suc n) x = be_bytes n (x div 256) @ [x mod 256]"

definition sha_pad :: "nat list \<Rightarrow> nat list" where
  "sha_pad m =
     m @ [128] @ replicate ((119 - length m mod 64) mod 64) 0 @ be_bytes 8 (8 * length m)"

definition be_word :: "nat list \<Rightarrow> w32" where
  "be_word bs = of_nat (foldl (\<lambda>x b. 256 * x + b) 0 bs)"

fun chunks :: "nat \<Rightarrow> nat \<Rightarrow> 'a list \<Rightarrow> 'a list list" where
  "chunks 0 k xs = []"
| "chunks (Suc n) k xs = take k xs # chunks n k (drop k xs)"

text \<open>The message schedule is kept with the newest word first.\<close>

fun sha_extend :: "nat \<Rightarrow> w32 list \<Rightarrow> w32 list" where
  "sha_extend 0 w = w"
| "sha_extend (Suc n) w =
     (let a = w ! 14; b = w ! 1;
          s0 = xor (xor (rotr 7 a) (rotr 18 a)) (drop_bit 3 a);
          s1 = xor (xor (rotr 17 b) (rotr 19 b)) (drop_bit 10 b)
      in sha_extend n ((w ! 15 + s0 + w ! 6 + s1) # w))"

fun sha_round :: "w32 list \<Rightarrow> w32 \<times> w32 \<Rightarrow> w32 list" where
  "sha_round [a, b, c, d, e, f, g, h] (k, w) =
     (let s1 = xor (xor (rotr 6 e) (rotr 11 e)) (rotr 25 e);
          ch = xor (and e f) (and (not e) g);
          t1 = h + s1 + ch + k + w;
          s0 = xor (xor (rotr 2 a) (rotr 13 a)) (rotr 22 a);
          maj = xor (xor (and a b) (and a c)) (and b c)
      in [t1 + (s0 + maj), a, b, c, d + t1, e, f, g])"
| "sha_round s _ = s"

definition sha_block :: "w32 list \<Rightarrow> nat list \<Rightarrow> w32 list" where
  "sha_block h block =
     (let w = rev (sha_extend 48 (rev (map be_word (chunks 16 4 block))))
      in map2 (+) h (foldl sha_round h (zip sha_k w)))"

definition sha256 :: "nat list \<Rightarrow> nat list" where
  "sha256 m =
     (let p = sha_pad m;
          h = foldl sha_block sha_init (chunks (length p div 64) 64 p)
      in concat (map (\<lambda>w. be_bytes 4 (unat w)) h))"

section \<open>Base64\<close>

definition b64_char :: "nat \<Rightarrow> char" where
  "b64_char n = ''ABCDEFGHIJKLMNOPQRSTUVWXYZabcdefghijklmnopqrstuvwxyz0123456789+/'' ! n"

fun base64 :: "nat list \<Rightarrow> string" where
  "base64 (a # b # c # r) =
     [b64_char (a div 4), b64_char (a mod 4 * 16 + b div 16),
      b64_char (b mod 16 * 4 + c div 64), b64_char (c mod 64)] @ base64 r"
| "base64 [a, b] = [b64_char (a div 4), b64_char (a mod 4 * 16 + b div 16), b64_char (b mod 16 * 4)]"
| "base64 [a] = [b64_char (a div 4), b64_char (a mod 4 * 16)]"
| "base64 [] = []"

section \<open>Lemmas\<close>

lemma length_be_bytes [simp]: "length (be_bytes n x) = n"
  by (induction n arbitrary: x) simp_all

lemma be_bytes_less: "b \<in> set (be_bytes n x) \<Longrightarrow> b < 256"
  by (induction n arbitrary: x) auto

lemma length_sha_round: "length s = 8 \<Longrightarrow> length (sha_round s kw) = 8"
  by (cases "(s, kw)" rule: sha_round.cases) (simp_all add: Let_def)

lemma length_sha_rounds: "length s = 8 \<Longrightarrow> length (foldl sha_round s kws) = 8"
  by (induction kws arbitrary: s) (simp_all add: length_sha_round)

lemma length_sha_blocks: "length h = 8 \<Longrightarrow> length (foldl sha_block h bs) = 8"
  by (induction bs arbitrary: h) (simp_all add: sha_block_def Let_def length_sha_rounds)

lemma length_concat_be: "length (concat (map (\<lambda>w. be_bytes k (f w)) ws)) = k * length ws"
  by (induction ws) simp_all

lemma length_sha256: "length (sha256 m) = 32"
proof -
  have "length sha_init = 8" by (simp add: sha_init_def)
  then show ?thesis
    unfolding sha256_def Let_def length_concat_be by (simp add: length_sha_blocks)
qed

lemma sha256_bytes: "b \<in> set (sha256 m) \<Longrightarrow> b < 256"
  unfolding sha256_def Let_def using be_bytes_less by auto

definition is_b64 :: "char \<Rightarrow> bool" where
  "is_b64 c \<longleftrightarrow> c \<in> set ''ABCDEFGHIJKLMNOPQRSTUVWXYZabcdefghijklmnopqrstuvwxyz0123456789+/''"

lemma b64_char_is_b64: "n < 64 \<Longrightarrow> is_b64 (b64_char n)"
  unfolding is_b64_def b64_char_def by (rule nth_mem) simp

lemma b64_distinct:
  "distinct ''ABCDEFGHIJKLMNOPQRSTUVWXYZabcdefghijklmnopqrstuvwxyz0123456789+/''"
  by simp

lemma b64_char_inj: "m < 64 \<Longrightarrow> n < 64 \<Longrightarrow> b64_char m = b64_char n \<longleftrightarrow> m = n"
  unfolding b64_char_def by (rule nth_eq_iff_index_eq [OF b64_distinct]) simp_all

lemma b64_digit: "a < 256 \<Longrightarrow> a div 4 < (64::nat)" "a mod 4 * 16 < (64::nat)"
  "a mod 16 * 4 < (64::nat)" "a mod 64 < (64::nat)"
proof -
  have "a mod 4 < 4" "a mod 16 < 16" by simp_all
  then show "a mod 4 * 16 < 64" "a mod 16 * 4 < 64" by auto
qed auto

lemma b64_digit2:
  assumes "b < (256::nat)"
  shows "a mod 4 * 16 + b div 16 < 64" "a mod 16 * 4 + b div 64 < 64"
proof -
  have "a mod 4 < 4" "b div 16 < 16" "a mod 16 < 16" "b div 64 < 4"
    using assms by auto
  then show "a mod 4 * 16 + b div 16 < 64" "a mod 16 * 4 + b div 64 < 64" by auto
qed

lemmas b64_digits = b64_digit b64_digit2

lemma digit_join:
  assumes "x < k" and "y < (k::nat)" and "u * k + x = v * k + y"
  shows "u = v \<and> x = y"
proof -
  have "(u * k + x) div k = u" "(v * k + y) div k = v" using assms(1,2) by simp_all
  with assms(3) show ?thesis by auto
qed

lemma b64_join:
  assumes "b < 256" "b' < (256::nat)"
    and "a mod 4 * 16 + b div 16 = a' mod 4 * 16 + b' div 16"
  shows "a mod 4 = a' mod 4 \<and> b div 16 = b' div 16"
  using assms by (intro digit_join) auto

lemma b64_join2:
  assumes "c < 256" "c' < (256::nat)"
    and "b mod 16 * 4 + c div 64 = b' mod 16 * 4 + c' div 64"
  shows "b mod 16 = b' mod 16 \<and> c div 64 = c' div 64"
  using assms by (intro digit_join) auto

lemma div_mod_eq_nat: "a div k = a' div k \<Longrightarrow> a mod k = a' mod k \<Longrightarrow> a = (a'::nat)"
  by (metis div_mult_mod_eq)

lemma length_base64: "length (base64 bs) = (4 * length bs + 2) div 3"
  by (induction bs rule: base64.induct) simp_all

lemma base64_alphabet: "\<forall>b \<in> set bs. b < 256 \<Longrightarrow> c \<in> set (base64 bs) \<Longrightarrow> is_b64 c"
  by (induction bs rule: base64.induct) (auto simp: b64_char_is_b64 b64_digits)

text \<open>Encoding loses nothing: two byte strings of the same length with the same text are equal.\<close>

lemma base64_inj:
  assumes "length xs = length ys" and "\<forall>b \<in> set xs. b < 256" and "\<forall>b \<in> set ys. b < 256"
    and "base64 xs = base64 ys"
  shows "xs = ys"
  using assms
proof (induction xs arbitrary: ys rule: base64.induct)
  case (1 a b c r)
  from 1(2) obtain a' b' c' r' where ys: "ys = a' # b' # c' # r'"
    by (metis Suc_length_conv length_Cons)
  have d: "a div 4 = a' div 4" "a mod 4 * 16 + b div 16 = a' mod 4 * 16 + b' div 16"
    "b mod 16 * 4 + c div 64 = b' mod 16 * 4 + c' div 64" "c mod 64 = c' mod 64"
    using 1(3-5) ys by (simp_all add: b64_char_inj b64_digits)
  have "b < 256" "b' < 256" "c < 256" "c' < 256" using 1(3,4) ys by auto
  then have m: "a mod 4 = a' mod 4" "b div 16 = b' div 16" "b mod 16 = b' mod 16"
    "c div 64 = c' div 64"
    using b64_join [OF _ _ d(2)] b64_join2 [OF _ _ d(3)] by simp_all
  have "a = a'" by (rule div_mod_eq_nat [OF d(1) m(1)])
  moreover have "b = b'" by (rule div_mod_eq_nat [OF m(2,3)])
  moreover have "c = c'" by (rule div_mod_eq_nat [OF m(4) d(4)])
  moreover have "r = r'" using 1 ys by simp
  ultimately show ?case using ys by simp
next
  case (2 a b)
  from 2(1) have "length ys = Suc (Suc 0)" by simp
  then obtain a' b' where ys: "ys = [a', b']"
    by (auto simp: length_Suc_conv)
  have d: "a div 4 = a' div 4" "a mod 4 * 16 + b div 16 = a' mod 4 * 16 + b' div 16"
    "b mod 16 * 4 = b' mod 16 * 4"
    using 2(2-4) ys by (simp_all add: b64_char_inj b64_digits)
  have "b < 256" "b' < 256" using 2(2,3) ys by auto
  then have m: "a mod 4 = a' mod 4" "b div 16 = b' div 16" "b mod 16 = b' mod 16"
    using b64_join [OF _ _ d(2)] d(3) by simp_all
  have "a = a'" by (rule div_mod_eq_nat [OF d(1) m(1)])
  moreover have "b = b'" by (rule div_mod_eq_nat [OF m(2,3)])
  ultimately show ?case using ys by simp
next
  case (3 a)
  from 3(1) have "length ys = Suc 0" by simp
  then obtain a' where ys: "ys = [a']"
    by (auto simp: length_Suc_conv)
  have "a div 4 = a' div 4" "a mod 4 = a' mod 4"
    using 3(2-4) ys by (simp_all add: b64_char_inj b64_digits)
  then have "a = a'" by (rule div_mod_eq_nat)
  then show ?case using ys by simp
next
  case 4
  then show ?case by simp
qed

end
