(* ===== verification/VolumeRef.thy ===== *)
theory VolumeRef
  imports GoCrypto GoRegexp GoStrings Tags Proto
begin

text \<open>
  Volume references: \<^verbatim>\<open>pkg/driverd/volumeref.go\<close>, \<^verbatim>\<open>pkg/driverd/volumeinfo.go\<close>, the volume
  types of \<^verbatim>\<open>tags.go\<close> and the two identifier patterns of \<^verbatim>\<open>controllerserver.go\<close>. A reference
  names a logical volume in a volume group; the CSI volume id is \<open>lv@vg\<close>.
\<close>

section \<open>The code\<close>

type_synonym LogVolType = string

definition VolumeVolType :: LogVolType where "VolumeVolType = ''volume''"

definition SnapshotVolType :: LogVolType where "SnapshotVolType = ''snapshot''"

definition TemporaryVolType :: LogVolType where "TemporaryVolType = ''temp''"

definition volumeLvPrefix :: string where "volumeLvPrefix = ''csl-v-''"

definition snapshotLvPrefix :: string where "snapshotLvPrefix = ''csl-s-''"

definition tempLvPrefix :: string where "tempLvPrefix = ''csl-t-''"

definition volTypeToPrefix :: "LogVolType \<Rightarrow> string option" where
  "volTypeToPrefix t =
     (if t = VolumeVolType then Some volumeLvPrefix
      else if t = SnapshotVolType then Some snapshotLvPrefix
      else if t = TemporaryVolType then Some tempLvPrefix
      else None)"

record VolumeRef =
  LvName :: string
  VgName :: string

text \<open>\<^verbatim>\<open>[]byte(name)\<close>; the name of a volume is the hash of the name it was asked for.\<close>

definition go_bytes :: "string \<Rightarrow> nat list" where
  "go_bytes s = map of_char s"

definition b64_of_hash :: "string \<Rightarrow> string" where
  "b64_of_hash name = base64 (sha256 (go_bytes name))"

definition replace_slash :: "string \<Rightarrow> string" where
  "replace_slash s = map (\<lambda>c. if c = CHR ''/'' then CHR ''_'' else c) s"

definition NewVolumeRefFromVgTypeName :: "string \<Rightarrow> LogVolType \<Rightarrow> string \<Rightarrow> VolumeRef option" where
  "NewVolumeRefFromVgTypeName vg t name =
     (case volTypeToPrefix t of
        None \<Rightarrow> None
      | Some prefix \<Rightarrow>
          Some \<lparr>LvName = prefix @ replace_slash (b64_of_hash name),
                VgName = vg\<rparr>)"

definition NewVolumeRefFromID :: "string \<Rightarrow> go_error + VolumeRef" where
  "NewVolumeRefFromID volumeID =
     (let tokens = split_on CHR ''@'' volumeID in
      if length tokens \<noteq> 2 then Inl (Plain ''invalid volume id %q'')
      else Inr \<lparr>LvName = tokens ! 0, VgName = tokens ! 1\<rparr>)"

definition NewVolumeRefFromLv :: "LogicalVolume \<Rightarrow> VolumeRef" where
  "NewVolumeRefFromLv lv = \<lparr>LvName = lv_LvName lv, VgName = lv_VgName lv\<rparr>"

definition ref_ID :: "VolumeRef \<Rightarrow> string" where
  "ref_ID v = LvName v @ ''@'' @ VgName v"

definition ref_VgLv :: "VolumeRef \<Rightarrow> string" where
  "ref_VgLv v = VgName v @ ''/'' @ LvName v"

definition ref_DevPath :: "VolumeRef \<Rightarrow> string" where
  "ref_DevPath v = ''/dev/'' @ VgName v @ ''/'' @ LvName v"

text \<open>\<^verbatim>\<open>VolumeInfo\<close>: the logical volume as reported, read as a reference through the embedding.\<close>

definition NewVolumeInfoFromLv :: "LogicalVolume \<Rightarrow> VolumeRef \<times> LogicalVolume" where
  "NewVolumeInfoFromLv lv = (\<lparr>LvName = lv_LvName lv, VgName = lv_VgName lv\<rparr>, lv)"

definition OriginRef :: "VolumeRef \<times> LogicalVolume \<Rightarrow> VolumeRef" where
  "OriginRef v = \<lparr>LvName = lv_Origin (snd v), VgName = lv_VgName (snd v)\<rparr>"

definition volume_Tags :: "VolumeRef \<times> LogicalVolume \<Rightarrow> go_error + tag_map" where
  "volume_Tags v =
     (case decodeTags (lv_LvTags (snd v)) of
        Inl _ \<Rightarrow> Inl (Status Internal ''failed to decode tags for volume %q: %v'')
      | Inr tags \<Rightarrow> Inr tags)"

text \<open>The patterns \<^verbatim>\<open>vgRe\<close> and \<^verbatim>\<open>volumeIdRe\<close>.\<close>

definition is_alnum :: "char \<Rightarrow> bool" where
  "is_alnum b \<longleftrightarrow> in_range CHR ''a'' CHR ''z'' b \<or> in_range CHR ''A'' CHR ''Z'' b \<or>
     in_range CHR ''0'' CHR ''9'' b"

definition id_head :: "char \<Rightarrow> bool" where
  "id_head c \<longleftrightarrow> is_alnum c \<or> c \<in> {CHR ''+'', CHR ''_'', CHR ''.''}"

definition id_char :: "char \<Rightarrow> bool" where
  "id_char c \<longleftrightarrow> id_head c \<or> c = CHR ''-''"

definition vgRe :: re where
  "vgRe = Cat (Cls id_head) (Many (Cls id_char))"

definition volumeIdRe :: re where
  "volumeIdRe = Cat vgRe (Cat (Cls (\<lambda>c. c = CHR ''@'')) vgRe)"

section \<open>Lemmas\<close>

text \<open>A name LVM accepts: what \<^verbatim>\<open>vgRe\<close> matches.\<close>

definition lvm_name :: "string \<Rightarrow> bool" where
  "lvm_name s \<longleftrightarrow> s \<noteq> [] \<and> id_head (hd s) \<and> list_all id_char (tl s)"

lemma vgRe_lang: "lang vgRe s \<longleftrightarrow> lvm_name s"
  by (cases s) (simp_all add: vgRe_def lang_Cat_Cls lang_Many_Cls lvm_name_def)

lemma vgRe_match: "full_match vgRe s \<longleftrightarrow> lvm_name s"
  by (simp add: full_match_lang vgRe_lang)

lemma volumeIdRe_match:
  "full_match volumeIdRe s \<longleftrightarrow> (\<exists>lv vg. s = lv @ ''@'' @ vg \<and> lvm_name lv \<and> lvm_name vg)"
proof -
  have "full_match volumeIdRe s \<longleftrightarrow>
        (\<exists>u v. s = u @ v \<and> lvm_name u \<and> (\<exists>c cs. v = c # cs \<and> c = CHR ''@'' \<and> lvm_name cs))"
    unfolding full_match_lang volumeIdRe_def lang_Cat_iff [of vgRe "Cat (Cls _) _"] lang_Cat_Cls
      vgRe_lang ..
  then show ?thesis by auto
qed

lemma volumeIdRe_ref_ID:
  assumes "lvm_name (LvName v)" and "lvm_name (VgName v)"
  shows "full_match volumeIdRe (ref_ID v)"
  unfolding volumeIdRe_match ref_ID_def using assms by blast

lemma lvm_name_chars: "lvm_name s \<Longrightarrow> \<forall>c \<in> set s. id_char c"
  by (cases s) (simp_all add: lvm_name_def id_char_def list_all_iff)

lemma id_char_no_at: "\<not> id_char CHR ''@''" "\<not> id_char CHR ''/''"
  by (simp_all add: id_char_def id_head_def is_alnum_def in_range_def)

lemma lvm_name_no_at: "lvm_name s \<Longrightarrow> CHR ''@'' \<notin> set s \<and> CHR ''/'' \<notin> set s"
  using lvm_name_chars [of s] id_char_no_at by auto

lemma b64_table:
  "list_all (\<lambda>c. id_char (if c = CHR ''/'' then CHR ''_'' else c))
     ''ABCDEFGHIJKLMNOPQRSTUVWXYZabcdefghijklmnopqrstuvwxyz0123456789+/''"
  by code_simp

lemma id_char_b64: "is_b64 c \<Longrightarrow> id_char (if c = CHR ''/'' then CHR ''_'' else c)"
  using b64_table unfolding list_all_iff is_b64_def by (rule bspec)

lemma b64_of_hash_chars: "c \<in> set (b64_of_hash name) \<Longrightarrow> is_b64 c"
  unfolding b64_of_hash_def using base64_alphabet sha256_bytes by blast

lemma b64_of_hash_length: "length (b64_of_hash name) = 43"
  by (simp add: b64_of_hash_def length_base64 length_sha256)

lemma b64_of_hash_eq: "b64_of_hash m = b64_of_hash n \<longleftrightarrow> sha256 (go_bytes m) = sha256 (go_bytes n)"
  unfolding b64_of_hash_def using base64_inj sha256_bytes length_sha256 by metis

lemma length_replace_slash [simp]: "length (replace_slash s) = length s"
  by (simp add: replace_slash_def)

lemma slash_inj:
  assumes "\<forall>c \<in> set xs. is_b64 c" and "\<forall>c \<in> set ys. is_b64 c"
    and "replace_slash xs = replace_slash ys"
  shows "xs = ys"
proof -
  have "\<not> is_b64 CHR ''_''" by (simp add: is_b64_def)
  then have "inj_on (\<lambda>c. if c = CHR ''/'' then CHR ''_'' else c) (set xs \<union> set ys)"
    using assms(1,2) by (auto simp: inj_on_def)
  moreover have "map (\<lambda>c. if c = CHR ''/'' then CHR ''_'' else c) xs =
      map (\<lambda>c. if c = CHR ''/'' then CHR ''_'' else c) ys"
    using assms(3) by (simp add: replace_slash_def)
  ultimately show ?thesis using map_inj_on by blast
qed

lemma replace_slash_b64_of_hash: "\<forall>c \<in> set (replace_slash (b64_of_hash name)). id_char c"
  unfolding replace_slash_def set_map ball_simps using b64_of_hash_chars id_char_b64 by blast

lemma replace_slash_b64_eq:
  "replace_slash (b64_of_hash m) = replace_slash (b64_of_hash n) \<longleftrightarrow>
   sha256 (go_bytes m) = sha256 (go_bytes n)"
proof
  assume "replace_slash (b64_of_hash m) = replace_slash (b64_of_hash n)"
  then have "b64_of_hash m = b64_of_hash n"
    by (rule slash_inj [rotated 2]) (simp_all add: b64_of_hash_chars)
  then show "sha256 (go_bytes m) = sha256 (go_bytes n)" by (simp add: b64_of_hash_eq)
qed (simp add: b64_of_hash_eq [symmetric])

lemma prefix_cases:
  "volTypeToPrefix t = Some p \<Longrightarrow>
   length p = 6 \<and> lvm_name p \<and> p \<in> {volumeLvPrefix, snapshotLvPrefix, tempLvPrefix}"
  by (auto simp: volTypeToPrefix_def volumeLvPrefix_def snapshotLvPrefix_def tempLvPrefix_def
      lvm_name_def id_char_def id_head_def is_alnum_def in_range_def split: if_splits)

lemma volTypeToPrefix_total:
  "t \<in> {VolumeVolType, SnapshotVolType, TemporaryVolType} \<Longrightarrow> \<exists>p. volTypeToPrefix t = Some p"
  by (auto simp: volTypeToPrefix_def)

lemma prefix_inj:
  "volTypeToPrefix t = Some p \<Longrightarrow> volTypeToPrefix t' = Some p \<Longrightarrow> t = t'"
  by (auto simp: volTypeToPrefix_def volumeLvPrefix_def snapshotLvPrefix_def tempLvPrefix_def
      split: if_splits)

lemma lvm_name_append: "lvm_name p \<Longrightarrow> \<forall>c \<in> set s. id_char c \<Longrightarrow> lvm_name (p @ s)"
  by (cases p) (auto simp: lvm_name_def list_all_iff)

lemma ref_ID_roundtrip:
  assumes "lvm_name (LvName v)" and "lvm_name (VgName v)"
  shows "NewVolumeRefFromID (ref_ID v) = Inr v"
  using assms [THEN lvm_name_no_at]
  by (simp add: NewVolumeRefFromID_def ref_ID_def split_on_append split_on_none)

text \<open>Two requests get the same reference only for the same group, type and digest: the encoding and the
  replacement of \<open>/\<close> lose nothing.\<close>

lemma NewVolumeRefFromVgTypeName_injective:
  assumes "volTypeToPrefix t \<noteq> None" and "volTypeToPrefix t' \<noteq> None"
  shows "NewVolumeRefFromVgTypeName vg t m = NewVolumeRefFromVgTypeName vg' t' n \<longleftrightarrow>
         vg = vg' \<and> t = t' \<and> sha256 (go_bytes m) = sha256 (go_bytes n)"
proof -
  obtain p p' where p: "volTypeToPrefix t = Some p" and p': "volTypeToPrefix t' = Some p'"
    using assms by auto
  have l: "length p = length p'" using prefix_cases [OF p] prefix_cases [OF p'] by simp
  have "p = p' \<longleftrightarrow> t = t'" using p p' prefix_inj by auto
  moreover have "NewVolumeRefFromVgTypeName vg t m = NewVolumeRefFromVgTypeName vg' t' n \<longleftrightarrow>
      (p = p' \<and> replace_slash (b64_of_hash m) = replace_slash (b64_of_hash n)) \<and> vg = vg'"
    unfolding NewVolumeRefFromVgTypeName_def p p' option.case option.inject VolumeRef.iffs
      append_eq_append_conv [OF disjI1 [OF l]] by simp
  ultimately show ?thesis by (simp add: replace_slash_b64_eq conj_commute)
qed

text \<open>The id pattern and the parser agree: an id that matches \<^verbatim>\<open>volumeIdRe\<close> always parses,
  to the one reference whose id it is, and both of its names match \<^verbatim>\<open>vgRe\<close>.\<close>

lemma volumeIdRe_parses:
  assumes "full_match volumeIdRe volumeID"
  shows "\<exists>v. NewVolumeRefFromID volumeID = Inr v \<and> ref_ID v = volumeID \<and>
           full_match vgRe (LvName v) \<and> full_match vgRe (VgName v)"
proof -
  obtain lv vg where s: "volumeID = lv @ ''@'' @ vg" "lvm_name lv" "lvm_name vg"
    using assms unfolding volumeIdRe_match by blast
  then have "NewVolumeRefFromID volumeID = Inr \<lparr>LvName = lv, VgName = vg\<rparr>"
    using ref_ID_roundtrip [of "\<lparr>LvName = lv, VgName = vg\<rparr>"] 
    by (simp add: ref_ID_def)
  with s show ?thesis by (simp add: ref_ID_def vgRe_match)
qed

section \<open>Properties\<close>

text \<open>C27: Every name the driver generates is one LVM and the CSI id pattern accept: for each of
  the three volume types the reference exists, its logical volume name has 49 bytes, and its
  id matches \<^verbatim>\<open>volumeIdRe\<close> and parses back to the reference whenever the group name matches
  \<^verbatim>\<open>vgRe\<close>. And names never mix up two requests: another request gets the same logical volume only in the same group, for
  the same type and a name with the same SHA-256 digest.\<close>

theorem NewVolumeRefFromVgTypeName_valid:
  assumes "t \<in> {VolumeVolType, SnapshotVolType, TemporaryVolType}" and "full_match vgRe vg"
  shows "\<exists>v. NewVolumeRefFromVgTypeName vg t name = Some v \<and> VgName v = vg \<and>
           length (LvName v) = 49 \<and> full_match volumeIdRe (ref_ID v) \<and>
           NewVolumeRefFromID (ref_ID v) = Inr v \<and>
           (\<forall>vg' t' n. NewVolumeRefFromVgTypeName vg' t' n = Some v \<longrightarrow>
              vg' = vg \<and> t' = t \<and> sha256 (go_bytes n) = sha256 (go_bytes name))"
proof -
  obtain p where p: "volTypeToPrefix t = Some p" using volTypeToPrefix_total [OF assms(1)] by blast
  let ?h = "replace_slash (b64_of_hash name)"
  have v: "NewVolumeRefFromVgTypeName vg t name = Some \<lparr>LvName = p @ ?h, VgName = vg\<rparr>"
    using p by (simp add: NewVolumeRefFromVgTypeName_def)
  have "\<forall>c \<in> set ?h. id_char c" by (rule replace_slash_b64_of_hash)
  then have lv: "lvm_name (p @ ?h)" using prefix_cases [OF p] lvm_name_append by blast
  have vg: "lvm_name vg" using assms(2) by (simp add: vgRe_match)
  let ?v = "\<lparr>LvName = p @ ?h, VgName = vg\<rparr>"
  have names: "lvm_name (LvName ?v)" "lvm_name (VgName ?v)" using lv vg by simp_all
  have only: "vg' = vg \<and> t' = t \<and> sha256 (go_bytes n) = sha256 (go_bytes name)"
    if r: "NewVolumeRefFromVgTypeName vg' t' n = Some ?v" for vg' t' n
  proof -
    have "volTypeToPrefix t' \<noteq> None" using r by (cases "volTypeToPrefix t'") (simp_all add: NewVolumeRefFromVgTypeName_def)
    moreover have "NewVolumeRefFromVgTypeName vg' t' n = NewVolumeRefFromVgTypeName vg t name" using r v by (rule trans [OF _ sym])
    ultimately show ?thesis using NewVolumeRefFromVgTypeName_injective [of t' t vg' n vg name] p by blast
  qed
  show ?thesis
  proof (intro exI [of _ ?v] conjI allI impI)
    show "NewVolumeRefFromVgTypeName vg t name = Some ?v" by (rule v)
    show "VgName ?v = vg" by simp
    show "length (LvName ?v) = 49" using prefix_cases [OF p] b64_of_hash_length by simp
    show "full_match volumeIdRe (ref_ID ?v)" "NewVolumeRefFromID (ref_ID ?v) = Inr ?v"
      by (rule volumeIdRe_ref_ID ref_ID_roundtrip, rule names, rule names)+
  qed (use only in blast)+
qed

theorem NewVolumeRefFromVgTypeName_valid_witness:
  "\<exists>v. NewVolumeRefFromVgTypeName ''vg1'' SnapshotVolType ''daily'' = Some v \<and>
     NewVolumeRefFromID (ref_ID v) = Inr v \<and> NewVolumeRefFromVgTypeName ''vg1'' VolumeVolType ''daily'' \<noteq> Some v"
proof -
  have "full_match vgRe ''vg1''" by code_simp
  moreover have "VolumeVolType \<noteq> SnapshotVolType" by (simp add: VolumeVolType_def SnapshotVolType_def)
  ultimately show ?thesis
    using NewVolumeRefFromVgTypeName_valid [of SnapshotVolType "''vg1''" "''daily''"] by blast
qed

end
