(* ===== verification/VolumeLock.thy ===== *)
theory VolumeLock
  imports VolumeRef
begin

text \<open>
  Volume locking, \<^verbatim>\<open>pkg/driverd/volumelock.go\<close>, with \<^verbatim>\<open>baseserver.go\<close> and the node id conversions
  of \<^verbatim>\<open>controllerserver.go\<close>. A volume is locked on this node by activating it exclusively
  through lvmctrld and tagging it with its owner; several operations of the node may hold one
  volume, and the last to let go of it releases it.

  \<^verbatim>\<open>vl.locks\<close> is a map from volumes to the sets of operations that hold them. Every operation
  runs under \<^verbatim>\<open>vl.mutex\<close>, so one is a function of the map and of the state \<open>'w\<close> behind the
  lvmctrld client; \<open>None\<close> is a panic.
\<close>

section \<open>baseserver.go\<close>

record 'w baseServer =
  lvmctrld :: "'w LvmCtrldClient"
  nodeID :: nat

definition newBaseServer :: "'w LvmCtrldClient \<Rightarrow> 'w \<Rightarrow> (go_error + 'w baseServer) \<times> 'w" where
  "newBaseServer cl w =
     (case cl_GetStatus cl w of
        (Inl _, w') \<Rightarrow> (Inl (Plain ''failed to retrieve status from lvmctrld: %v''), w')
      | (Inr node_id, w') \<Rightarrow> (Inr \<lparr>lvmctrld = cl, nodeID = node_id mod 65536\<rparr>, w'))"

text \<open>\<^verbatim>\<open>fetch\<close> indexes the first volume of the answer, which panics when it is empty.\<close>

definition fetch ::
  "'w baseServer \<Rightarrow> VolumeRef \<Rightarrow> 'w \<Rightarrow> ((go_error + (VolumeRef \<times> LogicalVolume)) \<times> 'w) option" where
  "fetch bs ref w =
     (case cl_Lvs (lvmctrld bs) \<lparr>lvs_Select = '''', lvs_Sort = [], lvs_Target = [ref_VgLv ref]\<rparr> w of
        (Inl err, w') \<Rightarrow>
          Some (Inl (if error_code err = NotFound then Status NotFound ''volume %s not found''
                     else Status Internal ''failed to fetch volume %s: %v''), w')
      | (Inr [], w') \<Rightarrow> None
      | (Inr (lv # _), w') \<Rightarrow> Some (Inr (NewVolumeInfoFromLv lv), w'))"

definition nodeIDToString :: "nat \<Rightarrow> string" where
  "nodeIDToString n = decimal n"

definition nodeIDFromString :: "string \<Rightarrow> go_error + nat" where
  "nodeIDFromString node =
     (case atoi node of
        None \<Rightarrow> Inl (Plain ''invalid node id %q: %v'')
      | Some n \<Rightarrow>
          if n < 0 \<or> n > 2000 then Inl (Plain ''invalid node id %q: %v'') else Inr (nat n))"

section \<open>volumelock.go\<close>

record 'w volumeLocker =
  base :: "'w baseServer"
  nodeName :: string

type_synonym locks = "string \<rightharpoonup> string set"

definition defaultLockOp :: string where
  "defaultLockOp = ''stage''"

text \<open>The tags \<^verbatim>\<open>setOwner\<close> removes and adds, given the tags of the volume.\<close>

definition stale_tag :: "tag_map \<Rightarrow> tag_key \<Rightarrow> string option \<Rightarrow> string list" where
  "stale_tag tags key owner =
     (case map_of tags key of
        None \<Rightarrow> []
      | Some v \<Rightarrow> if owner = None \<or> v \<noteq> the owner then [encodeTagKV key v] else [])"

definition owner_del :: "tag_map \<Rightarrow> nat option \<Rightarrow> string option \<Rightarrow> string list" where
  "owner_del tags ownerID ownerNode =
     stale_tag tags ownerIdTagKey (map_option nodeIDToString ownerID) @
     stale_tag tags ownerNodeTagKey ownerNode"

definition owner_add :: "nat option \<Rightarrow> string option \<Rightarrow> string list" where
  "owner_add ownerID ownerNode =
     (case ownerID of None \<Rightarrow> [] | Some i \<Rightarrow> [encodeTagKV ownerIdTagKey (nodeIDToString i)]) @
     (case ownerNode of None \<Rightarrow> [] | Some n \<Rightarrow> [encodeTagKV ownerNodeTagKey n])"

definition tag_request :: "VolumeRef \<Rightarrow> string list \<Rightarrow> string list \<Rightarrow> LvChangeRequest" where
  "tag_request vol add del =
     \<lparr>lch_Activate = LV_ACTIVATION_MODE_NONE, lch_AddTag = add, lch_DelTag = del, lch_Select = '''',
      lch_Target = [ref_VgLv vol]\<rparr>"

definition activate_request :: "VolumeRef \<Rightarrow> LvActivationMode \<Rightarrow> LvChangeRequest" where
  "activate_request vol mode =
     \<lparr>lch_Activate = mode, lch_AddTag = [], lch_DelTag = [], lch_Select = '''',
      lch_Target = [ref_VgLv vol]\<rparr>"

definition err_of :: "go_error + 'a \<Rightarrow> go_error option" where
  "err_of r = (case r of Inl e \<Rightarrow> Some e | Inr _ \<Rightarrow> None)"

definition setOwner ::
  "'w baseServer \<Rightarrow> VolumeRef \<Rightarrow> nat option \<Rightarrow> string option \<Rightarrow> 'w \<Rightarrow> (go_error option \<times> 'w) option" where
  "setOwner bs ref ownerID ownerNode w =
     (case fetch bs ref w of
        None \<Rightarrow> None
      | Some (Inl err, w1) \<Rightarrow> Some (Some err, w1)
      | Some (Inr vol, w1) \<Rightarrow>
          (case volume_Tags vol of
             Inl err \<Rightarrow> Some (Some err, w1)
           | Inr tags \<Rightarrow>
               (let add = owner_add ownerID ownerNode; del = owner_del tags ownerID ownerNode in
                if add = [] \<and> del = [] then Some (None, w1)
                else case cl_LvChange (lvmctrld bs) (tag_request (fst vol) add del) w1 of
                  (r, w2) \<Rightarrow> Some (err_of r, w2))))"

definition LockVolume ::
  "'w volumeLocker \<Rightarrow> VolumeRef \<Rightarrow> string \<Rightarrow> locks \<times> 'w \<Rightarrow> (go_error option \<times> locks \<times> 'w) option" where
  "LockVolume vl vol op =
     (\<lambda>(locks, w).
      let key = ref_VgLv vol; m = (case locks key of None \<Rightarrow> {} | Some m \<Rightarrow> m);
          locks = (case locks key of None \<Rightarrow> locks(key \<mapsto> {}) | Some _ \<Rightarrow> locks) in
      if m \<noteq> {} then Some (None, locks(key \<mapsto> insert op m), w)
      else case cl_LvChange (lvmctrld (base vl))
                  (activate_request vol LV_ACTIVATION_MODE_ACTIVE_EXCLUSIVE) w of
        (Inl err, w1) \<Rightarrow> Some (Some (Status (error_code err) ''failed to lock volume %s: %v''), locks, w1)
      | (Inr _, w1) \<Rightarrow>
          (case setOwner (base vl) vol (Some (nodeID (base vl))) (Some (nodeName vl)) w1 of
             None \<Rightarrow> None
           | Some (Some err, w2) \<Rightarrow>
               (case cl_LvChange (lvmctrld (base vl)) (activate_request vol LV_ACTIVATION_MODE_DEACTIVATE) w2 of
                  (_, w3) \<Rightarrow>
                    Some (Some (Status (error_code err) ''failed to update owner tags on volume %s: %v''),
                      locks, w3))
           | Some (None, w2) \<Rightarrow> Some (None, locks(key \<mapsto> insert op m), w2)))"

definition UnlockVolume ::
  "'w volumeLocker \<Rightarrow> VolumeRef \<Rightarrow> string \<Rightarrow> locks \<times> 'w \<Rightarrow> (go_error option \<times> locks \<times> 'w) option" where
  "UnlockVolume vl vol op =
     (\<lambda>(locks, w).
      let key = ref_VgLv vol in
      case locks key of
        None \<Rightarrow> Some (None, locks, w)
      | Some m \<Rightarrow>
          let m = m - {op}; locks = locks(key \<mapsto> m) in
          if m \<noteq> {} then Some (None, locks, w)
          else case setOwner (base vl) vol None None w of
            None \<Rightarrow> None
          | Some (Some err, w1) \<Rightarrow> Some (Some err, locks, w1)
          | Some (None, w1) \<Rightarrow>
              (case cl_LvChange (lvmctrld (base vl)) (activate_request vol LV_ACTIVATION_MODE_DEACTIVATE) w1 of
                 (Inl err, w2) \<Rightarrow>
                   Some (Some (Status (error_code err) ''failed to unlock volume %s: %v''), locks, w2)
               | (Inr _, w2) \<Rightarrow> Some (None, locks(key := None), w2)))"

definition GetOwner ::
  "'w volumeLocker \<Rightarrow> VolumeRef \<Rightarrow> 'w \<Rightarrow> ((go_error + nat \<times> string) \<times> 'w) option" where
  "GetOwner vl ref w =
     (case fetch (base vl) ref w of
        None \<Rightarrow> None
      | Some (Inl _, w1) \<Rightarrow> Some (Inl (Status Internal ''failed to list logical volume %s: %v''), w1)
      | Some (Inr vol, w1) \<Rightarrow>
          Some (case volume_Tags vol of
                  Inl _ \<Rightarrow> Inl (Status Internal ''failed to decode tags on volume %s: %v'')
                | Inr tags \<Rightarrow>
                    (let name = (case map_of tags ownerNodeTagKey of None \<Rightarrow> '''' | Some n \<Rightarrow> n) in
                     case map_of tags ownerIdTagKey of
                       None \<Rightarrow> Inr (0, name)
                     | Some v \<Rightarrow>
                         (case nodeIDFromString v of
                            Inl _ \<Rightarrow> Inl (Status Internal ''failed to parse owner id tag on volume %s: %v'')
                          | Inr n \<Rightarrow> Inr (n, name))), w1))"

text \<open>The loop of \<^verbatim>\<open>sync\<close>: failures to release a volume that is not open are only logged.\<close>

fun sync_loop ::
  "'w baseServer \<Rightarrow> LogicalVolume list \<Rightarrow> locks \<times> 'w \<Rightarrow> (locks \<times> 'w) option" where
  "sync_loop bs [] s = Some s"
| "sync_loop bs (lv # lvs) (locks, w) =
     (let vol = NewVolumeRefFromLv lv in
      if lv_LvDeviceOpen lv \<noteq> LV_DEVICE_OPEN_OPEN then
        (case cl_LvChange (lvmctrld bs) (activate_request vol LV_ACTIVATION_MODE_DEACTIVATE) w of
           (_, w1) \<Rightarrow>
             (case setOwner bs vol None None w1 of
                None \<Rightarrow> None
              | Some (_, w2) \<Rightarrow> sync_loop bs lvs (locks, w2)))
      else sync_loop bs lvs (locks(ref_VgLv vol \<mapsto> {defaultLockOp}), w))"

definition sync :: "'w volumeLocker \<Rightarrow> locks \<times> 'w \<Rightarrow> (go_error option \<times> locks \<times> 'w) option" where
  "sync vl =
     (\<lambda>(locks, w).
      case cl_Lvs (lvmctrld (base vl))
             \<lparr>lvs_Select = ''lv_name=~^'' @ volumeLvPrefix @ '' && lv_active=active'', lvs_Sort = [],
              lvs_Target = []\<rparr> w of
        (Inl _, w1) \<Rightarrow> Some (Some (Plain ''failed to list logical volumes: %v''), locks, w1)
      | (Inr lvs, w1) \<Rightarrow>
          (case sync_loop (base vl) lvs (locks, w1) of
             None \<Rightarrow> None
           | Some (locks', w2) \<Rightarrow> Some (None, locks', w2)))"

definition NewVolumeLocker ::
  "'w LvmCtrldClient \<Rightarrow> string \<Rightarrow> 'w \<Rightarrow> ((go_error + 'w volumeLocker) \<times> locks \<times> 'w) option" where
  "NewVolumeLocker cl name w =
     (case newBaseServer cl w of
        (Inl err, w1) \<Rightarrow> Some (Inl err, Map.empty, w1)
      | (Inr bs, w1) \<Rightarrow>
          (let vl = \<lparr>base = bs, nodeName = name\<rparr> in
           case sync vl (Map.empty, w1) of
             None \<Rightarrow> None
           | Some (Some _, s) \<Rightarrow> Some (Inl (Plain ''failed to sync LVM state: %v''), s)
           | Some (None, s) \<Rightarrow> Some (Inr vl, s)))"

section \<open>The interface of the locker\<close>

text \<open>
  What \<^verbatim>\<open>VolumeLocker\<close> promises its callers: which operation holds which volume follows from
  the outcomes of the requests alone, a volume already held is granted without touching LVM,
  and letting go of a volume another operation still holds does not touch it either.
\<close>

locale volume_locker =
  fixes lock :: "VolumeRef \<Rightarrow> string \<Rightarrow> 's \<Rightarrow> (go_error option \<times> 's) option"
    and unlock :: "VolumeRef \<Rightarrow> string \<Rightarrow> 's \<Rightarrow> (go_error option \<times> 's) option"
    and held :: "'s \<Rightarrow> (string \<times> string) set"
    and behind :: "'s \<Rightarrow> 'b"
  assumes lock_granted: "lock v op s = Some (None, s') \<Longrightarrow> held s' = insert (ref_VgLv v, op) (held s)"
    and lock_refused: "lock v op s = Some (Some e, s') \<Longrightarrow> held s' = held s"
    and unlock_held: "unlock v op s = Some (r, s') \<Longrightarrow> held s' = held s - {(ref_VgLv v, op)}"
    and reentrant: "(ref_VgLv v, q) \<in> held s \<Longrightarrow>
      \<exists>s'. lock v op s = Some (None, s') \<and> behind s' = behind s"
    and shared: "(ref_VgLv v, q) \<in> held s \<Longrightarrow> q \<noteq> op \<Longrightarrow>
      \<exists>s'. unlock v op s = Some (None, s') \<and> behind s' = behind s"

datatype lock_request = Lock VolumeRef string | Unlock VolumeRef string

text \<open>A sequence of requests with the outcomes the callers see; \<open>None\<close> when one panics.\<close>

fun serve_locks ::
  "(VolumeRef \<Rightarrow> string \<Rightarrow> 's \<Rightarrow> (go_error option \<times> 's) option) \<Rightarrow>
   (VolumeRef \<Rightarrow> string \<Rightarrow> 's \<Rightarrow> (go_error option \<times> 's) option) \<Rightarrow>
   lock_request list \<Rightarrow> 's \<Rightarrow> ((lock_request \<times> go_error option) list \<times> 's) option" where
  "serve_locks lock unlock [] s = Some ([], s)"
| "serve_locks lock unlock (q # qs) s =
     (case (case q of Lock v op \<Rightarrow> lock v op s | Unlock v op \<Rightarrow> unlock v op s) of
        None \<Rightarrow> None
      | Some (r, s') \<Rightarrow> map_option (\<lambda>(log, s''). ((q, r) # log, s'')) (serve_locks lock unlock qs s'))"

text \<open>The specification: a granted lock adds its pair, an unlock removes it whatever its outcome.\<close>

fun lock_effect :: "lock_request \<times> go_error option \<Rightarrow> (string \<times> string) set \<Rightarrow> (string \<times> string) set" where
  "lock_effect (Lock v op, None) H = insert (ref_VgLv v, op) H"
| "lock_effect (Lock v op, Some _) H = H"
| "lock_effect (Unlock v op, _) H = H - {(ref_VgLv v, op)}"

lemma serve_locks_Cons:
  assumes "serve_locks lock unlock (q # qs) s = Some (log, s')"
  obtains r s1 log' where "(case q of Lock v op \<Rightarrow> lock v op s | Unlock v op \<Rightarrow> unlock v op s) = Some (r, s1)"
    and "serve_locks lock unlock qs s1 = Some (log', s')" and "log = (q, r) # log'"
  using assms by (auto split: option.splits)

context volume_locker
begin

lemma serve_step:
  assumes "(case q of Lock v op \<Rightarrow> lock v op s | Unlock v op \<Rightarrow> unlock v op s) = Some (r, s')"
  shows "held s' = lock_effect (q, r) (held s)"
  using assms lock_granted lock_refused unlock_held by (cases q; cases r) auto

lemma serve_effect: "serve_locks lock unlock qs s = Some (log, s') \<Longrightarrow> held s' = fold lock_effect log (held s)"
proof (induction qs arbitrary: s log)
  case (Cons q qs)
  then show ?case by (auto simp: serve_step split: option.splits)
qed simp

text \<open>An operation that never lets go keeps its volume, so that nobody else's requests reach LVM.\<close>

lemma serve_keeps:
  assumes "serve_locks lock unlock qs s = Some (log, s')" and "(k, op) \<in> held s"
    and "\<forall>v. ref_VgLv v = k \<longrightarrow> Unlock v op \<notin> set qs"
  shows "(k, op) \<in> held s'"
  using assms
proof (induction qs arbitrary: s log)
  case (Cons q qs)
  from Cons.prems(1) obtain r s1 log'
    where q: "(case q of Lock v op \<Rightarrow> lock v op s | Unlock v op \<Rightarrow> unlock v op s) = Some (r, s1)"
      and qs: "serve_locks lock unlock qs s1 = Some (log', s')" by (rule serve_locks_Cons)
  have "(k, op) \<in> held s1"
    using serve_step [OF q] Cons.prems(2,3) by (cases q; cases r) auto
  with Cons.IH [OF qs] Cons.prems(3) show ?case by auto
qed simp

lemma serve_quiet:
  assumes "(k, op) \<in> held s" and "\<forall>q \<in> set qs. \<exists>v p. ref_VgLv v = k \<and> p \<noteq> op \<and> q \<in> {Lock v p, Unlock v p}"
  shows "\<exists>log s'. serve_locks lock unlock qs s = Some (log, s') \<and> behind s' = behind s \<and> (k, op) \<in> held s'
    \<and> (\<forall>(q, r) \<in> set log. r = None)"
  using assms
proof (induction qs arbitrary: s)
  case (Cons q qs)
  then obtain v p where v: "ref_VgLv v = k" "p \<noteq> op" "q \<in> {Lock v p, Unlock v p}" by auto
  have held: "(ref_VgLv v, op) \<in> held s" using v(1) Cons.prems(1) by simp
  obtain s1 where s1: "(case q of Lock v op \<Rightarrow> lock v op s | Unlock v op \<Rightarrow> unlock v op s) = Some (None, s1)"
      "behind s1 = behind s"
    using reentrant [OF held, of p] shared [OF held v(2) [symmetric]] v(3) by (cases q) auto
  have mem: "(k, op) \<in> held s1"
    using serve_step [OF s1(1)] v(1,2) v(3) Cons.prems(1) by (cases q) simp_all
  have rest: "\<forall>q \<in> set qs. \<exists>v p. ref_VgLv v = k \<and> p \<noteq> op \<and> q \<in> {Lock v p, Unlock v p}"
    using Cons.prems(2) by simp
  from Cons.IH [OF mem rest] obtain log s' where "serve_locks lock unlock qs s1 = Some (log, s')"
      "behind s' = behind s1" "(k, op) \<in> held s'" "\<forall>(q, r) \<in> set log. r = None" by blast
  with s1 show ?case by (intro exI [of _ "(q, None) # log"] exI [of _ s']) simp
qed simp

end

section \<open>The locker keeps the interface\<close>

definition pairs :: "locks \<Rightarrow> (string \<times> string) set" where
  "pairs l = {(k, op). \<exists>m. l k = Some m \<and> op \<in> m}"

definition holders :: "locks \<times> 'w \<Rightarrow> (string \<times> string) set" where
  "holders s = pairs (fst s)"

lemma pairs_mem: "(k, op) \<in> pairs l \<longleftrightarrow> (case l k of None \<Rightarrow> False | Some m \<Rightarrow> op \<in> m)"
  by (auto simp: pairs_def split: option.splits)

lemma pairs_eqI: "(\<And>k op. (k, op) \<in> A \<longleftrightarrow> (k, op) \<in> B) \<Longrightarrow> A = B"
  by auto

lemma LockVolume_held:
  "(ref_VgLv v, q) \<in> holders s \<Longrightarrow> \<exists>s'. LockVolume vl v op s = Some (None, s') \<and> snd s' = snd s"
  by (cases s) (auto simp: LockVolume_def holders_def pairs_def Let_def)

lemma LockVolume_holders:
  assumes "LockVolume vl v op s = Some (r, s')"
  shows "holders s' = (if r = None then insert (ref_VgLv v, op) (holders s) else holders s)"
proof -
  obtain l w where s: "s = (l, w)" by (cases s)
  let ?k = "ref_VgLv v"
  define m where "m = (case l ?k of None \<Rightarrow> {} | Some m \<Rightarrow> m)"
  define l1 where "l1 = (case l ?k of None \<Rightarrow> l(?k \<mapsto> {}) | Some _ \<Rightarrow> l)"
  have l1: "pairs l1 = pairs l"
    by (rule pairs_eqI) (simp add: l1_def pairs_mem split: option.splits)
  have upd: "pairs (l1(?k \<mapsto> insert op m)) = insert (?k, op) (pairs l)"
    by (rule pairs_eqI) (auto simp: l1_def m_def pairs_mem split: option.splits)
  have upd1: "pairs (l1(?k \<mapsto> {op})) = insert (?k, op) (pairs l)" if "m = {}"
    using upd that by simp
  show ?thesis
    using assms unfolding s LockVolume_def prod.case Let_def m_def [symmetric] l1_def [symmetric] holders_def
    by (auto simp: upd upd1 l1 split: if_splits sum.splits option.splits prod.splits)
qed

lemma UnlockVolume_holders:
  assumes "UnlockVolume vl v op s = Some (r, s')"
  shows "holders s' = holders s - {(ref_VgLv v, op)}"
proof -
  obtain l w where s: "s = (l, w)" by (cases s)
  let ?k = "ref_VgLv v"
  show ?thesis
  proof (cases "l ?k")
    case None
    then show ?thesis using assms by (auto simp: s UnlockVolume_def holders_def pairs_mem)
  next
    case (Some m)
    have upd: "pairs (l(?k \<mapsto> m - {op})) = pairs l - {(?k, op)}"
      using Some by (intro pairs_eqI) (auto simp: pairs_mem)
    have upd1: "pairs (l(?k \<mapsto> {})) = pairs l - {(?k, op)}" if "m - {op} = {}"
      using upd that by simp
    have del: "pairs (l(?k := None)) = pairs l - {(?k, op)}" if "m - {op} = {}"
      using Some that by (intro pairs_eqI) (auto simp: pairs_mem)
    show ?thesis
      using assms Some unfolding s UnlockVolume_def prod.case Let_def option.case holders_def
      by (auto simp: upd upd1 del split: if_splits sum.splits option.splits prod.splits)
  qed
qed

lemma UnlockVolume_shared:
  "(ref_VgLv v, q) \<in> holders s \<Longrightarrow> q \<noteq> op \<Longrightarrow>
     \<exists>s'. UnlockVolume vl v op s = Some (None, s') \<and> snd s' = snd s"
  by (cases s) (auto simp: UnlockVolume_def holders_def pairs_def Let_def)

interpretation locker: volume_locker "LockVolume vl" "UnlockVolume vl" holders snd
  by unfold_locales
    (simp_all add: LockVolume_holders UnlockVolume_holders LockVolume_held UnlockVolume_shared del: split_paired_Ex)

section \<open>What LVM promises\<close>

text \<open>
  Documented behaviour of LVM behind the client, stated over two observers: which volumes are
  active on this node, and the tags of a volume. A failed command changes neither.
\<close>

fun mode_active :: "LvActivationMode \<Rightarrow> bool \<Rightarrow> bool" where
  "mode_active LV_ACTIVATION_MODE_ACTIVE_EXCLUSIVE _ = True"
| "mode_active LV_ACTIVATION_MODE_ACTIVE_SHARED _ = True"
| "mode_active LV_ACTIVATION_MODE_DEACTIVATE _ = False"
| "mode_active _ b = b"

definition lvm_activation :: "'w LvmCtrldClient \<Rightarrow> (string \<Rightarrow> 'w \<Rightarrow> bool) \<Rightarrow> bool" where
  "lvm_activation cl active \<longleftrightarrow>
     (\<forall>w k. active k (snd (cl_GetStatus cl w)) = active k w) \<and>
     (\<forall>req w k. active k (snd (cl_Lvs cl req w)) = active k w) \<and>
     (\<forall>req w k. active k (snd (cl_LvChange cl req w)) =
        (if fst (cl_LvChange cl req w) = Inr () \<and> k \<in> set (lch_Target req)
         then mode_active (lch_Activate req) (active k w) else active k w))"

definition lvm_listing :: "'w LvmCtrldClient \<Rightarrow> (string \<Rightarrow> 'w \<Rightarrow> bool) \<Rightarrow> bool" where
  "lvm_listing cl active \<longleftrightarrow>
     (\<forall>req w lvs. fst (cl_Lvs cl req w) = Inr lvs \<longrightarrow>
        distinct (map (\<lambda>lv. ref_VgLv (NewVolumeRefFromLv lv)) lvs) \<and>
        (\<forall>lv \<in> set lvs. lv_LvDeviceOpen lv = LV_DEVICE_OPEN_OPEN \<longrightarrow>
           active (ref_VgLv (NewVolumeRefFromLv lv)) w))"

definition lvm_tags :: "'w LvmCtrldClient \<Rightarrow> (string \<Rightarrow> 'w \<Rightarrow> string set) \<Rightarrow> bool" where
  "lvm_tags cl tags \<longleftrightarrow>
     (\<forall>req w k. tags k (snd (cl_Lvs cl req w)) = tags k w) \<and>
     (\<forall>k w lvs. fst (cl_Lvs cl \<lparr>lvs_Select = '''', lvs_Sort = [], lvs_Target = [k]\<rparr> w) = Inr lvs \<longrightarrow>
        (\<exists>lv. lvs = [lv] \<and> ref_VgLv (NewVolumeRefFromLv lv) = k \<and> distinct (lv_LvTags lv) \<and>
           set (lv_LvTags lv) = tags k w)) \<and>
     (\<forall>req w k. set (lch_AddTag req) \<inter> set (lch_DelTag req) = {} \<longrightarrow>
        tags k (snd (cl_LvChange cl req w)) =
          (if fst (cl_LvChange cl req w) = Inr () \<and> k \<in> set (lch_Target req)
           then tags k w - set (lch_DelTag req) \<union> set (lch_AddTag req) else tags k w))"

section \<open>Held volumes are active\<close>

definition held_active :: "(string \<Rightarrow> 'w \<Rightarrow> bool) \<Rightarrow> locks \<times> 'w \<Rightarrow> bool" where
  "held_active active s \<longleftrightarrow> (\<forall>k op. (k, op) \<in> holders s \<longrightarrow> active k (snd s))"

lemma fetch_active:
  "lvm_activation (lvmctrld bs) active \<Longrightarrow> fetch bs ref w = Some (r, w') \<Longrightarrow> active k w' = active k w"
  unfolding lvm_activation_def fetch_def
  by (auto split: prod.splits sum.splits list.splits) (metis snd_conv)+

lemma change_active:
  "lvm_activation cl active \<Longrightarrow> cl_LvChange cl req w = (r, w') \<Longrightarrow>
     active k w' = (if r = Inr () \<and> k \<in> set (lch_Target req)
                    then mode_active (lch_Activate req) (active k w) else active k w)"
  unfolding lvm_activation_def by (metis fst_conv snd_conv)

lemma setOwner_active:
  assumes "lvm_activation (lvmctrld bs) active" and "setOwner bs ref i n w = Some (r, w')"
  shows "active k w' = active k w"
  using assms(2) fetch_active [OF assms(1)] change_active [OF assms(1)]
  unfolding setOwner_def
  by (auto simp: Let_def tag_request_def split: option.splits prod.splits sum.splits if_splits)

lemma LockVolume_active:
  assumes laws: "lvm_activation (lvmctrld (base vl)) active" and inv: "held_active active s"
    and run: "LockVolume vl v op s = Some (r, s')"
  shows "held_active active s'"
proof -
  obtain l w l' w' where s: "s = (l, w)" "s' = (l', w')" by (cases s, cases s')
  let ?k = "ref_VgLv v"
  have H: "holders s' = (if r = None then insert (?k, op) (holders s) else holders s)"
    by (rule LockVolume_holders [OF run])
  show ?thesis
  proof (cases "\<exists>q. (?k, q) \<in> holders s")
    case True
    then obtain q where q: "(?k, q) \<in> holders s" ..
    then obtain s1 where "LockVolume vl v op s = Some (None, s1)" "snd s1 = snd s"
      using LockVolume_held by blast
    then have "snd s' = snd s" using run by simp
    then show ?thesis using H q inv by (auto simp: held_active_def split: if_splits)
  next
    case False
    then have m: "(case l ?k of None \<Rightarrow> {} | Some m \<Rightarrow> m) = {}"
      by (auto simp: s holders_def pairs_mem split: option.splits)
    have other: "active k w' = active k w" if "k \<noteq> ?k" for k
      using run change_active [OF laws] setOwner_active [OF laws] that
      unfolding s LockVolume_def prod.case Let_def m
      by (auto simp: activate_request_def split: prod.splits sum.splits option.splits)
    have own: "active ?k w'" if "r = None"
      using run change_active [OF laws] setOwner_active [OF laws] that
      unfolding s LockVolume_def prod.case Let_def m
      by (auto simp: activate_request_def split: prod.splits sum.splits option.splits)
    have "active k w'" if "(k, q) \<in> holders s" for k q
      using other [of k] False inv that by (auto simp: held_active_def s)
    then show ?thesis using H own by (auto simp: held_active_def s split: if_splits)
  qed
qed

lemma UnlockVolume_active:
  assumes laws: "lvm_activation (lvmctrld (base vl)) active" and inv: "held_active active s"
    and run: "UnlockVolume vl v op s = Some (r, s')"
  shows "held_active active s'"
proof -
  obtain l w l' w' where s: "s = (l, w)" "s' = (l', w')" by (cases s, cases s')
  let ?k = "ref_VgLv v"
  have H: "holders s' = holders s - {(?k, op)}" by (rule UnlockVolume_holders [OF run])
  show ?thesis
  proof (cases "\<exists>q. q \<noteq> op \<and> (?k, q) \<in> holders s")
    case True
    then obtain q where "q \<noteq> op" "(?k, q) \<in> holders s" by blast
    then obtain s1 where "UnlockVolume vl v op s = Some (None, s1)" "snd s1 = snd s"
      using UnlockVolume_shared by blast
    then have "snd s' = snd s" using run by simp
    then show ?thesis using H inv by (auto simp: held_active_def)
  next
    case False
    have other: "active k w' = active k w" if "k \<noteq> ?k" for k
      using run change_active [OF laws] setOwner_active [OF laws] that
      unfolding s UnlockVolume_def prod.case Let_def
      by (auto simp: activate_request_def split: prod.splits sum.splits option.splits if_splits)
    have "active k w'" if "(k, q) \<in> holders s" "(k, q) \<noteq> (?k, op)" for k q
      using other [of k] False inv that by (auto simp: held_active_def s)
    then show ?thesis using H by (auto simp: held_active_def s)
  qed
qed

lemma sync_loop_active:
  assumes laws: "lvm_activation (lvmctrld bs) active" and "held_active active s"
    and "distinct (map (\<lambda>lv. ref_VgLv (NewVolumeRefFromLv lv)) lvs)"
    and "\<forall>lv \<in> set lvs. (\<forall>op. (ref_VgLv (NewVolumeRefFromLv lv), op) \<notin> holders s)"
    and "\<forall>lv \<in> set lvs. lv_LvDeviceOpen lv = LV_DEVICE_OPEN_OPEN \<longrightarrow>
           active (ref_VgLv (NewVolumeRefFromLv lv)) (snd s)"
    and "sync_loop bs lvs s = Some s'"
  shows "held_active active s'"
  using assms(2-)
proof (induction lvs arbitrary: s)
  case (Cons lv lvs)
  obtain l w where s: "s = (l, w)" by (cases s)
  let ?k = "ref_VgLv (NewVolumeRefFromLv lv)"
  have fresh: "ref_VgLv (NewVolumeRefFromLv lv') \<noteq> ?k" if "lv' \<in> set lvs" for lv'
    using Cons.prems(2) that by (metis (no_types, lifting) distinct.simps(2) image_eqI list.set_map list.simps(9))
  show ?case
  proof (cases "lv_LvDeviceOpen lv = LV_DEVICE_OPEN_OPEN")
    case True
    let ?s = "(l(?k \<mapsto> {defaultLockOp}), w)"
    have mem: "(k, op) \<in> holders ?s \<longleftrightarrow> (if k = ?k then op = defaultLockOp else (k, op) \<in> holders s)" for k op
      by (simp add: s holders_def pairs_mem)
    show ?thesis
    proof (rule Cons.IH [of ?s])
      show "held_active active ?s"
        using Cons.prems(1,4) True by (auto simp: held_active_def mem s split: if_splits)
      show "\<forall>lv \<in> set lvs. \<forall>op. (ref_VgLv (NewVolumeRefFromLv lv), op) \<notin> holders ?s"
        using Cons.prems(3) fresh unfolding mem by simp
    qed (use Cons.prems True in \<open>simp_all add: s Let_def\<close>)
  next
    case False
    obtain r1 w1 where c: "cl_LvChange (lvmctrld bs)
        (activate_request (NewVolumeRefFromLv lv) LV_ACTIVATION_MODE_DEACTIVATE) w = (r1, w1)" by fastforce
    then obtain r2 w2 where o: "setOwner bs (NewVolumeRefFromLv lv) None None w1 = Some (r2, w2)"
        and rest: "sync_loop bs lvs (l, w2) = Some s'"
      using Cons.prems(5) False by (auto simp: s Let_def split: option.splits)
    have act: "active k w2 = active k w" if "k \<noteq> ?k" for k
      using setOwner_active [OF laws o] change_active [OF laws c] that by (simp add: activate_request_def)
    have keep: "active k w2 = active k w" if "k = ref_VgLv (NewVolumeRefFromLv lv')" "lv' \<in> set lvs" for k lv'
      using act [of k] fresh that by simp
    show ?thesis
    proof (rule Cons.IH [of "(l, w2)"])
      have "active k w2" if "(k, op) \<in> holders s" for k op
        using act [of k] Cons.prems(1,3) that by (cases "k = ?k") (auto simp: held_active_def s)
      then show "held_active active (l, w2)" by (simp add: held_active_def s holders_def)
      show "\<forall>lv \<in> set lvs. lv_LvDeviceOpen lv = LV_DEVICE_OPEN_OPEN \<longrightarrow>
          active (ref_VgLv (NewVolumeRefFromLv lv)) (snd (l, w2))"
        using Cons.prems(4) keep by (simp add: s)
    qed (use Cons.prems rest in \<open>simp_all add: s holders_def\<close>)
  qed
qed simp

lemma NewVolumeLocker_active:
  assumes laws: "lvm_activation cl active" "lvm_listing cl active"
    and new: "NewVolumeLocker cl name w = Some (Inr vl, s)"
  shows "lvmctrld (base vl) = cl \<and> held_active active s"
proof -
  obtain bs w1 where bs: "newBaseServer cl w = (Inr bs, w1)" "lvmctrld bs = cl"
    using new by (auto simp: NewVolumeLocker_def newBaseServer_def Let_def split: prod.splits sum.splits)
  then have vl: "vl = \<lparr>base = bs, nodeName = name\<rparr>" and sy: "sync vl (Map.empty, w1) = Some (None, s)"
    using new by (auto simp: NewVolumeLocker_def Let_def split: option.splits)
  obtain req lvs w2 where q: "cl_Lvs cl req w1 = (Inr lvs, w2)" and loop: "sync_loop bs lvs (Map.empty, w2) = Some s"
    using sy by (auto simp: sync_def vl bs(2) split: prod.splits sum.splits option.splits)
  have "active k w2 = active k w1" for k using laws(1) q by (metis lvm_activation_def snd_conv)
  moreover have "distinct (map (\<lambda>lv. ref_VgLv (NewVolumeRefFromLv lv)) lvs) \<and>
      (\<forall>lv \<in> set lvs. lv_LvDeviceOpen lv = LV_DEVICE_OPEN_OPEN \<longrightarrow> active (ref_VgLv (NewVolumeRefFromLv lv)) w1)"
    using laws(2) q by (metis lvm_listing_def fst_conv)
  ultimately have "held_active active s"
    using sync_loop_active [OF _ _ _ _ _ loop, of active] laws(1) bs(2)
    by (simp add: held_active_def holders_def pairs_mem)
  then show ?thesis using bs(2) by (simp add: vl)
qed

lemma serve_active:
  assumes "lvm_activation (lvmctrld (base vl)) active" and "held_active active s"
    and "serve_locks (LockVolume vl) (UnlockVolume vl) qs s = Some (log, s')"
  shows "held_active active s'"
  using assms(2,3)
proof (induction qs arbitrary: s log)
  case (Cons q qs)
  from Cons.prems(2) obtain r s1 log'
    where q: "(case q of Lock v op \<Rightarrow> LockVolume vl v op s | Unlock v op \<Rightarrow> UnlockVolume vl v op s) = Some (r, s1)"
      and qs: "serve_locks (LockVolume vl) (UnlockVolume vl) qs s1 = Some (log', s')" by (rule serve_locks_Cons)
  have "held_active active s1"
    using q LockVolume_active [OF assms(1) Cons.prems(1)] UnlockVolume_active [OF assms(1) Cons.prems(1)]
    by (cases q) simp_all
  then show ?case using Cons.IH qs by blast
qed simp

section \<open>Owner tags\<close>

text \<open>
  A set of tags the driver can read: every tag decodes and no key occurs twice. The owner tags
  are \<open>canonical\<close> when they are written the way the driver writes them.
\<close>

definition tags_readable :: "string set \<Rightarrow> bool" where
  "tags_readable T \<longleftrightarrow> (\<forall>t \<in> T. \<exists>x. decodeTagKV t = Inr x) \<and>
     (\<forall>t \<in> T. \<forall>u \<in> T. \<forall>k v w. carries t k v \<longrightarrow> carries u k w \<longrightarrow> t = u)"

definition owner_canonical :: "string set \<Rightarrow> bool" where
  "owner_canonical T \<longleftrightarrow>
     (\<forall>t \<in> T. \<forall>k \<in> {ownerIdTagKey, ownerNodeTagKey}. \<forall>v. carries t k v \<longrightarrow> t = encodeTagKV k v)"

definition owner_tags :: "nat \<Rightarrow> string \<Rightarrow> string set" where
  "owner_tags i n = {encodeTagKV ownerIdTagKey (nodeIDToString i), encodeTagKV ownerNodeTagKey n}"

lemma volume_Tags_ok:
  assumes "volume_Tags vol = Inr m" and "T = set (lv_LvTags (snd vol))"
  shows "tags_readable T" and "map_of m k = Some v \<longleftrightarrow> (\<exists>t \<in> T. carries t k v)"
proof -
  have d: "decodeTags (lv_LvTags (snd vol)) = Inr m"
    using assms(1) by (simp add: volume_Tags_def split: sum.splits)
  show "tags_readable T" unfolding tags_readable_def assms(2)
    using decodeTags_ok(2) [OF d] decodeTags_unique [OF d] by blast
  show "map_of m k = Some v \<longleftrightarrow> (\<exists>t \<in> T. carries t k v)"
    unfolding assms(2) by (rule decodeTags_ok(1) [OF d])
qed

lemma readable_volume_Tags:
  assumes "tags_readable (set (lv_LvTags (snd vol)))" and "distinct (lv_LvTags (snd vol))"
  shows "\<exists>m. volume_Tags vol = Inr m"
proof -
  have "\<exists>m. decodeTags (lv_LvTags (snd vol)) = Inr m"
    using assms unfolding tags_readable_def by (intro decodeTags_total) auto
  then show ?thesis by (auto simp: volume_Tags_def)
qed

lemma good_decimal: "good_value (nodeIDToString i)"
proof -
  have "two_digits c" if "c \<in> set (decimal i)" for c
    using decimal_chars [OF that] by (auto simp: two_digits_def)
  then show ?thesis by (simp add: nodeIDToString_def good_value_def)
qed

lemma owner_keys: "good_key ownerIdTagKey" "good_key ownerNodeTagKey" "ownerIdTagKey \<noteq> ownerNodeTagKey"
  using good_keys by (simp_all add: ownerIdTagKey_def ownerNodeTagKey_def)

text \<open>What the tags become when the owner is replaced.\<close>

definition owner_of :: "tag_key \<Rightarrow> nat \<Rightarrow> string \<Rightarrow> string" where
  "owner_of k i n = (if k = ownerIdTagKey then nodeIDToString i else n)"

lemma owner_add_tags: "set (owner_add (Some i) (Some n)) = owner_tags i n"
  by (auto simp: owner_add_def owner_tags_def)

lemma stale_tag_mem:
  "t \<in> set (stale_tag m k (Some v')) \<longleftrightarrow> (\<exists>v. map_of m k = Some v \<and> v \<noteq> v' \<and> t = encodeTagKV k v)"
  by (cases "map_of m k") (auto simp: stale_tag_def)

lemma owner_del_mem:
  "t \<in> set (owner_del m (Some i) (Some n)) \<longleftrightarrow>
     (\<exists>k \<in> {ownerIdTagKey, ownerNodeTagKey}. \<exists>v. map_of m k = Some v \<and> v \<noteq> owner_of k i n \<and> t = encodeTagKV k v)"
  using owner_keys(3) by (simp add: owner_del_def stale_tag_mem owner_of_def)

lemma owner_tag_carries:
  assumes "good_value n" and "t \<in> owner_tags i n"
  shows "carries t k v \<longleftrightarrow> k \<in> {ownerIdTagKey, ownerNodeTagKey} \<and> v = owner_of k i n \<and> t = encodeTagKV k v"
proof -
  have c: "t = encodeTagKV ownerIdTagKey (nodeIDToString i) \<or> t = encodeTagKV ownerNodeTagKey n"
    using assms(2) by (simp add: owner_tags_def)
  show ?thesis
  proof (cases "t = encodeTagKV ownerIdTagKey (nodeIDToString i)")
    case True
    then have "carries t k v \<longleftrightarrow> k = ownerIdTagKey \<and> v = nodeIDToString i"
      using carries_encoded [OF owner_keys(1) good_decimal] by simp
    moreover have "\<not> (k = ownerNodeTagKey \<and> v = n \<and> t = encodeTagKV k v)"
      using True carries_encoded [OF owner_keys(2) assms(1)] carries_encoded [OF owner_keys(1) good_decimal]
        owner_keys(3) by metis
    ultimately show ?thesis using True owner_keys(3) by (auto simp: owner_of_def)
  next
    case False
    then have t: "t = encodeTagKV ownerNodeTagKey n" using c by simp
    then have "carries t k v \<longleftrightarrow> k = ownerNodeTagKey \<and> v = n"
      using carries_encoded [OF owner_keys(2) assms(1)] by simp
    then show ?thesis using False t owner_keys(3) by (auto simp: owner_of_def)
  qed
qed

lemma owner_tag_mem: "k \<in> {ownerIdTagKey, ownerNodeTagKey} \<Longrightarrow> encodeTagKV k (owner_of k i n) \<in> owner_tags i n"
  using owner_keys(3) by (auto simp: owner_tags_def owner_of_def)

text \<open>\<open>readback T m\<close>: \<open>m\<close> is what the driver reads from the tags \<open>T\<close>, with canonical owner tags.\<close>

definition readback :: "string set \<Rightarrow> tag_map \<Rightarrow> bool" where
  "readback T m \<longleftrightarrow> tags_readable T \<and> owner_canonical T \<and>
     (\<forall>k v. map_of m k = Some v \<longleftrightarrow> (\<exists>t \<in> T. carries t k v))"

abbreviation owner_key :: "tag_key \<Rightarrow> bool" where
  "owner_key k \<equiv> k \<in> {ownerIdTagKey, ownerNodeTagKey}"

lemma readback_read: "readback T m \<Longrightarrow> map_of m k = Some v \<longleftrightarrow> (\<exists>t \<in> T. carries t k v)"
  by (simp add: readback_def)

lemma canonical_tag: "readback T m \<Longrightarrow> t \<in> T \<Longrightarrow> carries t k v \<Longrightarrow> owner_key k \<Longrightarrow> t = encodeTagKV k v"
  unfolding readback_def owner_canonical_def by blast

lemma kept_owner:
  assumes "readback T m" and "t \<in> T" and "t \<notin> set (owner_del m (Some i) (Some n))"
    and "carries t k v" and "owner_key k"
  shows "t \<in> owner_tags i n"
proof -
  have t: "t = encodeTagKV k v" by (rule canonical_tag [OF assms(1,2,4,5)])
  have "map_of m k = Some v" unfolding readback_read [OF assms(1)] using assms(2,4) by blast
  then have "v = owner_of k i n" using assms(3,5) t unfolding owner_del_mem by blast
  then show ?thesis using t owner_tag_mem [OF assms(5)] by simp
qed

lemma owner_del_disjoint:
  assumes "readback T m" and "good_value n"
  shows "owner_tags i n \<inter> set (owner_del m (Some i) (Some n)) = {}"
proof (rule equals0I)
  fix t assume t: "t \<in> owner_tags i n \<inter> set (owner_del m (Some i) (Some n))"
  then have "t \<in> set (owner_del m (Some i) (Some n))" by (rule IntD2)
  then obtain k v where k: "owner_key k" "map_of m k = Some v" "v \<noteq> owner_of k i n" "t = encodeTagKV k v"
    unfolding owner_del_mem by blast
  from k(2) obtain t' where t': "t' \<in> T" "carries t' k v"
    unfolding readback_read [OF assms(1)] by (rule bexE)
  have "carries t k v" using canonical_tag [OF assms(1) t' k(1)] t'(2) k(4) by simp
  then show False using owner_tag_carries [OF assms(2), of t i k v] t k(3) by simp
qed

lemma new_owner:
  assumes "readback T m" and "good_value n" and "owner_key k" and "carries t k v"
    and "t \<in> T - set (owner_del m (Some i) (Some n)) \<union> owner_tags i n"
  shows "t \<in> owner_tags i n \<and> v = owner_of k i n"
proof -
  have "t \<in> owner_tags i n"
  proof (rule ccontr)
    assume "t \<notin> owner_tags i n"
    then have "t \<in> T" and "t \<notin> set (owner_del m (Some i) (Some n))" using assms(5) by simp_all
    then have "t \<in> owner_tags i n" by (rule kept_owner [OF assms(1) _ _ assms(4,3)])
    then show False using \<open>t \<notin> owner_tags i n\<close> by simp
  qed
  then show ?thesis using owner_tag_carries [OF assms(2), of t i k v] assms(4) by simp
qed

lemma new_tags_readable:
  assumes "readback T m" and "good_value n"
  shows "tags_readable (T - set (owner_del m (Some i) (Some n)) \<union> owner_tags i n)"
proof -
  let ?T = "T - set (owner_del m (Some i) (Some n)) \<union> owner_tags i n"
  have "\<exists>x. decodeTagKV t = Inr x" if "t \<in> owner_tags i n" for t
    using that decodeTagKV_encodeTagKV [OF owner_keys(1) good_decimal]
      decodeTagKV_encodeTagKV [OF owner_keys(2) assms(2)] by (auto simp: owner_tags_def)
  moreover have "tags_readable T" using assms(1) by (simp add: readback_def)
  ultimately have "\<forall>t \<in> ?T. \<exists>x. decodeTagKV t = Inr x" by (auto simp: tags_readable_def)
  moreover have "t = u" if "t \<in> ?T" "u \<in> ?T" "carries t k v" "carries u k w" for t u k v w
  proof (cases "owner_key k")
    case True
    have "t \<in> owner_tags i n \<and> v = owner_of k i n" "u \<in> owner_tags i n \<and> w = owner_of k i n"
      using new_owner [OF assms True] that by blast+
    then show ?thesis
      using owner_tag_carries [OF assms(2), of t i k v] owner_tag_carries [OF assms(2), of u i k w] that by simp
  next
    case False
    then have "t \<in> T" "u \<in> T"
      using that owner_tag_carries [OF assms(2), of t i k v] owner_tag_carries [OF assms(2), of u i k w]
      by blast+
    with \<open>tags_readable T\<close> that show ?thesis unfolding tags_readable_def by blast
  qed
  ultimately show ?thesis unfolding tags_readable_def by (intro conjI ballI allI impI) blast+
qed

lemma fetch_tags:
  assumes "lvm_tags (lvmctrld bs) tags"
  obtains r w' where "fetch bs ref w = Some (r, w')" and "\<And>k. tags k w' = tags k w"
    and "\<And>vol. r = Inr vol \<Longrightarrow> ref_VgLv (fst vol) = ref_VgLv ref \<and> distinct (lv_LvTags (snd vol)) \<and>
           set (lv_LvTags (snd vol)) = tags (ref_VgLv ref) w"
proof -
  let ?req = "\<lparr>lvs_Select = '''', lvs_Sort = [], lvs_Target = [ref_VgLv ref]\<rparr>"
  obtain x w1 where x: "cl_Lvs (lvmctrld bs) ?req w = (x, w1)" by fastforce
  have keep: "tags k w1 = tags k w" for k
    using assms x unfolding lvm_tags_def by (metis snd_conv)
  show ?thesis
  proof (cases x)
    case (Inl err)
    then obtain e where "fetch bs ref w = Some (Inl e, w1)" using x by (simp add: fetch_def)
    then show ?thesis using keep by (rule that) simp
  next
    case (Inr lvs)
    then obtain lv where "lvs = [lv]" "ref_VgLv (NewVolumeRefFromLv lv) = ref_VgLv ref"
        "distinct (lv_LvTags lv)" "set (lv_LvTags lv) = tags (ref_VgLv ref) w"
      using assms x unfolding lvm_tags_def by (metis fst_conv)
    then show ?thesis
      using x Inr keep
      by (intro that [of "Inr (NewVolumeInfoFromLv lv)" w1])
        (auto simp: fetch_def NewVolumeInfoFromLv_def NewVolumeRefFromLv_def)
  qed
qed

lemma change_tags:
  "lvm_tags cl tags \<Longrightarrow> cl_LvChange cl req w = (r, w') \<Longrightarrow> set (lch_AddTag req) \<inter> set (lch_DelTag req) = {} \<Longrightarrow>
     tags k w' = (if r = Inr () \<and> k \<in> set (lch_Target req)
                  then tags k w - set (lch_DelTag req) \<union> set (lch_AddTag req) else tags k w)"
  unfolding lvm_tags_def by (metis fst_conv snd_conv)

lemma setOwner_tags:
  assumes laws: "lvm_tags (lvmctrld bs) tags" and canonical: "owner_canonical (tags (ref_VgLv ref) w)"
    and name: "good_value n" and run: "setOwner bs ref (Some i) (Some n) w = Some (None, w')"
  obtains m where "readback (tags (ref_VgLv ref) w) m"
    and "tags (ref_VgLv ref) w' =
           tags (ref_VgLv ref) w - set (owner_del m (Some i) (Some n)) \<union> owner_tags i n"
proof -
  let ?k = "ref_VgLv ref"
  obtain r w1 where f: "fetch bs ref w = Some (r, w1)" and keep: "\<And>k. tags k w1 = tags k w"
    and vol: "\<And>vol. r = Inr vol \<Longrightarrow> ref_VgLv (fst vol) = ?k \<and> distinct (lv_LvTags (snd vol)) \<and>
      set (lv_LvTags (snd vol)) = tags ?k w"
    by (rule fetch_tags [OF laws, of ref w]) blast
  obtain v m where v: "r = Inr v" "volume_Tags v = Inr m"
    using run f by (auto simp: setOwner_def split: sum.splits)
  let ?D = "owner_del m (Some i) (Some n)"
  have rdb: "readback (tags ?k w) m"
    using volume_Tags_ok [OF v(2) refl] vol [OF v(1)] canonical by (simp add: readback_def)
  have add: "owner_add (Some i) (Some n) \<noteq> []" by (simp add: owner_add_def)
  obtain x where c: "cl_LvChange (lvmctrld bs) (tag_request (fst v) (owner_add (Some i) (Some n)) ?D) w1 = (x, w')"
      "err_of x = None"
    using run f v add by (auto simp: setOwner_def Let_def split: prod.splits)
  then have "x = Inr ()" by (cases x) (simp_all add: err_of_def)
  then have "tags ?k w' = tags ?k w - set ?D \<union> owner_tags i n"
    using change_tags [OF laws c(1)] vol [OF v(1)] keep owner_del_disjoint [OF rdb name]
    by (simp add: tag_request_def owner_add_tags)
  with rdb show thesis by (rule that)
qed

lemma GetOwner_owned:
  assumes laws: "lvm_tags (lvmctrld (base vl)) tags" and name: "good_value n" and i: "i \<le> 2000"
    and rdb: "readback T m"
    and now: "tags (ref_VgLv ref) w = T - set (owner_del m (Some i) (Some n)) \<union> owner_tags i n"
  shows "\<exists>r w'. GetOwner vl ref w = Some (r, w') \<and>
    (r = Inr (i, n) \<or> r = Inl (Status Internal ''failed to list logical volume %s: %v''))"
proof -
  let ?T = "T - set (owner_del m (Some i) (Some n)) \<union> owner_tags i n"
  obtain r w1 where f: "fetch (base vl) ref w = Some (r, w1)"
    and vol: "\<And>vol. r = Inr vol \<Longrightarrow> distinct (lv_LvTags (snd vol)) \<and> set (lv_LvTags (snd vol)) = ?T"
    by (rule fetch_tags [OF laws, of ref w]) (use now in blast)
  show ?thesis
  proof (cases r)
    case (Inl e)
    then show ?thesis using f by (simp add: GetOwner_def)
  next
    case (Inr v)
    obtain m' where m': "volume_Tags v = Inr m'"
      using readable_volume_Tags [of v] vol [OF Inr] new_tags_readable [OF rdb name, of i] by auto
    have owner: "map_of m' k = Some (owner_of k i n)" if "owner_key k" for k
    proof -
      have mem: "encodeTagKV k (owner_of k i n) \<in> owner_tags i n" by (rule owner_tag_mem [OF that])
      then have "carries (encodeTagKV k (owner_of k i n)) k (owner_of k i n)"
        using owner_tag_carries [OF name mem, of k "owner_of k i n"] that by simp
      then show ?thesis using volume_Tags_ok(2) [OF m' refl] vol [OF Inr] mem by blast
    qed
    have "int i \<le> 2000" using i by simp
    then have id: "nodeIDFromString (nodeIDToString i) = Inr i"
      using i by (simp add: nodeIDFromString_def nodeIDToString_def atoi_decimal)
    have "map_of m' ownerIdTagKey = Some (nodeIDToString i)" "map_of m' ownerNodeTagKey = Some n"
      using owner [of ownerIdTagKey] owner [of ownerNodeTagKey] owner_keys(3) by (simp_all add: owner_of_def)
    then show ?thesis using f Inr m' id by (simp add: GetOwner_def)
  qed
qed

lemma LockVolume_owned:
  assumes laws: "lvm_tags (lvmctrld (base vl)) tags" and canonical: "owner_canonical (tags (ref_VgLv v) w)"
    and name: "good_value (nodeName vl)" and free: "\<forall>q. (ref_VgLv v, q) \<notin> holders (l, w)"
    and run: "LockVolume vl v op (l, w) = Some (None, l', w')"
  obtains m where "readback (tags (ref_VgLv v) w) m"
    and "tags (ref_VgLv v) w' = tags (ref_VgLv v) w -
           set (owner_del m (Some (nodeID (base vl))) (Some (nodeName vl))) \<union>
           owner_tags (nodeID (base vl)) (nodeName vl)"
proof -
  let ?k = "ref_VgLv v"
  have m: "(case l ?k of None \<Rightarrow> {} | Some m \<Rightarrow> m) = {}"
    using free by (auto simp: holders_def pairs_mem split: option.splits)
  obtain w1 where c: "cl_LvChange (lvmctrld (base vl)) (activate_request v LV_ACTIVATION_MODE_ACTIVE_EXCLUSIVE) w = (Inr (), w1)"
    and o: "setOwner (base vl) v (Some (nodeID (base vl))) (Some (nodeName vl)) w1 = Some (None, w')"
    using run unfolding LockVolume_def prod.case Let_def m
    by (auto split: prod.splits sum.splits option.splits)
  have same: "tags ?k w1 = tags ?k w"
    using change_tags [OF laws c] by (simp add: activate_request_def)
  show thesis
    using setOwner_tags [OF laws _ name o] canonical that unfolding same by blast
qed

section \<open>Properties\<close>

text \<open>
  A machine with one volume, for the concrete instances: its tags, whether it is active here
  (it is reported open exactly then), and whether another host holds it.
\<close>

record lv_world =
  lw_active :: bool
  lw_tags :: "string list"
  lw_elsewhere :: bool

abbreviation lv_key :: string where
  "lv_key \<equiv> ''vg/csl-v-x''"

definition lw_lv :: "lv_world \<Rightarrow> LogicalVolume" where
  "lw_lv w =
     \<lparr>lv_LvName = ''csl-v-x'', lv_VgName = ''vg'', lv_LvAttr = '''', lv_LvSize = 512, lv_PoolLv = '''',
      lv_Origin = '''', lv_DataPercent = '''', lv_MetadataPercent = '''', lv_MovePv = '''',
      lv_MirrorLog = '''', lv_CopyPercent = '''', lv_ConvertLv = '''', lv_LvTags = remdups (lw_tags w),
      lv_LvRole = [], lv_LvTime = None,
      lv_LvDeviceOpen = (if lw_active w then LV_DEVICE_OPEN_OPEN else LV_DEVICE_OPEN_UNKNOWN)\<rparr>"

definition one_lv :: "lv_world LvmCtrldClient" where
  "one_lv =
     \<lparr>cl_GetStatus = (\<lambda>w. (Inr 7, w)),
      cl_Vgs = (\<lambda>_ w. (Inr [], w)),
      cl_LvCreate = (\<lambda>_ w. (Inl (Status AlreadyExists ''''), w)),
      cl_LvRemove = (\<lambda>_ w. (Inl (Status PermissionDenied ''''), w)),
      cl_Lvs = (\<lambda>req w. (if lvs_Target req = [] \<or> lvs_Target req = [lv_key] then Inr [lw_lv w]
                         else Inl (Status NotFound ''''), w)),
      cl_LvChange = (\<lambda>req w.
        if lch_Target req \<noteq> [lv_key] then (Inl (Status NotFound ''''), w)
        else if lw_elsewhere w then (Inl (Status PermissionDenied ''LV locked by other host''), w)
        else (Inr (), w\<lparr>lw_active := mode_active (lch_Activate req) (lw_active w),
                        lw_tags := filter (\<lambda>t. t \<notin> set (lch_DelTag req)) (lw_tags w) @ lch_AddTag req\<rparr>)),
      cl_LvResize = (\<lambda>_ w. (Inr (), w))\<rparr>"

abbreviation lw_is_active :: "string \<Rightarrow> lv_world \<Rightarrow> bool" where
  "lw_is_active k w \<equiv> k = lv_key \<and> lw_active w"

abbreviation lw_tag_set :: "string \<Rightarrow> lv_world \<Rightarrow> string set" where
  "lw_tag_set k w \<equiv> if k = lv_key then set (lw_tags w) else {}"

lemma lw_ref: "ref_VgLv (NewVolumeRefFromLv (lw_lv w)) = lv_key"
  by (simp add: lw_lv_def NewVolumeRefFromLv_def ref_VgLv_def)

lemma one_lv_laws: "lvm_activation one_lv lw_is_active" "lvm_listing one_lv lw_is_active"
  "lvm_tags one_lv lw_tag_set"
  by (auto simp: lvm_activation_def lvm_listing_def lvm_tags_def one_lv_def lw_ref)
    (auto simp: lw_lv_def split: if_splits)

abbreviation lw_locker :: "lv_world volumeLocker" where
  "lw_locker \<equiv> \<lparr>base = \<lparr>lvmctrld = one_lv, nodeID = 7\<rparr>, nodeName = ''node7''\<rparr>"

abbreviation lw_vol :: VolumeRef where
  "lw_vol \<equiv> \<lparr>LvName = ''csl-v-x'', VgName = ''vg''\<rparr>"

abbreviation lw_idle :: lv_world where
  "lw_idle \<equiv> \<lparr>lw_active = False, lw_tags = [], lw_elsewhere = False\<rparr>"

lemma lw_vol_key: "ref_VgLv lw_vol = lv_key"
  by (simp add: ref_VgLv_def)

lemma lw_setOwner:
  "setOwner (base lw_locker) lw_vol (Some 7) (Some ''node7'') (lw_idle\<lparr>lw_active := a\<rparr>) =
     Some (None, \<lparr>lw_active = a, lw_tags = owner_add (Some 7) (Some ''node7''), lw_elsewhere = False\<rparr>)"
  by (simp add: setOwner_def fetch_def one_lv_def lw_vol_key lw_lv_def NewVolumeInfoFromLv_def
      volume_Tags_def decodeTags_def owner_add_def owner_del_def stale_tag_def tag_request_def ref_VgLv_def
      err_of_def)

lemma lw_lock:
  "LockVolume lw_locker lw_vol op (Map.empty, lw_idle) =
     Some (None, [lv_key \<mapsto> {op}],
       \<lparr>lw_active = True, lw_tags = owner_add (Some 7) (Some ''node7''), lw_elsewhere = False\<rparr>)"
  using lw_setOwner [of True]
  by (simp add: LockVolume_def lw_vol_key activate_request_def one_lv_def [THEN arg_cong [of _ _ cl_LvChange]])

text \<open>C22: Who holds which volume follows from the outcomes alone: along any sequence of requests, with
  whatever LVM answers, the pairs of a volume and an operation that hold it are those whose lock
  was granted and that were not unlocked since; a refused lock adds nothing, and an unlock
  removes its pair even when it fails.\<close>

theorem locks_follow_outcomes:
  assumes "serve_locks (LockVolume vl) (UnlockVolume vl) qs s = Some (log, s')"
  shows "holders s' = fold lock_effect log (holders s)"
  using assms by (rule locker.serve_effect)

theorem locks_follow_outcomes_witness:
  "\<exists>log s'. serve_locks (LockVolume lw_locker) (UnlockVolume lw_locker)
      [Lock lw_vol ''a'', Lock lw_vol ''b'', Unlock lw_vol ''a''] (Map.empty, lw_idle) = Some (log, s') \<and>
     holders s' = {(lv_key, ''b'')}"
proof -
  let ?w = "\<lparr>lw_active = True, lw_tags = owner_add (Some 7) (Some ''node7''), lw_elsewhere = False\<rparr>"
  let ?log = "[(Lock lw_vol ''a'', None), (Lock lw_vol ''b'', None), (Unlock lw_vol ''a'', None)]"
  have "LockVolume lw_locker lw_vol ''b'' ([lv_key \<mapsto> {''a''}], ?w) = Some (None, [lv_key \<mapsto> {''b'', ''a''}], ?w)"
    by (simp add: LockVolume_def lw_vol_key)
  moreover have "UnlockVolume lw_locker lw_vol ''a'' ([lv_key \<mapsto> {''b'', ''a''}], ?w) =
      Some (None, [lv_key \<mapsto> {''b'', ''a''} - {''a''}], ?w)"
    by (auto simp: UnlockVolume_def lw_vol_key)
  ultimately have run: "serve_locks (LockVolume lw_locker) (UnlockVolume lw_locker)
      [Lock lw_vol ''a'', Lock lw_vol ''b'', Unlock lw_vol ''a''] (Map.empty, lw_idle) =
      Some (?log, [lv_key \<mapsto> {''b'', ''a''} - {''a''}], ?w)" using lw_lock by simp
  have "fold lock_effect ?log (holders (Map.empty, lw_idle)) = {(lv_key, ''b'')}"
    by (auto simp: holders_def pairs_mem lw_vol_key)
  then show ?thesis using run locks_follow_outcomes [OF run] by blast
qed


lemma lw_start:
  "NewVolumeLocker one_lv ''node7'' (lw_idle\<lparr>lw_active := True\<rparr>) =
     Some (Inr lw_locker, [lv_key \<mapsto> {defaultLockOp}], lw_idle\<lparr>lw_active := True\<rparr>)"
  by (simp add: NewVolumeLocker_def newBaseServer_def sync_def one_lv_def lw_lv_def NewVolumeRefFromLv_def
      ref_VgLv_def)


text \<open>While an operation holds a volume, the other operations of the node can lock and unlock it as
  they like: every request is granted, none of them reaches LVM, and the holder keeps the
  volume.\<close>

lemma held_volume_quiet:
  assumes "(k, op) \<in> holders s"
    and "\<forall>q \<in> set qs. \<exists>v p. ref_VgLv v = k \<and> p \<noteq> op \<and> q \<in> {Lock v p, Unlock v p}"
  shows "\<exists>log s'. serve_locks (LockVolume vl) (UnlockVolume vl) qs s = Some (log, s') \<and> snd s' = snd s \<and>
    (k, op) \<in> holders s' \<and> (\<forall>(q, r) \<in> set log. r = None)"
  using assms by (rule locker.serve_quiet)



abbreviation lw_theirs :: lv_world where
  "lw_theirs \<equiv>
     \<lparr>lw_active = False, lw_tags = [encodeTagKV ownerNodeTagKey ''node9''], lw_elsewhere = True\<rparr>"


end
