(* ===== verification/FileSystem.thy ===== *)
theory FileSystem
  imports Prelude
begin

text \<open>
  File systems of volumes, \<^verbatim>\<open>pkg/driverd/filesystem.go\<close>: formatting, growing, mounting and
  unmounting, for volumes with a file system and for raw ones. The operating system is the
  parameter \<open>os_env\<close>: processes, the mounter of \<^verbatim>\<open>k8s.io/utils/mount\<close> and the calls of package
  \<^verbatim>\<open>os\<close>, over a state \<open>'w\<close>. A Go interface value is the record of its methods.
\<close>

section \<open>The operating system\<close>

text \<open>
  An error of package \<^verbatim>\<open>os\<close>: the sentinel \<^verbatim>\<open>os.ErrNotExist\<close> itself, or a wrapped error, of which
  \<^verbatim>\<open>os.IsNotExist\<close> tells whether it says that the file is missing.
\<close>

datatype os_error = ErrNotExist | PathError bool

fun os_IsNotExist :: "os_error \<Rightarrow> bool" where
  "os_IsNotExist ErrNotExist = True"
| "os_IsNotExist (PathError missing) = missing"

text \<open>The end of a command; one that was killed or never started has \<^verbatim>\<open>ExitCode\<close> -1.\<close>

datatype run_result = Exited nat | Killed

definition run_ok :: "run_result \<Rightarrow> bool" where
  "run_ok r \<longleftrightarrow> r = Exited 0"

definition ExitCode :: "run_result \<Rightarrow> int" where
  "ExitCode r = (case r of Exited n \<Rightarrow> int n | Killed \<Rightarrow> -1)"

record Statfs =
  Bsize :: int
  Blocks :: nat
  Bfree :: nat
  Bavail :: nat
  Files :: nat
  Ffree :: nat

record 'w os_env =
  os_Run :: "string list \<Rightarrow> 'w \<Rightarrow> run_result \<times> 'w"
  os_IsLikelyNotMountPoint :: "string \<Rightarrow> 'w \<Rightarrow> (bool \<times> os_error option) \<times> 'w"
  os_Mount :: "string \<Rightarrow> string \<Rightarrow> string \<Rightarrow> string list \<Rightarrow> 'w \<Rightarrow> os_error option \<times> 'w"
  os_Unmount :: "string \<Rightarrow> 'w \<Rightarrow> os_error option \<times> 'w"
  os_OpenCreate :: "string \<Rightarrow> nat \<Rightarrow> 'w \<Rightarrow> os_error option \<times> 'w"
  os_CloseCreated :: "string \<Rightarrow> 'w \<Rightarrow> os_error option \<times> 'w"
  os_MkdirAll :: "string \<Rightarrow> nat \<Rightarrow> 'w \<Rightarrow> os_error option \<times> 'w"
  os_RemoveAll :: "string \<Rightarrow> 'w \<Rightarrow> os_error option \<times> 'w"
  os_Chown :: "string \<Rightarrow> int \<Rightarrow> int \<Rightarrow> 'w \<Rightarrow> os_error option \<times> 'w"
  os_Chmod :: "string \<Rightarrow> nat \<Rightarrow> 'w \<Rightarrow> os_error option \<times> 'w"
  os_Statfs :: "string \<Rightarrow> 'w \<Rightarrow> (Statfs \<times> os_error option) \<times> 'w"

section \<open>The code\<close>

datatype mountPointAction = requireExisting | createFile | createDirectory

datatype VolumeAccessType = MountAccessType | BlockAccessType

definition BlockAccessFsName :: string where
  "BlockAccessFsName = ''$raw''"

text \<open>The \<^verbatim>\<open>switch\<close> of \<^verbatim>\<open>mountFs\<close> for a mount point that does not exist.\<close>

definition prepare_mount_point ::
  "'w os_env \<Rightarrow> string \<Rightarrow> mountPointAction \<Rightarrow> 'w \<Rightarrow> go_error option \<times> 'w" where
  "prepare_mount_point os mountPoint mpAction w =
     (case mpAction of
        requireExisting \<Rightarrow> (Some (Status Internal ''%s does not exist''), w)
      | createFile \<Rightarrow>
          (case os_OpenCreate os mountPoint 416 w of
             (Some _, w1) \<Rightarrow> (Some (Status Internal ''failed to create file %s: %v''), w1)
           | (None, w1) \<Rightarrow>
               (case os_CloseCreated os mountPoint w1 of
                  (Some _, w2) \<Rightarrow> (Some (Plain ''close''), w2)
                | (None, w2) \<Rightarrow> (None, w2)))
      | createDirectory \<Rightarrow>
          (case os_MkdirAll os mountPoint 488 w of
             (Some _, w1) \<Rightarrow> (Some (Status Internal ''failed to mkdir %s: %v''), w1)
           | (None, w1) \<Rightarrow> (None, w1)))"

definition mount_now ::
  "'w os_env \<Rightarrow> string \<Rightarrow> string \<Rightarrow> string \<Rightarrow> string list \<Rightarrow> 'w \<Rightarrow> go_error option \<times> 'w" where
  "mount_now os source mountPoint fsName flags w =
     (case os_Mount os source mountPoint fsName flags w of
        (Some _, w1) \<Rightarrow> (Some (Status Internal ''failed to mount: %v''), w1)
      | (None, w1) \<Rightarrow> (None, w1))"

definition mountFs ::
  "'w os_env \<Rightarrow> string \<Rightarrow> string \<Rightarrow> string \<Rightarrow> string list \<Rightarrow> mountPointAction \<Rightarrow> 'w \<Rightarrow> go_error option \<times> 'w" where
  "mountFs os source mountPoint fsName flags mpAction w =
     (case os_IsLikelyNotMountPoint os mountPoint w of
        ((notMounted, None), w1) \<Rightarrow>
          if notMounted then mount_now os source mountPoint fsName flags w1 else (None, w1)
      | ((_, Some err), w1) \<Rightarrow>
          if \<not> os_IsNotExist err then (Some (Status Internal ''failed to determine if %s is mounted: %v''), w1)
          else case prepare_mount_point os mountPoint mpAction w1 of
            (Some e, w2) \<Rightarrow> (Some e, w2)
          | (None, w2) \<Rightarrow> mount_now os source mountPoint fsName flags w2)"

definition umountFs :: "'w os_env \<Rightarrow> string \<Rightarrow> bool \<Rightarrow> 'w \<Rightarrow> go_error option \<times> 'w" where
  "umountFs os targetPath deleteMountPoint w =
     (case os_IsLikelyNotMountPoint os targetPath w of
        ((notMounted, err), w1) \<Rightarrow>
          if err = Some ErrNotExist then (None, w1)
          else case (if notMounted then (None, w1) else os_Unmount os targetPath w1) of
            (Some _, w2) \<Rightarrow> (Some (Status Internal ''failed to unmount %q: %s''), w2)
          | (None, w2) \<Rightarrow>
              if deleteMountPoint then
                (case os_RemoveAll os targetPath w2 of
                   (Some _, w3) \<Rightarrow> (Some (Status Internal ''failed to remove %q: %s''), w3)
                 | (None, w3) \<Rightarrow> (None, w3))
              else (None, w2))"

definition grantGroupAccess :: "'w os_env \<Rightarrow> string \<Rightarrow> int \<Rightarrow> 'w \<Rightarrow> os_error option \<times> 'w" where
  "grantGroupAccess os path groupID w =
     (case os_Chown os path (-1) groupID w of
        (Some e, w1) \<Rightarrow> (Some e, w1)
      | (None, w1) \<Rightarrow> os_Chmod os path 504 w1)"

definition grant_group :: "'w os_env \<Rightarrow> string \<Rightarrow> int option \<Rightarrow> 'w \<Rightarrow> go_error option \<times> 'w" where
  "grant_group os path grpID w =
     (case grpID of
        None \<Rightarrow> (None, w)
      | Some g \<Rightarrow>
          (case grantGroupAccess os path g w of
             (Some _, w1) \<Rightarrow> (Some (Status Internal ''failed to grant group access for volume %s: %v''), w1)
           | (None, w1) \<Rightarrow> (None, w1)))"

text \<open>The methods of \<^verbatim>\<open>fileSystem\<close>, by the name of the file system.\<close>

definition fs_Make :: "'w os_env \<Rightarrow> string \<Rightarrow> string \<Rightarrow> 'w \<Rightarrow> go_error option \<times> 'w" where
  "fs_Make os name device w =
     (case os_Run os [''mkfs'', ''-t'', name, device] w of
        (r, w1) \<Rightarrow>
          (if run_ok r then None else Some (Status Internal ''failed to format volume %s: %s %s''), w1))"

definition fs_Grow :: "'w os_env \<Rightarrow> string \<Rightarrow> 'w \<Rightarrow> go_error option \<times> 'w" where
  "fs_Grow os device w =
     (case os_Run os [''fsadm'', ''check'', device] w of
        (r, w1) \<Rightarrow>
          if \<not> run_ok r \<and> ExitCode r \<noteq> 3
          then (Some (Status Internal ''failed to check volume %s: %v (%s %s)''), w1)
          else case os_Run os [''fsadm'', ''resize'', device] w1 of
            (r', w2) \<Rightarrow>
              (if run_ok r' then None else Some (Status Internal ''failed to resize volume %s: %v (%s %s)''), w2))"

definition fs_Accepts :: "VolumeAccessType \<Rightarrow> bool" where
  "fs_Accepts accessType \<longleftrightarrow> accessType = MountAccessType"

definition fs_Stage ::
  "'w os_env \<Rightarrow> string \<Rightarrow> string \<Rightarrow> string \<Rightarrow> string list \<Rightarrow> int option \<Rightarrow> 'w \<Rightarrow> go_error option \<times> 'w" where
  "fs_Stage os name device stagePoint flags grpID w =
     (case mountFs os device stagePoint name flags requireExisting w of
        (Some e, w1) \<Rightarrow> (Some e, w1)
      | (None, w1) \<Rightarrow> grant_group os stagePoint grpID w1)"

definition fs_Unstage :: "'w os_env \<Rightarrow> string \<Rightarrow> 'w \<Rightarrow> go_error option \<times> 'w" where
  "fs_Unstage os mountPoint w = umountFs os mountPoint False w"

definition bind_flags :: "bool \<Rightarrow> string list" where
  "bind_flags readOnly = ''bind'' # (if readOnly then [''ro''] else [])"

definition fs_Publish ::
  "'w os_env \<Rightarrow> string \<Rightarrow> string \<Rightarrow> string \<Rightarrow> bool \<Rightarrow> 'w \<Rightarrow> go_error option \<times> 'w" where
  "fs_Publish os device stagePoint mountPoint readOnly w =
     mountFs os stagePoint mountPoint '''' (bind_flags readOnly) createDirectory w"

definition fs_Unpublish :: "'w os_env \<Rightarrow> string \<Rightarrow> 'w \<Rightarrow> go_error option \<times> 'w" where
  "fs_Unpublish os mountPoint w = umountFs os mountPoint True w"

definition fs_Stat :: "'w os_env \<Rightarrow> string \<Rightarrow> 'w \<Rightarrow> (Statfs option \<times> os_error option) \<times> 'w" where
  "fs_Stat os mountPoint w =
     (case os_Statfs os mountPoint w of ((st, err), w1) \<Rightarrow> ((Some st, err), w1))"

text \<open>The methods of \<^verbatim>\<open>rawFileSystem\<close>.\<close>

definition raw_Make :: "string \<Rightarrow> 'w \<Rightarrow> go_error option \<times> 'w" where
  "raw_Make device w = (None, w)"

definition raw_Grow :: "string \<Rightarrow> 'w \<Rightarrow> go_error option \<times> 'w" where
  "raw_Grow device w = (None, w)"

definition raw_Accepts :: "VolumeAccessType \<Rightarrow> bool" where
  "raw_Accepts accessType \<longleftrightarrow> accessType = BlockAccessType"

definition raw_Stage ::
  "'w os_env \<Rightarrow> string \<Rightarrow> string \<Rightarrow> string list \<Rightarrow> int option \<Rightarrow> 'w \<Rightarrow> go_error option \<times> 'w" where
  "raw_Stage os device stagePoint flags grpID w = grant_group os device grpID w"

definition raw_Unstage :: "string \<Rightarrow> 'w \<Rightarrow> go_error option \<times> 'w" where
  "raw_Unstage mountPoint w = (None, w)"

definition raw_Stat :: "string \<Rightarrow> 'w \<Rightarrow> (Statfs option \<times> os_error option) \<times> 'w" where
  "raw_Stat mountPoint w = ((None, None), w)"

definition raw_Publish ::
  "'w os_env \<Rightarrow> string \<Rightarrow> string \<Rightarrow> string \<Rightarrow> bool \<Rightarrow> 'w \<Rightarrow> go_error option \<times> 'w" where
  "raw_Publish os device stagePoint mountPoint readOnly w =
     mountFs os device mountPoint '''' (bind_flags readOnly) createFile w"

definition raw_Unpublish :: "'w os_env \<Rightarrow> string \<Rightarrow> 'w \<Rightarrow> go_error option \<times> 'w" where
  "raw_Unpublish os mountPoint w = umountFs os mountPoint True w"

record 'w FileSystem =
  Accepts :: "VolumeAccessType \<Rightarrow> bool"
  Make :: "string \<Rightarrow> 'w \<Rightarrow> go_error option \<times> 'w"
  Grow :: "string \<Rightarrow> 'w \<Rightarrow> go_error option \<times> 'w"
  Stage :: "string \<Rightarrow> string \<Rightarrow> string list \<Rightarrow> int option \<Rightarrow> 'w \<Rightarrow> go_error option \<times> 'w"
  Unstage :: "string \<Rightarrow> 'w \<Rightarrow> go_error option \<times> 'w"
  Publish :: "string \<Rightarrow> string \<Rightarrow> string \<Rightarrow> bool \<Rightarrow> 'w \<Rightarrow> go_error option \<times> 'w"
  Unpublish :: "string \<Rightarrow> 'w \<Rightarrow> go_error option \<times> 'w"
  Stat :: "string \<Rightarrow> 'w \<Rightarrow> (Statfs option \<times> os_error option) \<times> 'w"

text \<open>\<^verbatim>\<open>NewFileSystem\<close>, which never fails; \<^verbatim>\<open>GetFileSystem\<close> of the registry is it.\<close>

definition NewFileSystem :: "'w os_env \<Rightarrow> string \<Rightarrow> go_error + 'w FileSystem" where
  "NewFileSystem os fs =
     (if fs = BlockAccessFsName then
        Inr \<lparr>Accepts = raw_Accepts, Make = raw_Make, Grow = raw_Grow, Stage = raw_Stage os,
          Unstage = raw_Unstage, Publish = raw_Publish os, Unpublish = raw_Unpublish os, Stat = raw_Stat\<rparr>
      else
        Inr \<lparr>Accepts = fs_Accepts, Make = fs_Make os fs, Grow = fs_Grow os, Stage = fs_Stage os fs,
          Unstage = fs_Unstage os, Publish = fs_Publish os, Unpublish = fs_Unpublish os, Stat = fs_Stat os\<rparr>)"

definition GetFileSystem :: "'w os_env \<Rightarrow> string \<Rightarrow> go_error + 'w FileSystem" where
  "GetFileSystem os filesystem = NewFileSystem os filesystem"

lemmas fs_methods = fs_Make_def fs_Grow_def fs_Accepts_def fs_Stage_def fs_Unstage_def fs_Publish_def
  fs_Unpublish_def fs_Stat_def

lemmas raw_methods = raw_Make_def raw_Grow_def raw_Accepts_def raw_Stage_def raw_Unstage_def raw_Publish_def
  raw_Unpublish_def raw_Stat_def

section \<open>Mounting\<close>

text \<open>
  Documented behaviour of the mounter, stated over the number of mounts stacked on a path: the
  check reads the mount table and, when it fails, says that the path is not a mount point; \<^verbatim>\<open>mount\<close> adds one to the
  path it is given and \<^verbatim>\<open>umount\<close> takes one away, or they fail and change nothing; files and
  directories come and go without touching the table.
\<close>

definition mounter_laws :: "'w os_env \<Rightarrow> (string \<Rightarrow> 'w \<Rightarrow> nat) \<Rightarrow> bool" where
  "mounter_laws os mounts \<longleftrightarrow>
     (\<forall>p q w. mounts q (snd (os_IsLikelyNotMountPoint os p w)) = mounts q w) \<and>
     (\<forall>p w b. fst (os_IsLikelyNotMountPoint os p w) = (b, None) \<longrightarrow> b = (mounts p w = 0)) \<and>
     (\<forall>p w b e. fst (os_IsLikelyNotMountPoint os p w) = (b, Some e) \<longrightarrow>
        b \<and> (os_IsNotExist e \<longrightarrow> mounts p w = 0)) \<and>
     (\<forall>src p fs fl q w. mounts q (snd (os_Mount os src p fs fl w)) =
        (if fst (os_Mount os src p fs fl w) = None \<and> q = p then Suc (mounts q w) else mounts q w)) \<and>
     (\<forall>p q w. mounts q (snd (os_Unmount os p w)) =
        (if fst (os_Unmount os p w) = None \<and> q = p then mounts q w - 1 else mounts q w)) \<and>
     (\<forall>p m q w. mounts q (snd (os_OpenCreate os p m w)) = mounts q w) \<and>
     (\<forall>p q w. mounts q (snd (os_CloseCreated os p w)) = mounts q w) \<and>
     (\<forall>p m q w. mounts q (snd (os_MkdirAll os p m w)) = mounts q w) \<and>
     (\<forall>p q w. mounts q (snd (os_RemoveAll os p w)) = mounts q w)"

lemma check_law:
  assumes "mounter_laws os mounts" and "os_IsLikelyNotMountPoint os p w = ((b, r), w')"
  shows "mounts q w' = mounts q w" and "r = None \<Longrightarrow> b = (mounts p w = 0)"
    and "r = Some e \<Longrightarrow> b \<and> (os_IsNotExist e \<longrightarrow> mounts p w = 0)"
  using assms unfolding mounter_laws_def by (metis snd_conv, metis fst_conv, metis fst_conv)

lemma mount_law:
  "mounter_laws os mounts \<Longrightarrow> os_Mount os src p fs fl w = (r, w') \<Longrightarrow>
   mounts q w' = (if r = None \<and> q = p then Suc (mounts q w) else mounts q w)"
  unfolding mounter_laws_def by (metis fst_conv snd_conv)

lemma unmount_law:
  "mounter_laws os mounts \<Longrightarrow> os_Unmount os p w = (r, w') \<Longrightarrow>
   mounts q w' = (if r = None \<and> q = p then mounts q w - 1 else mounts q w)"
  unfolding mounter_laws_def by (metis fst_conv snd_conv)

lemma file_laws:
  assumes "mounter_laws os mounts"
  shows "os_OpenCreate os p m w = (r, w') \<Longrightarrow> mounts q w' = mounts q w"
    and "os_CloseCreated os p w = (r, w') \<Longrightarrow> mounts q w' = mounts q w"
    and "os_MkdirAll os p m w = (r, w') \<Longrightarrow> mounts q w' = mounts q w"
    and "os_RemoveAll os p w = (r, w') \<Longrightarrow> mounts q w' = mounts q w"
  using assms unfolding mounter_laws_def by (metis snd_conv)+

lemma prepare_mounts:
  "mounter_laws os mounts \<Longrightarrow> prepare_mount_point os p a w = (r, w') \<Longrightarrow> mounts q w' = mounts q w"
  using file_laws(1) [of os mounts p 416 w _ _ q] file_laws(2) [of os mounts p _ _ _ q]
    file_laws(3) [of os mounts p 488 w _ _ q]
  by (cases a) (fastforce simp: prepare_mount_point_def split: prod.splits option.splits)+

lemma mount_now_mounts:
  "mounter_laws os mounts \<Longrightarrow> mount_now os src p fs fl w = (r, w') \<Longrightarrow>
   mounts q w' = (if r = None \<and> q = p then Suc (mounts q w) else mounts q w)"
  by (auto simp: mount_now_def dest: mount_law [where q = q] split: prod.splits option.splits)

text \<open>A successful \<open>mountFs\<close> leaves exactly one mount on a path that had at most one.\<close>

lemma mountFs_mounts:
  assumes laws: "mounter_laws os mounts" and run: "mountFs os src p fs fl a w = (r, w')"
  shows "mounts q w' = (if r = None \<and> q = p then max 1 (mounts q w) else mounts q w)"
proof -
  obtain b c w1 where c: "os_IsLikelyNotMountPoint os p w = ((b, c), w1)" by (metis prod.collapse)
  note k = check_law [OF laws c]
  show ?thesis
  proof (cases c)
    case None
    then show ?thesis
      using run c k(1) k(2) mount_now_mounts [OF laws, of src p fs fl w1 r w' q]
      by (cases b) (auto simp: mountFs_def)
  next
    case (Some e)
    show ?thesis
    proof (cases "os_IsNotExist e")
      case False
      then show ?thesis using run c k(1) Some by (auto simp: mountFs_def)
    next
      case True
      then have zero: "mounts p w = 0" using k(3) Some by blast
      obtain s w2 where s: "prepare_mount_point os p a w1 = (s, w2)" by fastforce
      show ?thesis
        using run c k(1) Some True s prepare_mounts [OF laws s] zero
          mount_now_mounts [OF laws, of src p fs fl w2 r w' q]
        by (cases s) (auto simp: mountFs_def)
    qed
  qed
qed

lemma umountFs_mounts:
  assumes laws: "mounter_laws os mounts" and run: "umountFs os p d w = (None, w')"
    and checked: "snd (fst (os_IsLikelyNotMountPoint os p w)) = None"
  shows "mounts q w' = (if q = p then mounts q w - 1 else mounts q w)"
proof -
  obtain b w1 where c: "os_IsLikelyNotMountPoint os p w = ((b, None), w1)"
    using checked by (metis prod.collapse)
  note k = check_law [OF laws c]
  obtain s w2 where u: "(if b then (None, w1) else os_Unmount os p w1) = (s, w2)" by fastforce
  then have s: "s = None" and w': "if d then os_RemoveAll os p w2 = (None, w') else w2 = w'"
    using run c by (auto simp: umountFs_def split: option.splits prod.splits if_splits)
  have "mounts q w' = mounts q w2" using w' file_laws(4) [OF laws] by (auto split: if_splits)
  moreover have "mounts q w2 = (if q = p then mounts q w - 1 else mounts q w)"
    using u s k(1) k(2) unmount_law [OF laws, of p w1 None w2 q] by (cases b) auto
  ultimately show ?thesis by simp
qed

lemma Publish_mountFs:
  "NewFileSystem os name = Inr F \<Longrightarrow>
   \<exists>src a. Publish F dev stg p ro = mountFs os src p '''' (bind_flags ro) a"
proof (cases "name = BlockAccessFsName")
  case True
  then show "NewFileSystem os name = Inr F \<Longrightarrow> ?thesis"
    by (intro exI [of _ dev] exI [of _ createFile]) (auto simp: NewFileSystem_def raw_methods fun_eq_iff)
next
  case False
  then show "NewFileSystem os name = Inr F \<Longrightarrow> ?thesis"
    by (intro exI [of _ stg] exI [of _ createDirectory]) (auto simp: NewFileSystem_def fs_methods fun_eq_iff)
qed

lemma Unpublish_umountFs: "NewFileSystem os name = Inr F \<Longrightarrow> Unpublish F p = umountFs os p True"
  by (auto simp: NewFileSystem_def raw_methods fs_methods fun_eq_iff split: if_splits)

lemma NewFileSystem_ok: "\<exists>F. NewFileSystem os name = Inr F"
  by (simp add: NewFileSystem_def)

text \<open>Publishing a volume several times, as the callers may.\<close>

fun publish_again :: "'w FileSystem \<Rightarrow> string \<Rightarrow> string \<Rightarrow> string \<Rightarrow> bool \<Rightarrow> nat \<Rightarrow> 'w \<Rightarrow> 'w" where
  "publish_again F dev stg p ro 0 w = w"
| "publish_again F dev stg p ro (Suc n) w = publish_again F dev stg p ro n (snd (Publish F dev stg p ro w))"

lemma publish_again_mounts:
  assumes "mounter_laws os mounts" and "NewFileSystem os name = Inr F"
  shows "0 < mounts p w \<Longrightarrow> mounts q (publish_again F dev stg p ro n w) = mounts q w"
proof (induction n arbitrary: w)
  case (Suc n)
  obtain src a where P: "Publish F dev stg p ro = mountFs os src p '''' (bind_flags ro) a"
    using Publish_mountFs [OF assms(2)] by blast
  have m: "mounts x (snd (Publish F dev stg p ro w)) = mounts x w" for x
    using mountFs_mounts [OF assms(1), of src p "''''" "bind_flags ro" a w _ _ x] Suc.prems
    unfolding P by (metis (no_types, lifting) Suc_leI One_nat_def max.absorb2 prod.collapse)
  then show ?case using Suc by simp
qed simp


text \<open>A mount table and the paths removed, for the witnesses.\<close>

type_synonym table = "string list \<times> string list"

definition table_os :: "(string \<Rightarrow> os_error option) \<Rightarrow> table os_env" where
  "table_os bad = \<lparr>
     os_Run = (\<lambda>_ w. (Exited 0, w)),
     os_IsLikelyNotMountPoint = (\<lambda>p w.
       case bad p of None \<Rightarrow> ((p \<notin> set (fst w), None), w) | Some e \<Rightarrow> ((True, Some e), w)),
     os_Mount = (\<lambda>_ p _ _ w. (None, (p # fst w, snd w))),
     os_Unmount = (\<lambda>p w. (None, (remove1 p (fst w), snd w))),
     os_OpenCreate = (\<lambda>_ _ w. (None, w)), os_CloseCreated = (\<lambda>_ w. (None, w)), os_MkdirAll = (\<lambda>_ _ w. (None, w)),
     os_RemoveAll = (\<lambda>p w. (None, (fst w, p # snd w))),
     os_Chown = (\<lambda>_ _ _ w. (None, w)), os_Chmod = (\<lambda>_ _ w. (None, w)),
     os_Statfs = (\<lambda>_ w. ((\<lparr>Bsize = 512, Blocks = 8, Bfree = 4, Bavail = 4, Files = 2, Ffree = 1\<rparr>, None), w))\<rparr>"

definition table_mounts :: "string \<Rightarrow> table \<Rightarrow> nat" where
  "table_mounts p w = count_list (fst w) p"

lemma count_remove1: "count_list (remove1 p xs) q = (if q = p then count_list xs q - 1 else count_list xs q)"
proof (induction xs)
  case (Cons x xs)
  then show ?case using count_notin [of p xs] by (cases "x = p") auto
qed simp

lemma table_laws: "mounter_laws (table_os (\<lambda>_. None)) table_mounts"
  by (auto simp: mounter_laws_def table_os_def table_mounts_def count_remove1 count_list_0_iff)



lemma table_laws_error: "mounter_laws (table_os (\<lambda>_. Some (PathError False))) table_mounts"
  by (auto simp: mounter_laws_def table_os_def table_mounts_def count_remove1 count_list_0_iff)


end
