(* ===== verification/DriverOps.thy ===== *)
theory DriverOps
  imports VolumeLock FileSystem
begin

text \<open>
  The effects of the driver's handlers and the interfaces they are written against. A handler is
  an operation \<open>('s, 'a) op\<close> on the state \<open>'s\<close> of everything it reaches (the table of locks, the daemon
  behind the lvmctrld client, the other nodes, the files): it panics (\<open>None\<close>), returns an error
  (\<open>Inl\<close>) or a value (\<open>Inr\<close>).
\<close>

section \<open>Operations\<close>

type_synonym ('s, 'a) op = "'s \<Rightarrow> ((go_error + 'a) \<times> 's) option"

definition ok :: "'a \<Rightarrow> ('s, 'a) op" where
  "ok x = (\<lambda>s. Some (Inr x, s))"

definition throw :: "go_error \<Rightarrow> ('s, 'a) op" where
  "throw e = (\<lambda>s. Some (Inl e, s))"

definition panic :: "('s, 'a) op" where
  "panic = (\<lambda>s. None)"

text \<open>The outcome of an operation, error or value, handed to the rest of the handler.\<close>

definition attempt :: "('s, 'a) op \<Rightarrow> (go_error + 'a \<Rightarrow> ('s, 'b) op) \<Rightarrow> ('s, 'b) op" where
  "attempt m f = (\<lambda>s. case m s of None \<Rightarrow> None | Some (r, s') \<Rightarrow> f r s')"

text \<open>\<^verbatim>\<open>if err != nil { return nil, err }\<close>, and the variant that wraps the error.\<close>

definition andthen :: "('s, 'a) op \<Rightarrow> ('a \<Rightarrow> ('s, 'b) op) \<Rightarrow> ('s, 'b) op" where
  "andthen m f = attempt m (case_sum throw f)"

definition or_fail :: "('s, 'a) op \<Rightarrow> (go_error \<Rightarrow> go_error) \<Rightarrow> ('s, 'a) op" where
  "or_fail m g = attempt m (case_sum (\<lambda>e. throw (g e)) ok)"

definition require :: "bool \<Rightarrow> go_error \<Rightarrow> ('s, unit) op" where
  "require b e = (if b then ok () else throw e)"

definition of_result :: "go_error + 'a \<Rightarrow> ('s, 'a) op" where
  "of_result r = case_sum throw ok r"

definition perform :: "('s \<Rightarrow> (go_error + 'a) \<times> 's) \<Rightarrow> ('s, 'a) op" where
  "perform f = (\<lambda>s. Some (f s))"

definition run_err :: "('s \<Rightarrow> go_error option \<times> 's) \<Rightarrow> ('s, unit) op" where
  "run_err f = (\<lambda>s. case f s of (None, s') \<Rightarrow> Some (Inr (), s') | (Some e, s') \<Rightarrow> Some (Inl e, s'))"

definition checked :: "('s \<Rightarrow> (go_error option \<times> 's) option) \<Rightarrow> ('s, unit) op" where
  "checked f =
     (\<lambda>s. case f s of
        None \<Rightarrow> None
      | Some (None, s') \<Rightarrow> Some (Inr (), s')
      | Some (Some e, s') \<Rightarrow> Some (Inl e, s'))"

text \<open>\<^verbatim>\<open>defer\<close>: the deferred call runs after the body whatever its outcome, and its error is dropped.\<close>

definition deferred :: "('s, 'a) op \<Rightarrow> ('s, unit) op \<Rightarrow> ('s, 'a) op" where
  "deferred m d = attempt m (\<lambda>r. attempt d (\<lambda>_ s. Some (r, s)))"

lemmas op_defs = ok_def throw_def panic_def attempt_def andthen_def or_fail_def require_def of_result_def
  perform_def run_err_def checked_def

lemma op_run [simp]:
  "ok x s = Some (Inr x, s)" "throw e s = Some (Inl e, s)" "panic s = None"
  "andthen (ok x) f = f x" "andthen (throw e) f = throw e"
  "attempt (ok x) g = g (Inr x)" "attempt (throw e) g = g (Inl e)"
  "or_fail (ok x) h = ok x" "or_fail (throw e) h = throw (h e)"
  "require True e = ok ()" "require False e = throw e"
  "of_result (Inr x) = ok x" "of_result (Inl e) = throw e"
  by (simp_all add: op_defs fun_eq_iff)

section \<open>Interfaces of the driver\<close>

record 's VolumeLocker =
  vl_Lock :: "VolumeRef \<Rightarrow> string \<Rightarrow> 's \<Rightarrow> (go_error option \<times> 's) option"
  vl_Unlock :: "VolumeRef \<Rightarrow> string \<Rightarrow> 's \<Rightarrow> (go_error option \<times> 's) option"
  vl_Owner :: "VolumeRef \<Rightarrow> 's \<Rightarrow> ((go_error + nat \<times> string) \<times> 's) option"

text \<open>The locker of the driver, as the value its clients are given.\<close>

definition locker_of :: "'w volumeLocker \<Rightarrow> (locks \<times> 'w) VolumeLocker" where
  "locker_of vl = \<lparr>vl_Lock = LockVolume vl, vl_Unlock = UnlockVolume vl,
     vl_Owner = (\<lambda>v (l, w). map_option (\<lambda>(r, w'). (r, l, w')) (GetOwner vl v w))\<rparr>"

lemma locker_of_simps [simp]:
  "vl_Lock (locker_of vl) = LockVolume vl" "vl_Unlock (locker_of vl) = UnlockVolume vl"
  by (simp_all add: locker_of_def)

text \<open>\<^verbatim>\<open>lvsVolume\<close> of \<^verbatim>\<open>nodeserver.go\<close>; like \<open>fetch\<close>, it indexes the first volume of the answer.\<close>

definition lvsVolume :: "'s LvmCtrldClient \<Rightarrow> VolumeRef \<Rightarrow> ('s, LogicalVolume) op" where
  "lvsVolume client vol =
     attempt (perform (cl_Lvs client \<lparr>lvs_Select = '''', lvs_Sort = [], lvs_Target = [ref_VgLv vol]\<rparr>)) (\<lambda>r.
     case r of
       Inl err \<Rightarrow>
         if error_code err = NotFound then throw (Status NotFound ''volume %v not found'')
         else throw (Status Internal ''failed to list volumes: %v'')
     | Inr [] \<Rightarrow> panic
     | Inr (lv # _) \<Rightarrow> ok lv)"

section \<open>CSI\<close>

text \<open>The messages of the container storage interface, with the fields the driver reads or sets.\<close>

datatype AccessMode =
    UNKNOWN
  | SINGLE_NODE_WRITER
  | SINGLE_NODE_READER_ONLY
  | MULTI_NODE_READER_ONLY
  | MULTI_NODE_SINGLE_WRITER
  | MULTI_NODE_MULTI_WRITER
  | SINGLE_NODE_SINGLE_WRITER
  | SINGLE_NODE_MULTI_WRITER
  | AccessModeOther int

record MountVolume =
  FsType :: string
  MountFlags :: "string list"
  VolumeMountGroup :: string

datatype AccessType = Block | Mount MountVolume

record VolumeCapability =
  access_mode :: "AccessMode option"
  access_type :: "AccessType option"

definition GetBlock :: "VolumeCapability \<Rightarrow> bool" where
  "GetBlock c \<longleftrightarrow> access_type c = Some Block"

definition GetMount :: "VolumeCapability \<Rightarrow> MountVolume option" where
  "GetMount c = (case access_type c of Some (Mount m) \<Rightarrow> Some m | _ \<Rightarrow> None)"

record CapacityRange =
  RequiredBytes :: int
  LimitBytes :: int

datatype ContentSource = FromSnapshot string | FromVolume string | NoSource

type_synonym parameters = "string \<rightharpoonup> string"

record Volume =
  VolumeId :: string
  CapacityBytes :: int
  VolumeContext :: parameters
  v_ContentSource :: "ContentSource option"

record Snapshot =
  SnapshotId :: string
  SourceVolumeId :: string
  ReadyToUse :: bool
  CreationTime :: "Timestamp option"
  SizeBytes :: int

section \<open>Reasoning about operations\<close>

text \<open>
  A partial-correctness triple: from a state with \<open>P\<close>, an operation that does not panic ends with
  its outcome and state in \<open>Q\<close>. \<open>keeps I\<close> is the triple of an invariant.
\<close>

definition triple :: "('s \<Rightarrow> bool) \<Rightarrow> ('s, 'a) op \<Rightarrow> (go_error + 'a \<Rightarrow> 's \<Rightarrow> bool) \<Rightarrow> bool" where
  "triple P m Q \<longleftrightarrow> (\<forall>s r s'. P s \<longrightarrow> m s = Some (r, s') \<longrightarrow> Q r s')"

abbreviation keeps :: "('s \<Rightarrow> bool) \<Rightarrow> ('s, 'a) op \<Rightarrow> bool" where
  "keeps I m \<equiv> triple I m (\<lambda>_. I)"

named_theorems triple_rules \<open>introduction rules for the triples of operations\<close>

lemma tripleD: "triple P m Q \<Longrightarrow> P s \<Longrightarrow> m s = Some (r, s') \<Longrightarrow> Q r s'"
  by (simp add: triple_def)

lemma triple_weaken:
  "triple P m Q \<Longrightarrow> (\<And>s. P' s \<Longrightarrow> P s) \<Longrightarrow> (\<And>r s. Q r s \<Longrightarrow> Q' r s) \<Longrightarrow> triple P' m Q'"
  unfolding triple_def by blast

lemma triple_pure: "(F \<Longrightarrow> triple P m Q) \<Longrightarrow> triple (\<lambda>s. P s \<and> F) m Q"
  unfolding triple_def by blast

lemma triple_panic [triple_rules]: "triple P panic Q"
  by (simp add: triple_def)

lemma keeps_values [triple_rules]: "keeps I (ok x)" "keeps I (throw e)" "keeps I (require b e)" "keeps I (of_result r)"
  by (auto simp: triple_def require_def of_result_def split: sum.splits)

lemma triple_ok: "(\<And>s. P s \<Longrightarrow> Q (Inr x) s) \<Longrightarrow> triple P (ok x) Q"
  by (simp add: triple_def)

lemma triple_throw: "(\<And>s. P s \<Longrightarrow> Q (Inl e) s) \<Longrightarrow> triple P (throw e) Q"
  by (simp add: triple_def)

lemma triple_attempt:
  "triple P m R \<Longrightarrow> (\<And>r. triple (R r) (f r) Q) \<Longrightarrow> triple P (attempt m f) Q"
  unfolding triple_def attempt_def by (fastforce split: option.splits)

lemma triple_andthen:
  "triple P m (\<lambda>r s. case r of Inl e \<Rightarrow> Q (Inl e) s | Inr x \<Rightarrow> R x s) \<Longrightarrow> (\<And>x. triple (R x) (f x) Q) \<Longrightarrow>
   triple P (andthen m f) Q"
  unfolding andthen_def by (rule triple_attempt, assumption) (auto simp: triple_def split: sum.splits)

lemma triple_or_fail:
  "triple P m (\<lambda>r s. case r of Inl e \<Rightarrow> Q (Inl (g e)) s | Inr x \<Rightarrow> Q (Inr x) s) \<Longrightarrow> triple P (or_fail m g) Q"
  unfolding or_fail_def by (rule triple_attempt, assumption) (auto simp: triple_def split: sum.splits)

lemma keeps_attempt [triple_rules]: "keeps I m \<Longrightarrow> (\<And>r. keeps I (f r)) \<Longrightarrow> keeps I (attempt m f)"
  by (rule triple_attempt)

lemma keeps_andthen [triple_rules]: "keeps I m \<Longrightarrow> (\<And>x. keeps I (f x)) \<Longrightarrow> keeps I (andthen m f)"
  by (rule triple_andthen [where R = "\<lambda>_. I"]) (auto elim!: triple_weaken split: sum.splits)

lemma keeps_or_fail [triple_rules]: "keeps I m \<Longrightarrow> keeps I (or_fail m g)"
  by (rule triple_or_fail) (auto elim!: triple_weaken split: sum.splits)

lemma triple_deferred:
  "triple P m R \<Longrightarrow> (\<And>r. triple (R r) d (\<lambda>_. Q r)) \<Longrightarrow> triple P (deferred m d) Q"
  unfolding deferred_def
  by (rule triple_attempt, assumption) (fastforce simp: triple_def attempt_def split: option.splits)

lemma keeps_deferred [triple_rules]: "keeps I m \<Longrightarrow> keeps I d \<Longrightarrow> keeps I (deferred m d)"
  by (rule triple_deferred)

lemma keeps_perform [triple_rules]: "(\<And>s. I s \<Longrightarrow> I (snd (f s))) \<Longrightarrow> keeps I (perform f)"
  by (auto simp: triple_def perform_def) (metis snd_conv)

lemma keeps_run_err [triple_rules]: "(\<And>s. I s \<Longrightarrow> I (snd (f s))) \<Longrightarrow> keeps I (run_err f)"
  by (auto simp: triple_def run_err_def split: prod.splits option.splits) (metis snd_conv)+

lemma keeps_checked [triple_rules]: "(\<And>s r s'. I s \<Longrightarrow> f s = Some (r, s') \<Longrightarrow> I s') \<Longrightarrow> keeps I (checked f)"
  by (auto simp: triple_def checked_def split: prod.splits option.splits)

text \<open>A client of the daemon none of whose calls disturbs an invariant.\<close>

definition client_keeps :: "('s \<Rightarrow> bool) \<Rightarrow> 's LvmCtrldClient \<Rightarrow> bool" where
  "client_keeps I cl \<longleftrightarrow>
     (\<forall>s. I s \<longrightarrow> I (snd (cl_GetStatus cl s)) \<and> (\<forall>q. I (snd (cl_Vgs cl q s))) \<and> (\<forall>q. I (snd (cl_LvCreate cl q s))) \<and>
        (\<forall>q. I (snd (cl_LvRemove cl q s))) \<and> (\<forall>q. I (snd (cl_Lvs cl q s))) \<and> (\<forall>q. I (snd (cl_LvChange cl q s))) \<and>
        (\<forall>q. I (snd (cl_LvResize cl q s))))"

lemma fetch_op:
  "fetch bs ref =
     attempt (perform (cl_Lvs (lvmctrld bs) \<lparr>lvs_Select = '''', lvs_Sort = [], lvs_Target = [ref_VgLv ref]\<rparr>)) (\<lambda>r.
     case r of
       Inl err \<Rightarrow> throw (if error_code err = NotFound then Status NotFound ''volume %s not found''
                    else Status Internal ''failed to fetch volume %s: %v'')
     | Inr [] \<Rightarrow> panic
     | Inr (lv # _) \<Rightarrow> ok (NewVolumeInfoFromLv lv))"
  by (auto simp: fetch_def attempt_def perform_def fun_eq_iff split: sum.splits list.splits prod.splits)

lemma keeps_fetch:
  "(\<And>q s. I s \<Longrightarrow> I (snd (cl_Lvs (lvmctrld bs) q s))) \<Longrightarrow> keeps I (fetch bs ref)"
  unfolding fetch_op by (intro triple_rules) (auto split: sum.splits list.splits intro: triple_rules)

lemma keeps_lvsVolume: "(\<And>q s. I s \<Longrightarrow> I (snd (cl_Lvs cl q s))) \<Longrightarrow> keeps I (lvsVolume cl vol)"
  unfolding lvsVolume_def by (intro triple_rules) (auto split: sum.splits list.splits intro: triple_rules)

section \<open>The locker and its client\<close>

lemma setOwner_keeps:
  assumes "\<And>q w. I w \<Longrightarrow> I (snd (cl_Lvs (lvmctrld bs) q w))" and "\<And>q w. lch_Activate q \<noteq> LV_ACTIVATION_MODE_ACTIVE_SHARED \<Longrightarrow> I w \<Longrightarrow> I (snd (cl_LvChange (lvmctrld bs) q w))"
    and "I w" and "setOwner bs ref i n w = Some (r, w')"
  shows "I w'"
proof -
  have f: "I w1" if "fetch bs ref w = Some (x, w1)" for x w1
    using tripleD [OF keeps_fetch [of I bs, OF assms(1)] assms(3)] that by blast
  have c: "I (snd (cl_LvChange (lvmctrld bs) (tag_request v a d) w1))" if "I w1" for v a d w1
    using assms(2) [OF _ that, of "tag_request v a d"] by (simp add: tag_request_def)
  show ?thesis
    using assms(4) f c unfolding setOwner_def Let_def
    by (auto split: option.splits sum.splits if_splits prod.splits) (metis snd_conv)+
qed

lemma LockVolume_keeps:
  assumes "\<And>q w. I w \<Longrightarrow> I (snd (cl_Lvs (lvmctrld (base vl)) q w))"
    and "\<And>q w. lch_Activate q \<noteq> LV_ACTIVATION_MODE_ACTIVE_SHARED \<Longrightarrow> I w \<Longrightarrow> I (snd (cl_LvChange (lvmctrld (base vl)) q w))"
    and "I w" and "LockVolume vl v op (l, w) = Some (r, l', w')"
  shows "I w'"
proof -
  have c: "I w2" if "I w1" "cl_LvChange (lvmctrld (base vl)) (activate_request v a) w1 = (x, w2)" "a \<noteq> LV_ACTIVATION_MODE_ACTIVE_SHARED"
    for a x w1 w2
    using assms(2) [OF _ that(1), of "activate_request v a"] that(2,3) by (simp add: activate_request_def)
  have o: "I w2" if "I w1" "setOwner (base vl) ref i n w1 = Some (x, w2)" for ref i n x w1 w2
    by (rule setOwner_keeps [where I = I, OF assms(1,2) that])
  let ?m = "case l (ref_VgLv v) of None \<Rightarrow> {} | Some m \<Rightarrow> m"
  obtain x w1 where x: "cl_LvChange (lvmctrld (base vl)) (activate_request v LV_ACTIVATION_MODE_ACTIVE_EXCLUSIVE) w = (x, w1)"
    by fastforce
  have w1: "I w1" by (rule c [OF assms(3) x]) simp
  show ?thesis
  proof (cases "?m = {} \<and> (\<exists>u. x = Inr u)")
    case False
    then show ?thesis using assms(3,4) w1 x by (cases x) (auto simp: LockVolume_def Let_def split: if_splits)
  next
    case True
    then obtain y w2 where y: "setOwner (base vl) v (Some (nodeID (base vl))) (Some (nodeName vl)) w1 = Some (y, w2)"
      using assms(4) x by (auto simp: LockVolume_def Let_def split: option.splits)
    have w2: "I w2" by (rule o [OF w1 y])
    obtain z w3 where z: "cl_LvChange (lvmctrld (base vl)) (activate_request v LV_ACTIVATION_MODE_DEACTIVATE) w2 = (z, w3)"
      by fastforce
    have "I w3" by (rule c [OF w2 z]) simp
    then show ?thesis using assms(4) True x y w2 z by (cases y) (auto simp: LockVolume_def Let_def)
  qed
qed

lemma UnlockVolume_keeps:
  assumes "\<And>q w. I w \<Longrightarrow> I (snd (cl_Lvs (lvmctrld (base vl)) q w))"
    and "\<And>q w. lch_Activate q \<noteq> LV_ACTIVATION_MODE_ACTIVE_SHARED \<Longrightarrow> I w \<Longrightarrow> I (snd (cl_LvChange (lvmctrld (base vl)) q w))"
    and "I w" and "UnlockVolume vl v op (l, w) = Some (r, l', w')"
  shows "I w'"
proof -
  have c: "I w2" if "I w1" "cl_LvChange (lvmctrld (base vl)) (activate_request v a) w1 = (x, w2)" "a \<noteq> LV_ACTIVATION_MODE_ACTIVE_SHARED"
    for a x w1 w2
    using assms(2) [OF _ that(1), of "activate_request v a"] that(2,3) by (simp add: activate_request_def)
  have o: "I w2" if "I w1" "setOwner (base vl) ref i n w1 = Some (x, w2)" for ref i n x w1 w2
    by (rule setOwner_keeps [where I = I, OF assms(1,2) that])
  show ?thesis
  proof (cases "\<exists>m. l (ref_VgLv v) = Some m \<and> m - {op} = {}")
    case False
    then show ?thesis using assms(3,4) by (auto simp: UnlockVolume_def Let_def split: option.splits)
  next
    case True
    then obtain y w1 where y: "setOwner (base vl) v None None w = Some (y, w1)"
      using assms(4) by (auto simp: UnlockVolume_def Let_def split: option.splits)
    have w1: "I w1" by (rule o [OF assms(3) y])
    obtain z w2 where z: "cl_LvChange (lvmctrld (base vl)) (activate_request v LV_ACTIVATION_MODE_DEACTIVATE) w1 = (z, w2)"
      by fastforce
    have "I w2" by (rule c [OF w1 z]) simp
    then show ?thesis using assms(4) True y w1 z by (cases y; cases z) (auto simp: UnlockVolume_def Let_def)
  qed
qed

text \<open>A client over a larger state.\<close>

definition beside :: "('w \<Rightarrow> 'a \<times> 'w) \<Rightarrow> 'l \<times> 'w \<Rightarrow> 'a \<times> 'l \<times> 'w" where
  "beside f = (\<lambda>(l, w). case f w of (r, w') \<Rightarrow> (r, l, w'))"

definition lift_client :: "'w LvmCtrldClient \<Rightarrow> ('l \<times> 'w) LvmCtrldClient" where
  "lift_client cl = \<lparr>cl_GetStatus = beside (cl_GetStatus cl), cl_Vgs = (\<lambda>q. beside (cl_Vgs cl q)),
     cl_LvCreate = (\<lambda>q. beside (cl_LvCreate cl q)), cl_LvRemove = (\<lambda>q. beside (cl_LvRemove cl q)),
     cl_Lvs = (\<lambda>q. beside (cl_Lvs cl q)), cl_LvChange = (\<lambda>q. beside (cl_LvChange cl q)),
     cl_LvResize = (\<lambda>q. beside (cl_LvResize cl q))\<rparr>"

lemma beside_simps [simp]:
  "fst (beside f s) = fst (f (snd s))" "fst (snd (beside f s)) = fst s" "snd (snd (beside f s)) = snd (f (snd s))"
  by (cases s; simp add: beside_def split: prod.split)+

lemma lift_client_simps [simp]:
  "cl_Lvs (lift_client cl) q = beside (cl_Lvs cl q)" "cl_LvCreate (lift_client cl) q1 = beside (cl_LvCreate cl q1)"
  "cl_LvRemove (lift_client cl) q2 = beside (cl_LvRemove cl q2)" "cl_Vgs (lift_client cl) q' = beside (cl_Vgs cl q')"
  "cl_LvChange (lift_client cl) c = beside (cl_LvChange cl c)" "cl_LvResize (lift_client cl) z = beside (cl_LvResize cl z)"
  "cl_GetStatus (lift_client cl) = beside (cl_GetStatus cl)"
  by (simp_all add: lift_client_def)

section \<open>A small installation\<close>

text \<open>
  A volume group in memory behind an lvmctrld client, one locker, and an operating system in which
  every call succeeds: the concrete inputs of the witnesses of the driver's properties.
\<close>

record lab =
  lb_vols :: "LogicalVolume list"
  lb_next :: nat

definition lv_path :: "LogicalVolume \<Rightarrow> string" where
  "lv_path lv = ref_VgLv (NewVolumeRefFromLv lv)"

definition plain_lv :: "string \<Rightarrow> string \<Rightarrow> nat \<Rightarrow> string list \<Rightarrow> string \<Rightarrow> LogicalVolume" where
  "plain_lv vg lv sz tags orig =
     \<lparr>lv_LvName = lv, lv_VgName = vg, lv_LvAttr = '''', lv_LvSize = sz, lv_PoolLv = '''', lv_Origin = orig,
      lv_DataPercent = '''', lv_MetadataPercent = '''', lv_MovePv = '''', lv_MirrorLog = '''', lv_CopyPercent = '''',
      lv_ConvertLv = '''', lv_LvTags = tags, lv_LvRole = [], lv_LvTime = None, lv_LvDeviceOpen = LV_DEVICE_OPEN_UNKNOWN\<rparr>"

definition lab_client :: "lab LvmCtrldClient" where
  "lab_client = \<lparr>
     cl_GetStatus = (\<lambda>w. (Inr 1, w)),
     cl_Vgs = (\<lambda>_ w. (Inr [], w)),
     cl_LvCreate = (\<lambda>q w.
       let lv = plain_lv (lvc_VgName q) (lvc_LvName q) (lvc_Size q) (lvc_LvTags q) (lvc_Origin q) in
       if lv_path lv \<in> lv_path ` set (lb_vols w) then (Inl (Status AlreadyExists ''exists''), w)
       else (Inr (), w\<lparr>lb_vols := lb_vols w @ [lv]\<rparr>)),
     cl_LvRemove = (\<lambda>q w. (Inr (), w\<lparr>lb_vols := filter (\<lambda>lv. lv_path lv \<notin> set (lvr_Target q)) (lb_vols w)\<rparr>)),
     cl_Lvs = (\<lambda>q w.
       case filter (\<lambda>lv. lvs_Target q = [] \<or> lv_path lv \<in> set (lvs_Target q)) (lb_vols w) of
         [] \<Rightarrow> (Inl (Status NotFound ''not found''), w)
       | lvs \<Rightarrow> (Inr lvs, w)),
     cl_LvChange = (\<lambda>_ w. (Inr (), w)),
     cl_LvResize = (\<lambda>_ w. (Inr (), w))\<rparr>"

definition lab_locker :: "lab volumeLocker" where
  "lab_locker = \<lparr>base = \<lparr>lvmctrld = lab_client, nodeID = 1\<rparr>, nodeName = ''n1''\<rparr>"

definition idle_os :: "'w os_env" where
  "idle_os = \<lparr>
     os_Run = (\<lambda>_ w. (Exited 0, w)), os_IsLikelyNotMountPoint = (\<lambda>_ w. ((True, None), w)),
     os_Mount = (\<lambda>_ _ _ _ w. (None, w)), os_Unmount = (\<lambda>_ w. (None, w)),
     os_OpenCreate = (\<lambda>_ _ w. (None, w)), os_CloseCreated = (\<lambda>_ w. (None, w)), os_MkdirAll = (\<lambda>_ _ w. (None, w)),
     os_RemoveAll = (\<lambda>_ w. (None, w)), os_Chown = (\<lambda>_ _ _ w. (None, w)), os_Chmod = (\<lambda>_ _ w. (None, w)),
     os_Statfs = (\<lambda>_ w. ((\<lparr>Bsize = 512, Blocks = 8, Bfree = 4, Bavail = 4, Files = 2, Ffree = 1\<rparr>, None), w))\<rparr>"

lemma lab_reads: "snd (cl_Lvs lab_client q w) = w" "snd (cl_LvChange lab_client q' w) = w"
  by (simp_all add: lab_client_def split: list.split)

lemma lab_lock_keeps:
  "LockVolume lab_locker v op (l, w) = Some (r, l', w') \<Longrightarrow> w' = w"
  "UnlockVolume lab_locker v op (l, w) = Some (r, l', w') \<Longrightarrow> w' = w"
  using LockVolume_keeps [of "\<lambda>x. x = w" lab_locker w v op l r l' w'] UnlockVolume_keeps [of "\<lambda>x. x = w" lab_locker w v op l r l' w']
  by (simp_all add: lab_locker_def lab_reads)

lemma lab_owned:
  assumes "lb_vols w = [lv]" and "lv_path lv = ref_VgLv v" and "decodeTags (lv_LvTags lv) = Inr tags"
  shows "setOwner (base lab_locker) v i n w = Some (None, w)"
  using assms
  by (simp add: setOwner_def fetch_def lab_locker_def lab_client_def volume_Tags_def NewVolumeInfoFromLv_def err_of_def Let_def)

lemma lab_lock:
  assumes "lb_vols w = [lv]" and "lv_path lv = ref_VgLv v" and "decodeTags (lv_LvTags lv) = Inr tags"
  shows "LockVolume lab_locker v op (Map.empty, w) = Some (None, [ref_VgLv v \<mapsto> {op}], w)"
    and "UnlockVolume lab_locker v op ([ref_VgLv v \<mapsto> {op}], w) = Some (None, Map.empty, w)"
proof -
  have c: "cl_LvChange (lvmctrld (base lab_locker)) q w = (Inr (), w)" for q
    by (simp add: lab_locker_def lab_client_def)
  show "LockVolume lab_locker v op (Map.empty, w) = Some (None, [ref_VgLv v \<mapsto> {op}], w)"
    by (simp add: LockVolume_def c lab_owned [OF assms])
  show "UnlockVolume lab_locker v op ([ref_VgLv v \<mapsto> {op}], w) = Some (None, Map.empty, w)"
    by (simp add: UnlockVolume_def c lab_owned [OF assms])
qed

end
