(* ===== verification/Controller.thy ===== *)
theory Controller
  imports DriverOps
begin

text \<open>
  The controller service, \<^verbatim>\<open>pkg/driverd/controllerserver.go\<close>: volumes. Snapshots and listings are in
  \<^verbatim>\<open>Snapshots\<close> and \<^verbatim>\<open>Listing\<close>. A handler is an \<open>op\<close> on the state of everything behind the record
  \<open>controllerServer\<close>: the daemon, the volume locker, the nodes it can delegate to over the disk RPC, the
  file systems, the uuid generator and the device files.
\<close>

section \<open>State and requests\<close>

record CreateVolumeRequest =
  cv_Name :: string
  cv_CapacityRange :: "CapacityRange option"
  cv_VolumeCapabilities :: "VolumeCapability list"
  cv_Parameters :: parameters
  cv_VolumeContentSource :: "ContentSource option"

record CreateSnapshotRequest =
  sr_SourceVolumeId :: string
  sr_Name :: string
  sr_Parameters :: parameters

text \<open>
  \<^verbatim>\<open>cs_Invoke_*\<close> are the three calls the controller makes on other nodes, \<^verbatim>\<open>cs_order\<close> the order in which
  Go walks a map, and a floating point number is its 64 bits.
\<close>

record 's controllerServer =
  cs_base :: "'s baseServer"
  cs_volumeLock :: "'s VolumeLocker"
  cs_Invoke_CreateVolume :: "nat \<Rightarrow> CreateVolumeRequest \<Rightarrow> 's \<Rightarrow> (go_error + Volume option) \<times> 's"
  cs_Invoke_CreateSnapshot :: "nat \<Rightarrow> CreateSnapshotRequest \<Rightarrow> 's \<Rightarrow> (go_error + Snapshot option) \<times> 's"
  cs_Invoke_DeleteSnapshot :: "nat \<Rightarrow> string \<Rightarrow> 's \<Rightarrow> (go_error + unit) \<times> 's"
  cs_GetFileSystem :: "string \<Rightarrow> go_error + 's FileSystem"
  cs_defaultFs :: string
  cs_uuid :: "'s \<Rightarrow> string \<times> 's"
  cs_open :: "string \<Rightarrow> bool \<Rightarrow> 's \<Rightarrow> go_error option \<times> 's"
  cs_copy :: "string \<Rightarrow> string \<Rightarrow> 's \<Rightarrow> (go_error + nat) \<times> 's"
  cs_close :: "string \<Rightarrow> 's \<Rightarrow> go_error option \<times> 's"
  cs_order :: "string list \<Rightarrow> string list"
  cs_ParseFloat :: "string \<Rightarrow> go_error + nat"
  cs_scale :: "nat \<Rightarrow> nat \<Rightarrow> nat"

abbreviation cs_client :: "'s controllerServer \<Rightarrow> 's LvmCtrldClient" where
  "cs_client cs \<equiv> lvmctrld (cs_base cs)"

definition maxSizeParamKey :: string where "maxSizeParamKey = ''maxSize''"

definition maxSizePctParamKey :: string where "maxSizePctParamKey = ''maxSizePct''"

definition vgParamKey :: string where "vgParamKey = ''volumeGroup''"

definition defaultCapacity :: nat where "defaultCapacity = 2 ^ 20"

definition NewUUID :: "'s controllerServer \<Rightarrow> ('s, string) op" where
  "NewUUID cs = perform (\<lambda>s. case cs_uuid cs s of (u, s') \<Rightarrow> (Inr u, s'))"

definition new_ref :: "string \<Rightarrow> LogVolType \<Rightarrow> string \<Rightarrow> ('s, VolumeRef) op" where
  "new_ref vg t name = (case NewVolumeRefFromVgTypeName vg t name of None \<Rightarrow> panic | Some r \<Rightarrow> ok r)"

section \<open>Capabilities\<close>

definition controllerCapabilities :: "string list" where
  "controllerCapabilities =
     [''CLONE_VOLUME'', ''CREATE_DELETE_SNAPSHOT'', ''CREATE_DELETE_VOLUME'', ''EXPAND_VOLUME'',
      ''LIST_SNAPSHOTS'', ''LIST_VOLUMES'']"

definition ControllerGetCapabilities :: "'s controllerServer \<Rightarrow> ('s, string list) op" where
  "ControllerGetCapabilities cs = ok (cs_order cs controllerCapabilities)"

text \<open>The access modes compatible with each supported mode.\<close>

fun volCapAccessModeCompat :: "AccessMode \<Rightarrow> AccessMode list option" where
  "volCapAccessModeCompat SINGLE_NODE_MULTI_WRITER =
     Some [SINGLE_NODE_MULTI_WRITER, SINGLE_NODE_SINGLE_WRITER, SINGLE_NODE_WRITER]"
| "volCapAccessModeCompat SINGLE_NODE_READER_ONLY = Some [SINGLE_NODE_READER_ONLY]"
| "volCapAccessModeCompat SINGLE_NODE_SINGLE_WRITER = Some [SINGLE_NODE_MULTI_WRITER, SINGLE_NODE_WRITER]"
| "volCapAccessModeCompat SINGLE_NODE_WRITER =
     Some [SINGLE_NODE_MULTI_WRITER, SINGLE_NODE_SINGLE_WRITER, SINGLE_NODE_WRITER]"
| "volCapAccessModeCompat _ = None"

definition compatible :: "AccessMode \<Rightarrow> AccessMode \<Rightarrow> bool" where
  "compatible a b \<longleftrightarrow> (case volCapAccessModeCompat a of None \<Rightarrow> False | Some m \<Rightarrow> b \<in> set m)"

text \<open>\<open>None\<close> is the nil dereference of a capability without access mode.\<close>

fun reduce_loop :: "VolumeCapability \<Rightarrow> VolumeCapability list \<Rightarrow> (go_error + VolumeCapability) option" where
  "reduce_loop agg [] = Some (Inr agg)"
| "reduce_loop agg (cap # cs) =
     (case (access_mode agg, access_mode cap) of
        (Some aggMode, Some currMode) \<Rightarrow>
          (case (if compatible aggMode currMode then Inr agg
                 else if volCapAccessModeCompat currMode = None
                 then Inl (Status InvalidArgument ''unsupported access mode %s'')
                 else if \<not> compatible currMode aggMode
                 then Inl (Status InvalidArgument ''incompatible access mode specified: %s, %s'')
                 else Inr (agg\<lparr>access_mode := access_mode cap\<rparr>)) of
             Inl e \<Rightarrow> Some (Inl e)
           | Inr agg' \<Rightarrow>
               if access_type agg' \<noteq> access_type cap
               then Some (Inl (Status InvalidArgument ''inconsistent volume access types''))
               else reduce_loop agg' cs)
      | _ \<Rightarrow> None)"

definition reduceVolumeCapabilities :: "VolumeCapability list \<Rightarrow> (go_error + VolumeCapability option) option" where
  "reduceVolumeCapabilities capabilities =
     (case capabilities of
        [] \<Rightarrow> Some (Inr None)
      | c # cs \<Rightarrow>
          (case access_mode c of
             None \<Rightarrow> None
           | Some m \<Rightarrow>
               if volCapAccessModeCompat m = None
               then Some (Inl (Status InvalidArgument ''unsupported access mode %s''))
               else map_option (map_sum (\<lambda>e. e) Some) (reduce_loop c cs)))"

section \<open>CreateVolume\<close>

text \<open>The size in bytes, in \<^verbatim>\<open>uint64\<close> arithmetic.\<close>

definition volume_size :: "CapacityRange option \<Rightarrow> go_error + int" where
  "volume_size rng =
     (case rng of
        None \<Rightarrow> Inr (int defaultCapacity)
      | Some r \<Rightarrow>
          if RequiredBytes r > 0 then
            (let size = u64 (u64 (u64 (RequiredBytes r) + 511) div 512 * 512) in
             if LimitBytes r > 0 \<and> size > u64 (LimitBytes r)
             then Inl (Status InvalidArgument
               ''unsatisfiable volume capacity range: required %d bytes <= size %d bytes <= limit %d bytes'')
             else Inr size)
          else if LimitBytes r > 0 then Inr (u64 (u64 (u64 (LimitBytes r) - 511) div 512 * 512))
          else Inl (Status InvalidArgument ''missing volume capacity range''))"

text \<open>The content source: the volume or the snapshot, and the volume to lock (the origin of a snapshot).\<close>

record content_source =
  srcVol :: "(VolumeRef \<times> LogicalVolume) option"
  srcSnap :: "(VolumeRef \<times> LogicalVolume) option"
  lockVol :: "VolumeRef \<times> LogicalVolume"

definition find_source ::
  "'s controllerServer \<Rightarrow> VolumeRef \<Rightarrow> ContentSource \<Rightarrow> ('s, content_source) op" where
  "find_source cs vol src =
     (case src of
        NoSource \<Rightarrow> throw (Status InvalidArgument
          ''a source snapshot or a source volume is required when content source is specified'')
      | FromSnapshot sid \<Rightarrow>
          (case NewVolumeRefFromID sid of
             Inl _ \<Rightarrow> throw (Status NotFound ''invalid source snapshot: %v'')
           | Inr ref \<Rightarrow>
               andthen (require (VgName ref = VgName vol) (Status InvalidArgument
                 ''volume group %q must match the one of the source snapshot %q'')) (\<lambda>_.
               andthen (fetch (cs_base cs) ref) (\<lambda>snap.
               andthen (fetch (cs_base cs) (OriginRef snap)) (\<lambda>orig.
               ok \<lparr>srcVol = None, srcSnap = Some snap, lockVol = orig\<rparr>))))
      | FromVolume vid \<Rightarrow>
          (case NewVolumeRefFromID vid of
             Inl _ \<Rightarrow> throw (Status NotFound ''invalid source volume: %v'')
           | Inr ref \<Rightarrow>
               andthen (require (VgName ref = VgName vol) (Status InvalidArgument
                 ''volume group %q must match the one of the source volume %q'')) (\<lambda>_.
               andthen (fetch (cs_base cs) ref) (\<lambda>v.
               ok \<lparr>srcVol = Some v, srcSnap = None, lockVol = v\<rparr>))))"

definition resolve_source ::
  "'s controllerServer \<Rightarrow> VolumeRef \<Rightarrow> string \<Rightarrow> int \<Rightarrow> ContentSource option \<Rightarrow> ('s, content_source option) op" where
  "resolve_source cs vol fsName sz src =
     (case src of
        None \<Rightarrow> ok None
      | Some c \<Rightarrow>
          andthen (find_source cs vol c) (\<lambda>source.
          andthen (of_result (volume_Tags (lockVol source))) (\<lambda>tags.
          case map_of tags fsTagKey of
            None \<Rightarrow> throw (Status InvalidArgument ''missing %s tag on volume %q'')
          | Some srcFsName \<Rightarrow>
              andthen (require (srcFsName = fsName) (Status InvalidArgument
                ''incompatible filesystem: source filesystem %s, target filesystem %s'')) (\<lambda>_.
              andthen (require (sz \<ge> int (lv_LvSize (snd (lockVol source)))) (Status InvalidArgument
                ''source content requires at least %d bytes, got only %d bytes'')) (\<lambda>_.
              ok (Some source))))))"

text \<open>
  \<^verbatim>\<open>cleanupVols\<close>, the temporary volumes to remove when the handler returns, is a list beside the
  state: \<open>inner\<close> lifts an operation over it, and \<open>with_cleanup\<close> is the deferred function that removes them.
\<close>

definition inner :: "('s, 'a) op \<Rightarrow> ('s \<times> string list, 'a) op" where
  "inner m = (\<lambda>(s, c). map_option (\<lambda>(r, s'). (r, (s', c))) (m s))"

definition add_cleanup :: "string \<Rightarrow> ('s \<times> string list, unit) op" where
  "add_cleanup v = (\<lambda>(s, c). Some (Inr (), (s, if v \<in> set c then c else c @ [v])))"

definition drop_cleanup :: "string \<Rightarrow> ('s \<times> string list, unit) op" where
  "drop_cleanup v = (\<lambda>(s, c). Some (Inr (), (s, removeAll v c)))"

fun cleanup :: "'s LvmCtrldClient \<Rightarrow> string list \<Rightarrow> 's \<Rightarrow> 's" where
  "cleanup client [] s = s"
| "cleanup client (v # vs) s =
     cleanup client vs (snd (cl_LvRemove client \<lparr>lvr_Select = '''', lvr_Target = [v]\<rparr> s))"

definition with_cleanup :: "'s controllerServer \<Rightarrow> ('s \<times> string list, 'a) op \<Rightarrow> ('s, 'a) op" where
  "with_cleanup cs m =
     (\<lambda>s. map_option (\<lambda>(r, (s', c)). (r, cleanup (cs_client cs) (cs_order cs c) s')) (m (s, [])))"

text \<open>
  The pattern the handlers share: lock the volume under an id of its own, or hand the request to the
  node that owns it when the lock is denied; the lock is released when the rest returns. The two functions give the
  errors returned when the owner cannot be found and when the lock fails otherwise.
\<close>

definition lock_id :: "string \<Rightarrow> string \<Rightarrow> string \<Rightarrow> string" where
  "lock_id handler vol uuid = handler @ ''('' @ vol @ '','' @ uuid @ '')''"

definition tryVolumeUnlock :: "'s controllerServer \<Rightarrow> VolumeRef \<Rightarrow> string \<Rightarrow> ('s, unit) op" where
  "tryVolumeUnlock cs vol lockId = attempt (checked (vl_Unlock (cs_volumeLock cs) vol lockId)) (\<lambda>_. ok ())"

definition delegate ::
  "'s controllerServer \<Rightarrow> VolumeRef \<Rightarrow> (go_error \<Rightarrow> go_error) \<Rightarrow> (nat \<Rightarrow> 's \<Rightarrow> (go_error + 'a) \<times> 's) \<Rightarrow> ('s, 'a) op" where
  "delegate cs ref on_owner invoke =
     andthen (or_fail (vl_Owner (cs_volumeLock cs) ref) on_owner) (\<lambda>(ownerId, ownerNode).
     perform (invoke ownerId))"

text \<open>The temporary snapshot of a source volume, or the source snapshot itself: where the data come from.\<close>

definition source_data ::
  "'s controllerServer \<Rightarrow> content_source \<Rightarrow> ('s \<times> string list, VolumeRef) op" where
  "source_data cs source =
     (case srcVol source of
        Some src \<Rightarrow>
          andthen (inner (NewUUID cs)) (\<lambda>u.
          andthen (inner (new_ref (VgName (fst src)) TemporaryVolType u)) (\<lambda>dataVol.
          andthen (inner (or_fail (perform (cl_LvCreate (cs_client cs)
              \<lparr>lvc_VgName = VgName dataVol, lvc_LvName = LvName dataVol, lvc_Size = lv_LvSize (snd (lockVol source)),
               lvc_LvTags = [], lvc_Origin = LvName (fst src),
               lvc_Activate = LV_ACTIVATION_MODE_ACTIVE_EXCLUSIVE\<rparr>))
            (\<lambda>e. Status (error_code e) ''failed to snapshot %v to create volume %s: %v''))) (\<lambda>_.
          andthen (add_cleanup (ref_VgLv dataVol)) (\<lambda>_. ok dataVol))))
      | None \<Rightarrow> (case srcSnap source of None \<Rightarrow> panic | Some snap \<Rightarrow> ok (fst snap)))"

definition lvToVolume :: "LogicalVolume \<Rightarrow> Volume" where
  "lvToVolume lv = \<lparr>VolumeId = ref_ID (fst (NewVolumeInfoFromLv lv)), CapacityBytes = i64 (int (lv_LvSize lv)),
     VolumeContext = Map.empty, v_ContentSource = None\<rparr>"

text \<open>The answer when the volume is there already.\<close>

definition existing_volume :: "'s controllerServer \<Rightarrow> CreateVolumeRequest \<Rightarrow> VolumeRef \<Rightarrow> ('s, Volume) op" where
  "existing_volume cs req vol =
     attempt (fetch (cs_base cs) vol) (\<lambda>r.
     case r of
       Inl e \<Rightarrow>
         if error_code e = NotFound then throw (Status Aborted ''operation already in progress on volume %s'')
         else throw e
     | Inr d \<Rightarrow>
         if u64 (case cv_CapacityRange req of None \<Rightarrow> 0 | Some r \<Rightarrow> RequiredBytes r) > int (lv_LvSize (snd d))
         then throw (Status AlreadyExists ''volume with the same name but with different size already exist'')
         else ok (lvToVolume (snd d)))"

text \<open>Opening both devices, copying, and closing what was opened on every path.\<close>

definition on_error :: "('s, unit) op \<Rightarrow> ('s, 'a) op \<Rightarrow> ('s, 'a) op" where
  "on_error d m = attempt m (\<lambda>r. case r of Inl e \<Rightarrow> attempt d (\<lambda>_. throw e) | Inr x \<Rightarrow> ok x)"

definition close_device :: "'s controllerServer \<Rightarrow> string \<Rightarrow> ('s, unit) op" where
  "close_device cs path = attempt (run_err (cs_close cs path)) (\<lambda>_. ok ())"

definition copy_data :: "'s controllerServer \<Rightarrow> VolumeRef \<Rightarrow> VolumeRef \<Rightarrow> nat \<Rightarrow> ('s, unit) op" where
  "copy_data cs dataVol vol srcSize =
     andthen (or_fail (run_err (cs_open cs (ref_DevPath dataVol) False))
       (\<lambda>_. Status Internal ''failed to open source volume %s: %v'')) (\<lambda>_.
     andthen (on_error (close_device cs (ref_DevPath dataVol))
       (andthen (or_fail (run_err (cs_open cs (ref_DevPath vol) True))
          (\<lambda>_. Status Internal ''failed to open destination volume %s: %v'')) (\<lambda>_.
        on_error (close_device cs (ref_DevPath vol))
          (andthen (or_fail (perform (cs_copy cs (ref_DevPath vol) (ref_DevPath dataVol)))
             (\<lambda>_. Status Internal ''failed to copy source content: %v'')) (\<lambda>written.
           require (written = srcSize)
             (Status Internal ''failed to copy source content: copied %d bytes, expected %d bytes'')))))) (\<lambda>_.
     andthen (close_device cs (ref_DevPath dataVol)) (\<lambda>_.
     close_device cs (ref_DevPath vol))))"

definition fill_volume ::
  "'s controllerServer \<Rightarrow> 's FileSystem \<Rightarrow> (VolumeRef \<times> nat) option \<Rightarrow> VolumeRef \<Rightarrow> ('s, unit) op" where
  "fill_volume cs fs data vol =
     (case data of
        None \<Rightarrow> or_fail (run_err (Make fs (ref_DevPath vol))) (\<lambda>_. Status Internal ''failed to format volume: %v'')
      | Some (dataVol, srcSize) \<Rightarrow> copy_data cs dataVol vol srcSize)"

text \<open>The new volume: created, put on the list of temporary volumes, locked, filled and kept.\<close>

definition volume_tags :: "string \<Rightarrow> string \<Rightarrow> content_source option \<Rightarrow> tag_map" where
  "volume_tags fsName name source =
     [(fsTagKey, fsName), (nameTagKey, name)] @
     (case source of
        None \<Rightarrow> []
      | Some c \<Rightarrow> (case srcVol c of None \<Rightarrow> [] | Some v \<Rightarrow> [(sourceTagKey, ref_ID (fst v))]))"

definition created_volume :: "CreateVolumeRequest \<Rightarrow> VolumeRef \<Rightarrow> int \<Rightarrow> Volume" where
  "created_volume req vol sz =
     \<lparr>VolumeId = ref_ID vol, CapacityBytes = i64 sz, VolumeContext = cv_Parameters req,
      v_ContentSource = cv_VolumeContentSource req\<rparr>"

definition fill_locked ::
  "'s controllerServer \<Rightarrow> 's FileSystem \<Rightarrow> VolumeRef \<Rightarrow> (VolumeRef \<times> nat) option \<Rightarrow> ('s \<times> string list, unit) op" where
  "fill_locked cs fs vol data =
     andthen (inner (NewUUID cs)) (\<lambda>u.
     let lockId = lock_id ''CreateVolume'' (ref_ID vol) u in
     andthen (inner (checked (vl_Lock (cs_volumeLock cs) vol lockId))) (\<lambda>_.
     deferred
       (andthen (inner (fill_volume cs fs data vol)) (\<lambda>_. drop_cleanup (ref_VgLv vol)))
       (inner (tryVolumeUnlock cs vol lockId))))"

definition create_data_volume ::
  "'s controllerServer \<Rightarrow> CreateVolumeRequest \<Rightarrow> VolumeRef \<Rightarrow> string \<Rightarrow> 's FileSystem \<Rightarrow> int \<Rightarrow>
   content_source option \<Rightarrow> (VolumeRef \<times> nat) option \<Rightarrow> ('s \<times> string list, Volume) op" where
  "create_data_volume cs req vol fsName fs sz source data =
     attempt (inner (perform (cl_LvCreate (cs_client cs)
         \<lparr>lvc_VgName = VgName vol, lvc_LvName = LvName vol, lvc_Size = nat sz,
          lvc_LvTags = encodeTags (volume_tags fsName (cv_Name req) source), lvc_Origin = '''',
          lvc_Activate = LV_ACTIVATION_MODE_ACTIVE_EXCLUSIVE\<rparr>))) (\<lambda>r.
     case r of
       Inl e \<Rightarrow>
         if error_code e = AlreadyExists then inner (existing_volume cs req vol)
         else throw (Status (error_code e) ''failed to create volume %s: %v'')
     | Inr _ \<Rightarrow>
         andthen (add_cleanup (ref_VgLv vol)) (\<lambda>_.
         andthen (fill_locked cs fs vol data) (\<lambda>_.
         ok (created_volume req vol sz))))"

text \<open>With a source, the volume to read from is locked first, or the whole request goes to its owner.\<close>

definition create_from ::
  "'s controllerServer \<Rightarrow> CreateVolumeRequest \<Rightarrow> VolumeRef \<Rightarrow> string \<Rightarrow> 's FileSystem \<Rightarrow> int \<Rightarrow>
   content_source \<Rightarrow> ('s \<times> string list, Volume option) op" where
  "create_from cs req vol fsName fs sz source =
     andthen (inner (NewUUID cs)) (\<lambda>u.
     let ref = fst (lockVol source); lockId = lock_id ''CreateVolume'' (ref_ID vol) u in
     attempt (inner (checked (vl_Lock (cs_volumeLock cs) ref lockId))) (\<lambda>r.
     case r of
       Inl e \<Rightarrow>
         if error_code e = PermissionDenied
         then inner (delegate cs ref (\<lambda>e. e) (\<lambda>owner. cs_Invoke_CreateVolume cs owner req))
         else throw e
     | Inr _ \<Rightarrow>
         deferred
           (andthen (source_data cs source) (\<lambda>dataVol.
            andthen (create_data_volume cs req vol fsName fs sz (Some source)
                (Some (dataVol, lv_LvSize (snd (lockVol source))))) (\<lambda>v. ok (Some v))))
           (inner (tryVolumeUnlock cs ref lockId))))"

text \<open>\<^verbatim>\<open>reduceVolumeCapabilities\<close> widens the first capability of the request in place.\<close>

definition widen :: "CreateVolumeRequest \<Rightarrow> VolumeCapability \<Rightarrow> CreateVolumeRequest" where
  "widen req cap = req\<lparr>cv_VolumeCapabilities := cap # tl (cv_VolumeCapabilities req)\<rparr>"

definition CreateVolume :: "'s controllerServer \<Rightarrow> CreateVolumeRequest \<Rightarrow> ('s, Volume option) op" where
  "CreateVolume cs req =
     andthen (require (cv_Name req \<noteq> []) (Status InvalidArgument ''missing volume name'')) (\<lambda>_.
     andthen (require (cv_VolumeCapabilities req \<noteq> []) (Status InvalidArgument ''missing volume capabilities'')) (\<lambda>_.
     case reduceVolumeCapabilities (cv_VolumeCapabilities req) of
       None \<Rightarrow> panic
     | Some (Inl e) \<Rightarrow> throw e
     | Some (Inr None) \<Rightarrow> panic
     | Some (Inr (Some cap)) \<Rightarrow>
         (let fsName = (if GetBlock cap then BlockAccessFsName else cs_defaultFs cs) in
          case cv_Parameters req vgParamKey of
            None \<Rightarrow> throw (Status InvalidArgument ''missing %s parameter'')
          | Some vgName \<Rightarrow>
              andthen (require (vgName \<noteq> []) (Status InvalidArgument ''missing %s parameter'')) (\<lambda>_.
              andthen (require (full_match vgRe vgName) (Status InvalidArgument ''invalid %s parameter'')) (\<lambda>_.
              andthen (of_result (volume_size (cv_CapacityRange req))) (\<lambda>sz.
              andthen (new_ref vgName VolumeVolType (cv_Name req)) (\<lambda>vol.
              andthen (resolve_source cs vol fsName sz (cv_VolumeContentSource req)) (\<lambda>source.
              andthen (of_result (cs_GetFileSystem cs fsName)) (\<lambda>fs.
              andthen (require (Accepts fs (if GetBlock cap then BlockAccessType else MountAccessType))
                (Status InvalidArgument ''filesystem is not compatible with the given access type'')) (\<lambda>_.
              with_cleanup cs
                (case source of
                   None \<Rightarrow>
                     andthen (create_data_volume cs (widen req cap) vol fsName fs sz None None) (\<lambda>v. ok (Some v))
                 | Some c \<Rightarrow> create_from cs (widen req cap) vol fsName fs sz c)))))))))))"

section \<open>The other handlers\<close>

definition DeleteVolume :: "'s controllerServer \<Rightarrow> string \<Rightarrow> ('s, unit) op" where
  "DeleteVolume cs volumeId =
     andthen (require (volumeId \<noteq> []) (Status InvalidArgument ''missing volume id'')) (\<lambda>_.
     if \<not> full_match volumeIdRe volumeId then ok ()
     else case NewVolumeRefFromID volumeId of
       Inl _ \<Rightarrow> throw (Status InvalidArgument ''invalid volume id: %v'')
     | Inr vol \<Rightarrow>
         attempt (perform (cl_LvRemove (cs_client cs)
             \<lparr>lvr_Select = ''lv_role!=origin'', lvr_Target = [ref_VgLv vol]\<rparr>)) (\<lambda>r.
         case r of
           Inl e \<Rightarrow>
             if error_code e = NotFound then ok ()
             else throw (Status Internal ''failed to delete volume %s: %v'')
         | Inr _ \<Rightarrow>
             attempt (perform (cl_Lvs (cs_client cs)
                 \<lparr>lvs_Select = '''', lvs_Sort = [], lvs_Target = [ref_VgLv vol]\<rparr>)) (\<lambda>r.
             case r of
               Inr _ \<Rightarrow> throw (Status FailedPrecondition ''failed to delete volume because of dependant snapshot'')
             | Inl e \<Rightarrow>
                 if error_code e \<noteq> NotFound then throw (Status Internal ''failed to list volume %s: %v'')
                 else ok ())))"

text \<open>The loop of \<^verbatim>\<open>ValidateVolumeCapabilities\<close>: whether all are valid, and the confirmed capabilities.\<close>

definition validate_capability :: "string \<Rightarrow> VolumeCapability \<Rightarrow> bool \<times> VolumeCapability" where
  "validate_capability fsTag cpb =
     ((case access_mode cpb of
         None \<Rightarrow> True
       | Some m \<Rightarrow> m = SINGLE_NODE_WRITER \<or> m = SINGLE_NODE_READER_ONLY) \<and>
      (case access_type cpb of
         Some (Mount m) \<Rightarrow> fsTag = FsType m
       | Some Block \<Rightarrow> fsTag = BlockAccessFsName
       | None \<Rightarrow> True),
      \<lparr>access_mode = access_mode cpb,
       access_type = (case access_type cpb of
         Some (Mount _) \<Rightarrow> Some (Mount \<lparr>FsType = fsTag, MountFlags = [], VolumeMountGroup = ''''\<rparr>)
       | Some Block \<Rightarrow> Some Block
       | None \<Rightarrow> None)\<rparr>)"

definition ValidateVolumeCapabilities ::
  "'s controllerServer \<Rightarrow> string \<Rightarrow> VolumeCapability list \<Rightarrow> ('s, VolumeCapability list option) op" where
  "ValidateVolumeCapabilities cs volumeId caps =
     andthen (require (volumeId \<noteq> []) (Status InvalidArgument ''missing volume id'')) (\<lambda>_.
     andthen (require (full_match volumeIdRe volumeId) (Status NotFound ''volume %s not found'')) (\<lambda>_.
     andthen (require (caps \<noteq> []) (Status InvalidArgument ''missing volume capabilities'')) (\<lambda>_.
     case NewVolumeRefFromID volumeId of
       Inl _ \<Rightarrow> throw (Status InvalidArgument ''invalid volume id: %v'')
     | Inr vol \<Rightarrow>
         andthen (fetch (cs_base cs) vol) (\<lambda>d.
         andthen (of_result (volume_Tags d)) (\<lambda>tags.
         let fsTag = (case map_of tags fsTagKey of None \<Rightarrow> '''' | Some t \<Rightarrow> t);
             checks = map (validate_capability fsTag) caps in
         ok (if list_all fst checks then Some (map snd checks) else None))))))"

definition GetCapacity :: "'s controllerServer \<Rightarrow> parameters \<Rightarrow> ('s, int) op" where
  "GetCapacity cs params =
     andthen (case params vgParamKey of
         None \<Rightarrow> ok []
       | Some vgName \<Rightarrow>
           if full_match vgRe vgName then ok [''vg_name='' @ vgName]
           else throw (Status InvalidArgument ''invalid volume group name'')) (\<lambda>filters.
     andthen (or_fail (perform (cl_Vgs (cs_client cs) \<lparr>vgs_Select = join_with '' && '' filters, vgs_Target = []\<rparr>))
       (\<lambda>_. Status Internal ''failed to volume groups: %v'')) (\<lambda>vgs.
     ok (fold (\<lambda>vg acc. i64 (acc + i64 (int (vg_VgFree vg)))) vgs 0)))"

definition ControllerExpandVolume ::
  "'s controllerServer \<Rightarrow> string \<Rightarrow> CapacityRange option \<Rightarrow> ('s, int \<times> bool) op" where
  "ControllerExpandVolume cs volumeId rng =
     andthen (require (volumeId \<noteq> []) (Status InvalidArgument ''missing volume id'')) (\<lambda>_.
     andthen (require (full_match volumeIdRe volumeId) (Status NotFound ''invalid volume id %q'')) (\<lambda>_.
     case rng of
       None \<Rightarrow> throw (Status InvalidArgument ''missing capacity range'')
     | Some r \<Rightarrow>
         (case NewVolumeRefFromID volumeId of
            Inl _ \<Rightarrow> throw (Status InvalidArgument ''invalid volume id: %v'')
          | Inr vol \<Rightarrow>
              andthen (fetch (cs_base cs) vol) (\<lambda>d.
              let requiredBytes = u64 (RequiredBytes r) in
              if int (lv_LvSize (snd d)) \<ge> requiredBytes then ok (i64 (int (lv_LvSize (snd d))), True)
              else ok (i64 requiredBytes, True)))))"

definition not_implemented :: "string \<Rightarrow> ('s, unit) op" where
  "not_implemented msg = throw (Status Unimplemented msg)"

definition ControllerGetVolume :: "'s controllerServer \<Rightarrow> ('s, unit) op" where
  "ControllerGetVolume cs = not_implemented ''ControllerGetVolume not implemented''"

definition ControllerPublishVolume :: "'s controllerServer \<Rightarrow> ('s, unit) op" where
  "ControllerPublishVolume cs = not_implemented ''not implemented''"

definition ControllerUnpublishVolume :: "'s controllerServer \<Rightarrow> ('s, unit) op" where
  "ControllerUnpublishVolume cs = not_implemented ''not implemented''"

section \<open>Invariants of the handlers\<close>

text \<open>
  What a controller reaches besides its locks, over an invariant: the calls that read, those that create or remove a
  volume, and the rest.
\<close>

definition reads_keep :: "('s \<Rightarrow> bool) \<Rightarrow> 's controllerServer \<Rightarrow> bool" where
  "reads_keep I cs \<longleftrightarrow>
     (\<forall>s. I s \<longrightarrow> (\<forall>q. I (snd (cl_Lvs (cs_client cs) q s))) \<and> I (snd (cs_uuid cs s)) \<and>
        (\<forall>p b. I (snd (cs_open cs p b s))) \<and> (\<forall>p. I (snd (cs_close cs p s))) \<and>
        (\<forall>p q. I (snd (cs_copy cs p q s))) \<and>
        (\<forall>n fs d. cs_GetFileSystem cs n = Inr fs \<longrightarrow> I (snd (Make fs d s))) \<and>
        (\<forall>v r s'. vl_Owner (cs_volumeLock cs) v s = Some (r, s') \<longrightarrow> I s'))"

definition invokes_keep :: "('s \<Rightarrow> bool) \<Rightarrow> 's controllerServer \<Rightarrow> bool" where
  "invokes_keep I cs \<longleftrightarrow>
     (\<forall>s. I s \<longrightarrow> (\<forall>n q. I (snd (cs_Invoke_CreateVolume cs n q s))) \<and>
        (\<forall>n q. I (snd (cs_Invoke_CreateSnapshot cs n q s))) \<and> (\<forall>n q. I (snd (cs_Invoke_DeleteSnapshot cs n q s))))"

definition writes_keep :: "('s \<Rightarrow> bool) \<Rightarrow> 's controllerServer \<Rightarrow> bool" where
  "writes_keep I cs \<longleftrightarrow>
     (\<forall>s. I s \<longrightarrow> (\<forall>q. I (snd (cl_LvCreate (cs_client cs) q s))) \<and> (\<forall>q. I (snd (cl_LvRemove (cs_client cs) q s))))"

lemma reads_keepD:
  assumes "reads_keep I cs" and "I s"
  shows "I (snd (cl_Lvs (cs_client cs) q s))" and "I (snd (cs_uuid cs s))" and "I (snd (cs_open cs p b s))"
    and "I (snd (cs_close cs p s))" and "I (snd (cs_copy cs p p' s))"
    and "cs_GetFileSystem cs n = Inr fs \<Longrightarrow> I (snd (Make fs d s))"
    and "vl_Owner (cs_volumeLock cs) v s = Some (r, s') \<Longrightarrow> I s'"
proof -
  note a = assms(1) [unfolded reads_keep_def, THEN spec, THEN mp, OF assms(2)]
  show "I (snd (cl_Lvs (cs_client cs) q s))" using a by (elim conjE) (erule spec)
  show "I (snd (cs_uuid cs s))" using a by (elim conjE)
  show "I (snd (cs_open cs p b s))" using a by (elim conjE) (drule spec, erule spec)
  show "I (snd (cs_close cs p s))" using a by (elim conjE) metis
  show "I (snd (cs_copy cs p p' s))" using a by (elim conjE) metis
  show "I (snd (Make fs d s))" if "cs_GetFileSystem cs n = Inr fs" using a that by (elim conjE) metis
  show "I s'" if "vl_Owner (cs_volumeLock cs) v s = Some (r, s')" using a that by (elim conjE) metis
qed

lemma reads_keep_ops:
  assumes "reads_keep I cs"
  shows "keeps I (fetch (cs_base cs) v)" and "keeps I (NewUUID cs)" and "keeps I (new_ref vg t n)"
    and "keeps I (run_err (cs_open cs p b))" and "keeps I (perform (cs_copy cs p q))"
    and "keeps I (close_device cs p)" and "keeps I (vl_Owner (cs_volumeLock cs) v)"
    and "cs_GetFileSystem cs n = Inr fs \<Longrightarrow> keeps I (run_err (Make fs d))"
proof -
  note a = reads_keepD [OF assms]
  show "keeps I (fetch (cs_base cs) v)" by (rule keeps_fetch) (rule a(1))
  have "I (snd (case cs_uuid cs s of (u, s') \<Rightarrow> (Inr u, s')))" if "I s" for s
    using a(2) [OF that] by (cases "cs_uuid cs s") simp
  then show "keeps I (NewUUID cs)" unfolding NewUUID_def by (rule keeps_perform)
  show "keeps I (new_ref vg t n)" unfolding new_ref_def by (simp add: triple_rules split: option.split)
  show "keeps I (run_err (cs_open cs p b))" by (rule keeps_run_err) (rule a(3))
  show "keeps I (perform (cs_copy cs p q))" by (rule keeps_perform) (rule a(5))
  show "keeps I (close_device cs p)" unfolding close_device_def by (intro triple_rules) (rule a(4))
  show "keeps I (vl_Owner (cs_volumeLock cs) v)" unfolding triple_def using a(7) by blast
  show "keeps I (run_err (Make fs d))" if "cs_GetFileSystem cs n = Inr fs" by (rule keeps_run_err) (rule a(6) [OF _ that])
qed

lemma keeps_find_source: "reads_keep I cs \<Longrightarrow> keeps I (find_source cs vol src)"
  unfolding find_source_def
  by (cases src) (simp_all add: triple_rules reads_keep_ops split: sum.split)

lemma keeps_resolve_source: "reads_keep I cs \<Longrightarrow> keeps I (resolve_source cs vol fsName sz src)"
  unfolding resolve_source_def
  by (cases src) (simp_all add: triple_rules keeps_find_source split: option.split)

lemma keeps_existing_volume: "reads_keep I cs \<Longrightarrow> keeps I (existing_volume cs req vol)"
  unfolding existing_volume_def
  by (simp add: triple_rules reads_keep_ops split: sum.split)

lemma keeps_on_error: "keeps I d \<Longrightarrow> keeps I m \<Longrightarrow> keeps I (on_error d m)"
  unfolding on_error_def by (simp add: triple_rules split: sum.split)

lemma keeps_copy_data: "reads_keep I cs \<Longrightarrow> keeps I (copy_data cs d v n)"
  unfolding copy_data_def by (intro triple_rules keeps_on_error reads_keep_ops)

lemma keeps_fill_volume:
  "reads_keep I cs \<Longrightarrow> cs_GetFileSystem cs n = Inr fs \<Longrightarrow> keeps I (fill_volume cs fs data vol)"
  unfolding fill_volume_def
  by (cases data) (simp_all add: keeps_or_fail reads_keep_ops(8) keeps_copy_data split: prod.split)

lemma keeps_delegate:
  "reads_keep I cs \<Longrightarrow> (\<And>n s. I s \<Longrightarrow> I (snd (invoke n s))) \<Longrightarrow> keeps I (delegate cs v g invoke)"
  unfolding delegate_def by (simp add: triple_rules reads_keep_ops split: prod.split)

text \<open>Lifting over the list of temporary volumes.\<close>

lemma triple_inner:
  "(\<And>c. triple (\<lambda>s. P (s, c)) m (\<lambda>r s. Q r (s, c))) \<Longrightarrow> triple P (inner m) Q"
  unfolding triple_def inner_def by (fastforce split: option.splits)

lemma triple_add_cleanup:
  "(\<And>s c. P (s, c) \<Longrightarrow> Q (Inr ()) (s, if v \<in> set c then c else c @ [v])) \<Longrightarrow> triple P (add_cleanup v) Q"
  by (auto simp: triple_def add_cleanup_def)

lemma triple_drop_cleanup:
  "(\<And>s c. P (s, c) \<Longrightarrow> Q (Inr ()) (s, removeAll v c)) \<Longrightarrow> triple P (drop_cleanup v) Q"
  by (auto simp: triple_def drop_cleanup_def)

lemma keeps_inner: "keeps I m \<Longrightarrow> keeps (\<lambda>x. I (fst x)) (inner m)"
  by (rule triple_inner) simp

lemma keeps_cleanups: "keeps (\<lambda>x. I (fst x)) (add_cleanup v)" "keeps (\<lambda>x. I (fst x)) (drop_cleanup v)"
  by (auto intro: triple_add_cleanup triple_drop_cleanup)

lemma cleanup_keeps: "writes_keep I cs \<Longrightarrow> I s \<Longrightarrow> I (cleanup (cs_client cs) vs s)"
  by (induction vs arbitrary: s) (auto simp: writes_keep_def)

lemma keeps_with_cleanup: "writes_keep I cs \<Longrightarrow> keeps (\<lambda>x. I (fst x)) m \<Longrightarrow> keeps I (with_cleanup cs m)"
  unfolding triple_def with_cleanup_def by (fastforce intro: cleanup_keeps)

lemma keeps_LvCreate: "writes_keep I cs \<Longrightarrow> keeps I (perform (cl_LvCreate (cs_client cs) q))"
  by (intro triple_rules) (auto simp: writes_keep_def)

lemma keeps_source_data:
  "reads_keep I cs \<Longrightarrow> writes_keep I cs \<Longrightarrow> keeps (\<lambda>x. I (fst x)) (source_data cs c)"
  unfolding source_data_def
  by (simp add: triple_rules keeps_inner keeps_cleanups reads_keep_ops keeps_LvCreate split: option.split)

section \<open>Locks are given back\<close>

lemma lock_pattern:
  assumes "triple P L (\<lambda>r. case r of Inl _ \<Rightarrow> I1 | Inr _ \<Rightarrow> I2)" and "triple I2 U (\<lambda>_. I1)"
    and "\<And>e. keeps I1 (A e)" and "keeps I2 B"
  shows "triple P (attempt L (\<lambda>r. case r of Inl e \<Rightarrow> A e | Inr _ \<Rightarrow> deferred B U)) (\<lambda>_. I1)"
proof (rule triple_attempt [OF assms(1)])
  fix r
  show "triple (case r of Inl _ \<Rightarrow> I1 | Inr _ \<Rightarrow> I2) (case r of Inl e \<Rightarrow> A e | Inr _ \<Rightarrow> deferred B U) (\<lambda>_. I1)"
    using assms(2,3) triple_deferred [OF assms(4), of U "\<lambda>_. I1"] by (cases r) simp_all
qed

text \<open>
  Lock ids carry a fresh uuid. \<open>U s\<close> are the uuids the generator may still hand out, none of which
  occurs in an id that is held: \<open>balanced held U H\<close> is the invariant that \<open>H\<close> is held, and this.
\<close>

definition unused :: "string set \<Rightarrow> (string \<times> string) set \<Rightarrow> bool" where
  "unused W H \<longleftrightarrow> (\<forall>u \<in> W. CHR '','' \<notin> set u \<and> (\<forall>k h v. (k, lock_id h v u) \<notin> H))"

definition balanced ::
  "('s \<Rightarrow> (string \<times> string) set) \<Rightarrow> ('s \<Rightarrow> string set) \<Rightarrow> (string \<times> string) set \<Rightarrow> 's \<Rightarrow> bool" where
  "balanced held U H s \<longleftrightarrow> held s = H \<and> unused (U s) H"

definition fresh_uuids :: "('s \<Rightarrow> string set) \<Rightarrow> 's controllerServer \<Rightarrow> bool" where
  "fresh_uuids U cs \<longleftrightarrow>
     (\<forall>s. fst (cs_uuid cs s) \<in> U s \<and> fst (cs_uuid cs s) \<notin> U (snd (cs_uuid cs s))) \<and>
     (\<forall>v op s r s'. vl_Lock (cs_volumeLock cs) v op s = Some (r, s') \<longrightarrow> U s' \<subseteq> U s) \<and>
     (\<forall>v op s r s'. vl_Unlock (cs_volumeLock cs) v op s = Some (r, s') \<longrightarrow> U s' \<subseteq> U s)"

definition apart_from_locks ::
  "('s \<Rightarrow> (string \<times> string) set) \<Rightarrow> ('s \<Rightarrow> string set) \<Rightarrow> 's controllerServer \<Rightarrow> bool" where
  "apart_from_locks held U cs \<longleftrightarrow>
     (\<forall>H. reads_keep (balanced held U H) cs \<and> writes_keep (balanced held U H) cs \<and>
        invokes_keep (balanced held U H) cs)"

lemma lock_id_uuid:
  assumes "lock_id h v u = lock_id h' v' u'" and "CHR '','' \<notin> set u" and "CHR '','' \<notin> set u'"
  shows "u = u'"
proof -
  have eq: "rev u @ CHR '','' # rev (h @ ''('' @ v) = rev u' @ CHR '','' # rev (h' @ ''('' @ v')"
    using assms(1) [THEN arg_cong [where f = rev]] by (simp add: lock_id_def)
  have "takeWhile (\<lambda>c. c \<noteq> CHR '','') (rev x @ CHR '','' # y) = rev x" if "CHR '','' \<notin> set x" for x y
    using that by (subst takeWhile_append2) auto
  from this [OF assms(2)] this [OF assms(3)] have "rev u = rev u'" using eq by metis
  then show ?thesis by simp
qed

lemma unused_mono: "unused W H \<Longrightarrow> W' \<subseteq> W \<Longrightarrow> H' \<subseteq> H \<Longrightarrow> unused W' H'"
  unfolding unused_def by blast

lemma unused_insert:
  assumes "unused W H" and "u \<in> W" and "W' \<subseteq> W" and "u \<notin> W'"
  shows "unused W' (insert (k, lock_id h v u) H)"
  unfolding unused_def
proof (intro ballI conjI allI)
  fix w assume w: "w \<in> W'"
  then show c: "CHR '','' \<notin> set w" using assms(1,3) unfolding unused_def by blast
  fix k' h' v'
  have "CHR '','' \<notin> set u" using assms(1,2) unfolding unused_def by blast
  then have "lock_id h' v' w \<noteq> lock_id h v u" using lock_id_uuid c w assms(4) by blast
  then show "(k', lock_id h' v' w) \<notin> insert (k, lock_id h v u) H"
    using assms(1,3) w unfolding unused_def by blast
qed

text \<open>After a new uuid: nothing is held under an id made from it, and one may become held.\<close>

definition fresh_for :: "('s \<Rightarrow> (string \<times> string) set) \<Rightarrow> ('s \<Rightarrow> string set) \<Rightarrow> (string \<times> string) set \<Rightarrow> string \<Rightarrow> 's \<Rightarrow> bool" where
  "fresh_for held U H u s \<longleftrightarrow> held s = H \<and> (\<forall>k h v. unused (U s) (insert (k, lock_id h v u) H))"

lemma apartD:
  assumes "apart_from_locks held U cs"
  shows "reads_keep (balanced held U H) cs" "writes_keep (balanced held U H) cs" "invokes_keep (balanced held U H) cs"
  using assms [unfolded apart_from_locks_def, THEN spec [of _ H]] by simp_all

lemma NewUUID_fresh:
  assumes "fresh_uuids U cs" and "apart_from_locks held U cs"
  shows "triple (balanced held U H) (NewUUID cs)
    (\<lambda>r s. case r of Inl _ \<Rightarrow> balanced held U H s
       | Inr u \<Rightarrow> fresh_for held U H u s \<and> (\<forall>k h v. (k, lock_id h v u) \<notin> H))"
  unfolding triple_def
proof (intro allI impI)
  fix s r s' assume H: "balanced held U H s" and run: "NewUUID cs s = Some (r, s')"
  let ?u = "fst (cs_uuid cs s)"
  have rs: "r = Inr ?u" "s' = snd (cs_uuid cs s)"
    using run by (simp_all add: NewUUID_def perform_def split: prod.splits)
  have s': "balanced held U H s'"
    unfolding rs(2) by (rule reads_keepD(2) [OF apartD(1) [OF assms(2)] H])
  have u: "?u \<in> U s" "?u \<notin> U s'" using assms(1) unfolding fresh_uuids_def rs(2) by blast+
  have un: "unused (U s) H" using H by (simp add: balanced_def)
  then have c: "CHR '','' \<notin> set ?u" and no: "(k, lock_id h v ?u) \<notin> H" for k h v
    using u(1) unfolding unused_def by blast+
  have "unused (insert ?u (U s')) H"
    using s' c no unfolding balanced_def unused_def by blast
  then have "unused (U s') (insert (k, lock_id h v ?u) H)" for k h v
    using unused_insert [of "insert ?u (U s')" H ?u "U s'"] u(2) by blast
  then show "case r of Inl _ \<Rightarrow> balanced held U H s'
      | Inr u \<Rightarrow> fresh_for held U H u s' \<and> (\<forall>k h v. (k, lock_id h v u) \<notin> H)"
    using s' no by (simp add: rs(1) fresh_for_def balanced_def)
qed

context volume_locker
begin

lemma lock_op:
  assumes "fresh_uuids U cs" and "vl_Lock (cs_volumeLock cs) = lock"
  shows "triple (fresh_for held U H u) (checked (lock v (lock_id h n u)))
    (\<lambda>r. case r of Inl _ \<Rightarrow> balanced held U H | Inr _ \<Rightarrow> balanced held U (insert (ref_VgLv v, lock_id h n u) H))"
  unfolding triple_def
proof (intro allI impI)
  fix s r s' assume f: "fresh_for held U H u s" and run: "checked (lock v (lock_id h n u)) s = Some (r, s')"
  let ?x = "(ref_VgLv v, lock_id h n u)"
  have un: "held s = H" "unused (U s) (insert ?x H)" using f by (simp_all add: fresh_for_def)
  obtain e where l: "lock v (lock_id h n u) s = Some (e, s')" "(e = None \<and> r = Inr ()) \<or> (\<exists>y. e = Some y \<and> r = Inl y)"
    using run by (auto simp: checked_def split: option.splits prod.splits)
  have "U s' \<subseteq> U s" using assms l(1) unfolding fresh_uuids_def by blast
  then have "unused (U s') (insert ?x H)" "unused (U s') H" using unused_mono [OF un(2)] by blast+
  then show "(case r of Inl _ \<Rightarrow> balanced held U H | Inr _ \<Rightarrow> balanced held U (insert ?x H)) s'"
    using l lock_granted lock_refused un(1) by (auto simp: balanced_def)
qed

lemma unlock_op:
  assumes "fresh_uuids U cs" and "vl_Unlock (cs_volumeLock cs) = unlock" and "(ref_VgLv v, op) \<notin> H"
  shows "triple (balanced held U (insert (ref_VgLv v, op) H)) (tryVolumeUnlock cs v op) (\<lambda>_. balanced held U H)"
  unfolding triple_def
proof (intro allI impI)
  fix s r s' assume b: "balanced held U (insert (ref_VgLv v, op) H) s" and run: "tryVolumeUnlock cs v op s = Some (r, s')"
  obtain e where l: "unlock v op s = Some (e, s')"
    using run by (auto simp: tryVolumeUnlock_def attempt_def checked_def assms(2) split: option.splits prod.splits)
  have "U s' \<subseteq> U s" using assms(1,2) l unfolding fresh_uuids_def by blast
  then have "unused (U s') H" using b unused_mono unfolding balanced_def by blast
  then show "balanced held U H s'" using unlock_held [OF l] b assms(3) by (auto simp: balanced_def)
qed

text \<open>A handler that locks under a fresh id, on the plain state and beside a list of temporary volumes.\<close>

lemma locked_handler:
  assumes laws: "fresh_uuids U cs" "apart_from_locks held U cs"
    and cs: "vl_Lock (cs_volumeLock cs) = lock" "vl_Unlock (cs_volumeLock cs) = unlock"
    and A: "\<And>u e. keeps (balanced held U H) (A u e)"
    and B: "\<And>u x. keeps (balanced held U (insert x H)) (B u)"
  shows "keeps (balanced held U H) (andthen (NewUUID cs) (\<lambda>u.
    attempt (checked (vl_Lock (cs_volumeLock cs) v (lock_id h n u))) (\<lambda>r. case r of Inl e \<Rightarrow> A u e | Inr _ \<Rightarrow>
      deferred (B u) (tryVolumeUnlock cs v (lock_id h n u)))))"
proof (rule triple_andthen [OF NewUUID_fresh [OF laws]])
  fix u
  show "triple (\<lambda>s. fresh_for held U H u s \<and> (\<forall>k h v. (k, lock_id h v u) \<notin> H))
    (attempt (checked (vl_Lock (cs_volumeLock cs) v (lock_id h n u))) (\<lambda>r. case r of Inl e \<Rightarrow> A u e | Inr _ \<Rightarrow>
      deferred (B u) (tryVolumeUnlock cs v (lock_id h n u)))) (\<lambda>_. balanced held U H)"
    unfolding cs(1)
  proof (rule triple_pure, rule lock_pattern [OF lock_op [OF laws(1) cs(1)] unlock_op [OF laws(1) cs(2)]])
  qed (use A B in simp_all)
qed

lemma locked_cop:
  assumes laws: "fresh_uuids U cs" "apart_from_locks held U cs"
    and cs: "vl_Lock (cs_volumeLock cs) = lock" "vl_Unlock (cs_volumeLock cs) = unlock"
    and A: "\<And>u e. keeps (\<lambda>s. balanced held U H (fst s)) (A u e)"
    and B: "\<And>u x. keeps (\<lambda>s. balanced held U (insert x H) (fst s)) (B u)"
  shows "keeps (\<lambda>s. balanced held U H (fst s)) (andthen (inner (NewUUID cs)) (\<lambda>u.
    attempt (inner (checked (vl_Lock (cs_volumeLock cs) v (lock_id h n u)))) (\<lambda>r. case r of Inl e \<Rightarrow> A u e | Inr _ \<Rightarrow>
      deferred (B u) (inner (tryVolumeUnlock cs v (lock_id h n u))))))"
proof (rule triple_andthen)
  show "triple (\<lambda>s. balanced held U H (fst s)) (inner (NewUUID cs)) (\<lambda>r s. case r of Inl _ \<Rightarrow> balanced held U H (fst s)
      | Inr u \<Rightarrow> fresh_for held U H u (fst s) \<and> (\<forall>k h v. (k, lock_id h v u) \<notin> H))"
    by (rule triple_inner, unfold fst_conv) (rule NewUUID_fresh [OF laws])
  fix u
  show "triple (\<lambda>s. fresh_for held U H u (fst s) \<and> (\<forall>k h v. (k, lock_id h v u) \<notin> H))
    (attempt (inner (checked (vl_Lock (cs_volumeLock cs) v (lock_id h n u)))) (\<lambda>r. case r of Inl e \<Rightarrow> A u e | Inr _ \<Rightarrow>
      deferred (B u) (inner (tryVolumeUnlock cs v (lock_id h n u))))) (\<lambda>_ s. balanced held U H (fst s))"
  proof (rule triple_pure, rule lock_pattern [where ?I2.0 = "\<lambda>s. balanced held U (insert (ref_VgLv v, lock_id h n u) H) (fst s)"])
    show "triple (\<lambda>s. fresh_for held U H u (fst s)) (inner (checked (vl_Lock (cs_volumeLock cs) v (lock_id h n u))))
      (\<lambda>r. case r of Inl _ \<Rightarrow> \<lambda>s. balanced held U H (fst s)
         | Inr _ \<Rightarrow> \<lambda>s. balanced held U (insert (ref_VgLv v, lock_id h n u) H) (fst s))"
      unfolding cs(1)
      by (rule triple_inner, rule triple_weaken [OF lock_op [OF laws(1) cs(1), of H u v h n]]) (auto split: sum.splits)
    assume "\<forall>k h v. (k, lock_id h v u) \<notin> H"
    then show "triple (\<lambda>s. balanced held U (insert (ref_VgLv v, lock_id h n u) H) (fst s))
      (inner (tryVolumeUnlock cs v (lock_id h n u))) (\<lambda>_ s. balanced held U H (fst s))"
      by (intro triple_inner, unfold fst_conv) (intro unlock_op [OF laws(1) cs(2)], simp)
  qed (use A B in simp_all)
qed

end

context volume_locker
begin

lemma fill_locked_balanced:
  assumes "fresh_uuids U cs" and apart: "apart_from_locks held U cs"
    and cs: "vl_Lock (cs_volumeLock cs) = lock" "vl_Unlock (cs_volumeLock cs) = unlock"
    and fs: "cs_GetFileSystem cs n = Inr fs"
  shows "keeps (\<lambda>s. balanced held U H (fst s)) (fill_locked cs fs vol data)"
proof -
  have "reads_keep (balanced held U K) cs" for K using apartD [OF apart] by blast
  then have "keeps (\<lambda>s. balanced held U K (fst s)) (andthen (inner (fill_volume cs fs data vol)) (\<lambda>_. drop_cleanup (ref_VgLv vol)))" for K
    by (intro keeps_andthen keeps_inner keeps_cleanups keeps_fill_volume [OF _ fs])
  then show ?thesis
    unfolding fill_locked_def Let_def andthen_def [of "inner (checked _)"]
    by (intro locked_cop [OF assms(1,2) cs]) (simp_all add: triple_rules)
qed

lemma create_data_volume_balanced:
  assumes "fresh_uuids U cs" and apart: "apart_from_locks held U cs"
    and cs: "vl_Lock (cs_volumeLock cs) = lock" "vl_Unlock (cs_volumeLock cs) = unlock"
    and fs: "cs_GetFileSystem cs n = Inr fs"
  shows "keeps (\<lambda>s. balanced held U H (fst s)) (create_data_volume cs req vol fsName fs sz source data)"
proof -
  have r: "reads_keep (balanced held U H) cs" and w: "writes_keep (balanced held U H) cs"
    using apartD [OF apart] by blast+
  show ?thesis
    unfolding create_data_volume_def
    by (rule keeps_attempt [OF keeps_inner [OF keeps_LvCreate [OF w]]])
      (simp add: triple_rules keeps_inner [OF keeps_existing_volume [OF r]]
        keeps_cleanups [of "balanced held U H"] fill_locked_balanced [OF assms] split: sum.split)
qed

lemma create_from_balanced:
  assumes "fresh_uuids U cs" and apart: "apart_from_locks held U cs"
    and cs: "vl_Lock (cs_volumeLock cs) = lock" "vl_Unlock (cs_volumeLock cs) = unlock"
    and fs: "cs_GetFileSystem cs n = Inr fs"
  shows "keeps (\<lambda>s. balanced held U H (fst s)) (create_from cs req vol fsName fs sz source)"
proof -
  have r: "reads_keep (balanced held U K) cs" and w: "writes_keep (balanced held U K) cs"
    and i: "invokes_keep (balanced held U K) cs" for K
    using apartD [OF apart] by blast+
  have "balanced held U H (snd (cs_Invoke_CreateVolume cs owner req s))" if "balanced held U H s" for owner s
    using i [of H] that by (simp add: invokes_keep_def)
  then have d: "keeps (balanced held U H)
      (delegate cs (fst (lockVol source)) (\<lambda>e. e) (\<lambda>owner. cs_Invoke_CreateVolume cs owner req))"
    by (rule keeps_delegate [OF r])
  have A: "keeps (\<lambda>s. balanced held U H (fst s)) (if error_code e = PermissionDenied
      then inner (delegate cs (fst (lockVol source)) (\<lambda>e. e) (\<lambda>owner. cs_Invoke_CreateVolume cs owner req))
      else throw e)" for e
    using keeps_inner [OF d] by (simp add: keeps_values)
  have B: "keeps (\<lambda>s. balanced held U K (fst s)) (andthen (source_data cs source) (\<lambda>dataVol.
      andthen (create_data_volume cs req vol fsName fs sz (Some source)
        (Some (dataVol, lv_LvSize (snd (lockVol source))))) (\<lambda>v. ok (Some v))))" for K
    by (intro triple_rules keeps_source_data [OF r w] create_data_volume_balanced [OF assms])
  show ?thesis
    unfolding create_from_def Let_def by (rule locked_cop [OF assms(1,2) cs A B])
qed

lemma CreateVolume_balanced:
  assumes "fresh_uuids U cs" and apart: "apart_from_locks held U cs"
    and cs: "vl_Lock (cs_volumeLock cs) = lock" "vl_Unlock (cs_volumeLock cs) = unlock"
  shows "keeps (balanced held U H) (CreateVolume cs req)"
proof -
  have r: "reads_keep (balanced held U H) cs" and w: "writes_keep (balanced held U H) cs"
    using apartD [OF apart] by blast+
  have main: "keeps (balanced held U H) (with_cleanup cs
      (case source of None \<Rightarrow> andthen (create_data_volume cs q vol fsName fs sz None None) (\<lambda>v. ok (Some v))
       | Some c \<Rightarrow> create_from cs q vol fsName fs sz c))"
    if "cs_GetFileSystem cs fsName = Inr fs" for source q vol fsName fs sz
    using create_from_balanced [OF assms that] create_data_volume_balanced [OF assms that]
    by (intro keeps_with_cleanup [OF w]) (simp add: triple_rules split: option.split)
  have rest: "keeps (balanced held U H) (andthen (of_result (cs_GetFileSystem cs fsName)) (\<lambda>fs.
      andthen (require (Accepts fs at) er) (\<lambda>_. with_cleanup cs
      (case source of None \<Rightarrow> andthen (create_data_volume cs q vol fsName fs sz None None) (\<lambda>v. ok (Some v))
       | Some c \<Rightarrow> create_from cs q vol fsName fs sz c))))" for source q vol fsName sz at er
    by (cases "cs_GetFileSystem cs fsName") (simp_all add: triple_rules main)
  show ?thesis
    unfolding CreateVolume_def Let_def
    by (intro triple_rules)
      (auto simp: triple_rules rest keeps_resolve_source [OF r] reads_keep_ops(3) [OF r] split: option.split sum.split)
qed

end

section \<open>The size of a new volume\<close>

text \<open>A size the caller can accept: whole blocks, at least what is required and within the limit, if there is one.\<close>

definition acceptable :: "CapacityRange \<Rightarrow> int \<Rightarrow> bool" where
  "acceptable r sz \<longleftrightarrow>
     512 dvd sz \<and> RequiredBytes r \<le> sz \<and> (LimitBytes r \<le> 0 \<or> sz \<le> LimitBytes r)"

lemma round_up:
  fixes x z :: int
  shows "512 dvd (x + 511) div 512 * 512" "x \<le> (x + 511) div 512 * 512" "(x + 511) div 512 * 512 \<le> x + 511"
    "512 dvd z \<Longrightarrow> x \<le> z \<Longrightarrow> (x + 511) div 512 * 512 \<le> z"
proof -
  have m: "(x + 511) div 512 * 512 + (x + 511) mod 512 = x + 511" by (rule div_mult_mod_eq)
  have "0 \<le> (x + 511) mod 512" "(x + 511) mod 512 < 512" by (rule pos_mod_sign pos_mod_bound, simp)+
  then show "x \<le> (x + 511) div 512 * 512" "(x + 511) div 512 * 512 \<le> x + 511" using m by linarith+
  show "(x + 511) div 512 * 512 \<le> z" if z: "512 dvd z" "x \<le> z"
  proof -
    obtain k where k: "z = 512 * k" using z(1) by (rule dvdE)
    have "(x + 511) div 512 \<le> (511 + k * 512) div 512" using z(2) k by (intro zdiv_mono1) linarith+
    also have "\<dots> = k" by (subst div_mult_self1) simp_all
    finally show ?thesis using k by linarith
  qed
qed (rule dvd_triv_right)

lemma round_down:
  fixes x :: int
  shows "512 dvd x div 512 * 512" "x - 512 < x div 512 * 512" "x div 512 * 512 \<le> x"
proof -
  have m: "x div 512 * 512 + x mod 512 = x" by (rule div_mult_mod_eq)
  have "0 \<le> x mod 512" "x mod 512 < 512" by (rule pos_mod_sign pos_mod_bound, simp)+
  then show "x - 512 < x div 512 * 512" "x div 512 * 512 \<le> x" using m by linarith+
qed (rule dvd_triv_right)

lemma wrap_below:
  assumes "0 < x" and "x < 511"
  shows "u64 (x - 511) = x - 511 + 2 ^ 64" "(x - 511 + 2 ^ 64) div 512 = 2 ^ 55 - 1"
proof -
  have "(x - 511 + 2 ^ 64) mod 2 ^ 64 = (x - 511 :: int) mod 2 ^ 64" by (rule mod_add_self2)
  moreover have "(x - 511 + 2 ^ 64) mod 2 ^ 64 = x - 511 + 2 ^ 64" using assms by (intro mod_pos_pos_trivial) simp_all
  ultimately show "u64 (x - 511) = x - 511 + 2 ^ 64" by (simp only: u64_def)
  have "x - 511 + 2 ^ 64 = (x + 1) + 512 * (2 ^ 55 - 1)" by simp
  moreover have "((x + 1) + 512 * (2 ^ 55 - 1)) div 512 = (2 ^ 55 - 1) + (x + 1) div 512" by (rule div_mult_self2) simp
  moreover have "(x + 1) div 512 = 0" using assms by (intro div_pos_pos_trivial) simp_all
  ultimately show "(x - 511 + 2 ^ 64) div 512 = 2 ^ 55 - 1" by simp
qed

lemma power64: "(2 :: int) ^ 64 = 2 * 2 ^ 63" "(2 :: int) ^ 63 > 511"
  by simp_all

lemma required_size:
  assumes "0 < RequiredBytes r" and "RequiredBytes r < 2 ^ 63" and "LimitBytes r < 2 ^ 63"
  shows "volume_size (Some r) =
    (let sz = (RequiredBytes r + 511) div 512 * 512 in
     if 0 < LimitBytes r \<and> LimitBytes r < sz then Inl (Status InvalidArgument
       ''unsatisfiable volume capacity range: required %d bytes <= size %d bytes <= limit %d bytes'') else Inr sz)"
proof -
  have i: "u64 (RequiredBytes r) = RequiredBytes r" "u64 (RequiredBytes r + 511) = RequiredBytes r + 511"
    using assms(1,2) by (intro u64_id; simp)+
  have o: "u64 ((RequiredBytes r + 511) div 512 * 512) = (RequiredBytes r + 511) div 512 * 512"
    by (rule u64_id) (use assms(1,2) round_up(2,3) [of "RequiredBytes r"] power64 in linarith)+
  have "(0 < LimitBytes r \<and> x < u64 (LimitBytes r)) = (0 < LimitBytes r \<and> x < LimitBytes r)"
    "(0 < LimitBytes r \<and> u64 (LimitBytes r) < x) = (0 < LimitBytes r \<and> LimitBytes r < x)" for x
    using assms(3) u64_id [of "LimitBytes r"] by auto
  then show ?thesis using assms(1) unfolding volume_size_def Let_def option.case i o by simp
qed

lemma limit_size:
  assumes "RequiredBytes r \<le> 0" and "0 < LimitBytes r" and "LimitBytes r < 2 ^ 63"
  shows "volume_size (Some r) =
    Inr (if LimitBytes r < 511 then 2 ^ 64 - 512 else (LimitBytes r - 511) div 512 * 512)"
proof -
  have i: "u64 (LimitBytes r) = LimitBytes r" using assms(2,3) by (intro u64_id) simp_all
  have "u64 (u64 (LimitBytes r - 511) div 512 * 512) =
      (if LimitBytes r < 511 then 2 ^ 64 - 512 else (LimitBytes r - 511) div 512 * 512)"
  proof (cases "LimitBytes r < 511")
    case True
    then show ?thesis unfolding wrap_below [OF assms(2) True] by (simp add: u64_def)
  next
    case False
    have "u64 (LimitBytes r - 511) = LimitBytes r - 511" using False assms(3) by (intro u64_id) simp_all
    moreover have "0 \<le> (LimitBytes r - 511) div 512 * 512" using False by simp
    then have "u64 ((LimitBytes r - 511) div 512 * 512) = (LimitBytes r - 511) div 512 * 512"
      by (rule u64_id) (use assms(3) round_down(3) [of "LimitBytes r - 511"] power64 in linarith)
    ultimately show ?thesis using False by (simp only: if_False)
  qed
  then show ?thesis using assms(1,2) unfolding volume_size_def Let_def option.case i by simp
qed

text \<open>C28: When a size is required the volume gets the least acceptable one, and the request is refused exactly when no
  size is acceptable. When only a limit is given the size stays below it by more than a whole block at worst: a limit
  of exactly one block gives size 0, and a limit below 511 bytes wraps around to almost \<open>2 ^ 64\<close>.
\<close>

theorem volume_size_spec:
  assumes "RequiredBytes r < 2 ^ 63" and "LimitBytes r < 2 ^ 63"
  shows "if RequiredBytes r > 0 then
      (case volume_size (Some r) of
         Inr sz \<Rightarrow> acceptable r sz \<and> (\<forall>z. acceptable r z \<longrightarrow> sz \<le> z)
       | Inl _ \<Rightarrow> (\<nexists>z. acceptable r z))
    else if LimitBytes r \<le> 0 then (\<exists>e. volume_size (Some r) = Inl e)
    else if LimitBytes r < 511 then volume_size (Some r) = Inr (2 ^ 64 - 512)
    else (\<exists>sz. volume_size (Some r) = Inr sz \<and> 512 dvd sz \<and> LimitBytes r - 1023 < sz \<and> sz \<le> LimitBytes r - 511)"
proof (cases "RequiredBytes r > 0")
  case True
  let ?sz = "(RequiredBytes r + 511) div 512 * 512"
  note up = round_up [where x = "RequiredBytes r"]
  show ?thesis
  proof (cases "0 < LimitBytes r \<and> LimitBytes r < ?sz")
    case over: True
    have "\<not> acceptable r z" for z using over up(4) [of z] unfolding acceptable_def by (metis leD le_less_trans not_less)
    then show ?thesis using True over by (simp add: required_size [OF True assms])
  next
    case within: False
    have "acceptable r ?sz" using within up(1,2) unfolding acceptable_def by linarith
    moreover have "?sz \<le> z" if "acceptable r z" for z using that up(4) unfolding acceptable_def by blast
    moreover have "volume_size (Some r) = Inr ?sz" using within unfolding required_size [OF True assms] Let_def by simp
    ultimately show ?thesis using True by simp
  qed
next
  case False
  then show ?thesis
  proof (cases "LimitBytes r \<le> 0")
    case True
    then show ?thesis using False by (simp add: volume_size_def)
  next
    case limit: False
    have "volume_size (Some r) = Inr (if LimitBytes r < 511 then 2 ^ 64 - 512 else (LimitBytes r - 511) div 512 * 512)"
      using False limit assms(2) by (intro limit_size) simp_all
    then show ?thesis using False limit round_down [of "LimitBytes r - 511"] by simp
  qed
qed

theorem volume_size_spec_witness:
  "volume_size (Some \<lparr>RequiredBytes = 1000, LimitBytes = 0\<rparr>) = Inr 1024 \<and>
   (\<exists>e. volume_size (Some \<lparr>RequiredBytes = 513, LimitBytes = 600\<rparr>) = Inl e) \<and>
   (\<exists>sz. volume_size (Some \<lparr>RequiredBytes = 0, LimitBytes = 512\<rparr>) = Inr sz \<and> sz \<le> 1)"
proof (intro conjI)
  show "\<exists>sz. volume_size (Some \<lparr>RequiredBytes = 0, LimitBytes = 512\<rparr>) = Inr sz \<and> sz \<le> 1"
    using volume_size_spec [of "\<lparr>RequiredBytes = 0, LimitBytes = 512\<rparr>"] by auto
qed (simp_all add: volume_size_def u64_def)

end
