(* ===== verification/Snapshots.thy ===== *)
theory Snapshots
  imports Controller
begin

text \<open>
  The controller service, \<^verbatim>\<open>pkg/driverd/controllerserver.go\<close>: snapshots. A snapshot is created and
  deleted on the node that holds its origin: the handlers lock the origin, or hand the request to its owner.
\<close>

section \<open>Sizes\<close>

text \<open>
  \<^verbatim>\<open>strconv.ParseUint(value, 10, 64)\<close>, and the test on the fraction, on the bits of a float64: zero is \<open>0\<close> or
  \<open>2 ^ 63\<close>, and a number is above one when its bits lie above those of 1.0, up to infinity.
\<close>

definition ParseUint :: "string \<Rightarrow> nat option" where
  "ParseUint s =
     (if s = [] then None
      else case digits_value 0 s of None \<Rightarrow> None | Some n \<Rightarrow> if n < 2 ^ 64 then Some n else None)"

definition float_is_zero :: "nat \<Rightarrow> bool" where
  "float_is_zero f \<longleftrightarrow> f = 0 \<or> f = 2 ^ 63"

definition float_above_one :: "nat \<Rightarrow> bool" where
  "float_above_one f \<longleftrightarrow> 1023 * 2 ^ 52 < f \<and> f \<le> 2047 * 2 ^ 52"

definition round_up_512 :: "nat \<Rightarrow> nat" where
  "round_up_512 n = nat (u64 (u64 (int n + 511) div 512 * 512))"

definition limit_by_fraction ::
  "'s controllerServer \<Rightarrow> parameters \<Rightarrow> nat \<Rightarrow> nat \<Rightarrow> go_error + nat" where
  "limit_by_fraction cs params lvSize sz =
     (case params maxSizePctParamKey of
        None \<Rightarrow> Inr sz
      | Some v \<Rightarrow>
          (case cs_ParseFloat cs v of
             Inl _ \<Rightarrow> Inl (Status InvalidArgument ''invalid %s parameter %q: %v'')
           | Inr f \<Rightarrow>
               if float_is_zero f \<or> float_above_one f
               then Inl (Status InvalidArgument ''invalid %s parameter %q: expected a value in range (0, 1]'')
               else Inr (min sz (round_up_512 (cs_scale cs lvSize f)))))"

definition limit_by_size :: "parameters \<Rightarrow> nat \<Rightarrow> go_error + nat" where
  "limit_by_size params sz =
     (case params maxSizeParamKey of
        None \<Rightarrow> Inr sz
      | Some v \<Rightarrow>
          (case ParseUint v of
             None \<Rightarrow> Inl (Status InvalidArgument ''invalid %s parameter %q: %v'')
           | Some n \<Rightarrow>
               if n = 0 then Inl (Status InvalidArgument ''invalid %s parameter %q: expected a positive value'')
               else Inr (min sz (round_up_512 n))))"

section \<open>CreateSnapshot\<close>

definition lvToSnapshot :: "LogicalVolume \<Rightarrow> Snapshot" where
  "lvToSnapshot lv =
     (let snap = NewVolumeInfoFromLv lv in
      \<lparr>SnapshotId = ref_ID (fst snap), SourceVolumeId = ref_ID (OriginRef snap), ReadyToUse = True,
       CreationTime = lv_LvTime lv, SizeBytes = i64 (int (lv_LvSize lv))\<rparr>)"

text \<open>The part under the lock.\<close>

definition snapshot_origin ::
  "'s controllerServer \<Rightarrow> CreateSnapshotRequest \<Rightarrow> VolumeRef \<Rightarrow> VolumeRef \<Rightarrow> ('s, Snapshot) op" where
  "snapshot_origin cs req orig snap =
     andthen (fetch (cs_base cs) orig) (\<lambda>origInfo.
     let lvSize = lv_LvSize (snd origInfo) in
     andthen (of_result (limit_by_fraction cs (sr_Parameters req) lvSize lvSize)) (\<lambda>sz.
     andthen (of_result (limit_by_size (sr_Parameters req) sz)) (\<lambda>sz.
     attempt (perform (cl_LvCreate (cs_client cs)
         \<lparr>lvc_VgName = VgName snap, lvc_LvName = LvName snap, lvc_Size = sz,
          lvc_LvTags = encodeTags [(nameTagKey, sr_Name req), (sourceTagKey, ref_ID orig)],
          lvc_Origin = LvName orig, lvc_Activate = LV_ACTIVATION_MODE_NONE\<rparr>)) (\<lambda>r.
     andthen (case r of
         Inl e \<Rightarrow> if error_code e \<noteq> AlreadyExists then throw e else ok ()
       | Inr _ \<Rightarrow> ok ()) (\<lambda>_.
     attempt (fetch (cs_base cs) snap) (\<lambda>r.
     case r of
       Inl e \<Rightarrow>
         if error_code e = NotFound then throw (Status Aborted ''operation already in progress on snapshot %s'')
         else throw e
     | Inr d \<Rightarrow>
         if lv_Origin (snd d) \<noteq> LvName orig
         then throw (Status AlreadyExists ''snapshot with the same name %q but different origin already exist'')
         else ok (lvToSnapshot (snd d))))))))"

definition CreateSnapshot :: "'s controllerServer \<Rightarrow> CreateSnapshotRequest \<Rightarrow> ('s, Snapshot option) op" where
  "CreateSnapshot cs req =
     andthen (require (sr_Name req \<noteq> []) (Status InvalidArgument ''missing snapshot name'')) (\<lambda>_.
     andthen (require (full_match volumeIdRe (sr_SourceVolumeId req))
       (Status InvalidArgument ''invalid source volume id'')) (\<lambda>_.
     case NewVolumeRefFromID (sr_SourceVolumeId req) of
       Inl _ \<Rightarrow> throw (Status InvalidArgument ''invalid source volume: %v'')
     | Inr orig \<Rightarrow>
         andthen (new_ref (VgName orig) SnapshotVolType (sr_Name req)) (\<lambda>snap.
         andthen (NewUUID cs) (\<lambda>u.
         let lockId = lock_id ''CreateSnapshot'' (ref_ID snap) u in
         attempt (checked (vl_Lock (cs_volumeLock cs) orig lockId)) (\<lambda>r.
         case r of
           Inl e \<Rightarrow>
             if error_code e = PermissionDenied
             then delegate cs orig (\<lambda>e. e) (\<lambda>owner. cs_Invoke_CreateSnapshot cs owner req)
             else throw e
         | Inr _ \<Rightarrow>
             deferred (andthen (snapshot_origin cs req orig snap) (\<lambda>x. ok (Some x)))
               (tryVolumeUnlock cs orig lockId))))))"

section \<open>DeleteSnapshot\<close>

text \<open>The snapshot and its origin; \<open>None\<close> when one of them is not there any more.\<close>

definition fetch_or_gone :: "'s controllerServer \<Rightarrow> VolumeRef \<Rightarrow> ('s, (VolumeRef \<times> LogicalVolume) option) op" where
  "fetch_or_gone cs ref =
     attempt (fetch (cs_base cs) ref) (\<lambda>r.
     case r of
       Inl e \<Rightarrow> if error_code e = NotFound then ok None else throw e
     | Inr v \<Rightarrow> ok (Some v))"

definition DeleteSnapshot :: "'s controllerServer \<Rightarrow> string \<Rightarrow> ('s, unit) op" where
  "DeleteSnapshot cs volumeId =
     andthen (require (volumeId \<noteq> []) (Status InvalidArgument ''missing snapshot id'')) (\<lambda>_.
     if \<not> full_match volumeIdRe volumeId then ok ()
     else case NewVolumeRefFromID volumeId of
       Inl _ \<Rightarrow> throw (Status InvalidArgument ''invalid volume id: %v'')
     | Inr snapRef \<Rightarrow>
         andthen (fetch_or_gone cs snapRef) (\<lambda>found.
         case found of
           None \<Rightarrow> ok ()
         | Some snap \<Rightarrow>
             andthen (fetch_or_gone cs (OriginRef snap)) (\<lambda>found.
             case found of
               None \<Rightarrow> ok ()
             | Some origin \<Rightarrow>
                 andthen (NewUUID cs) (\<lambda>u.
                 let lockId = lock_id ''DeleteSnapshot'' (ref_ID (fst snap)) u in
                 attempt (checked (vl_Lock (cs_volumeLock cs) (fst origin) lockId)) (\<lambda>r.
                 case r of
                   Inl e \<Rightarrow>
                     if error_code e = PermissionDenied
                     then delegate cs (OriginRef snap)
                       (\<lambda>_. Status Aborted ''failed to retrieve owner node for locked volume %q: %v'')
                       (\<lambda>owner. cs_Invoke_DeleteSnapshot cs owner volumeId)
                     else throw (Status Internal ''failed to lock %s: %v'')
                 | Inr _ \<Rightarrow>
                     deferred
                       (attempt (perform (cl_LvRemove (cs_client cs)
                           \<lparr>lvr_Select = '''', lvr_Target = [ref_VgLv (fst snap)]\<rparr>)) (\<lambda>r.
                        case r of
                          Inl e \<Rightarrow>
                            if error_code e \<noteq> NotFound then throw (Status Internal ''failed to delete snapshot %s: %v'')
                            else ok ()
                        | Inr _ \<Rightarrow> ok ()))
                       (tryVolumeUnlock cs (fst origin) lockId))))))"

section \<open>Locks are given back\<close>

context volume_locker
begin

lemma CreateSnapshot_balanced:
  assumes laws: "fresh_uuids U cs" "apart_from_locks held U cs"
    and cs: "vl_Lock (cs_volumeLock cs) = lock" "vl_Unlock (cs_volumeLock cs) = unlock"
  shows "keeps (balanced held U H) (CreateSnapshot cs req)"
proof -
  have r: "reads_keep (balanced held U K) cs" and w: "writes_keep (balanced held U K) cs"
    and i: "invokes_keep (balanced held U K) cs" for K using apartD [OF laws(2)] by blast+
  have s: "keeps (balanced held U K) (snapshot_origin cs req orig snap)" for K orig snap
    unfolding snapshot_origin_def Let_def
    by (simp add: triple_rules reads_keep_ops(1) [OF r] keeps_LvCreate [OF w] split: sum.split)
  have "balanced held U H (snd (cs_Invoke_CreateSnapshot cs owner req s))" if "balanced held U H s" for owner s
    using i [of H] that by (simp add: invokes_keep_def)
  then have d: "keeps (balanced held U H) (delegate cs orig (\<lambda>e. e) (\<lambda>owner. cs_Invoke_CreateSnapshot cs owner req))" for orig
    by (rule keeps_delegate [OF r])
  have main: "keeps (balanced held U H) (andthen (NewUUID cs) (\<lambda>u.
      attempt (checked (vl_Lock (cs_volumeLock cs) orig (lock_id h n u))) (\<lambda>r. case r of
        Inl e \<Rightarrow> if error_code e = PermissionDenied
          then delegate cs orig (\<lambda>e. e) (\<lambda>owner. cs_Invoke_CreateSnapshot cs owner req) else throw e
      | Inr _ \<Rightarrow> deferred (andthen (snapshot_origin cs req orig snap) (\<lambda>x. ok (Some x)))
          (tryVolumeUnlock cs orig (lock_id h n u)))))" for orig snap h n
    by (rule locked_handler [OF laws cs]) (simp_all add: d s triple_rules)
  show ?thesis
    unfolding CreateSnapshot_def Let_def
    by (intro triple_rules) (simp add: triple_rules main reads_keep_ops(3) [OF r] split: sum.split)
qed

lemma DeleteSnapshot_balanced:
  assumes laws: "fresh_uuids U cs" "apart_from_locks held U cs"
    and cs: "vl_Lock (cs_volumeLock cs) = lock" "vl_Unlock (cs_volumeLock cs) = unlock"
  shows "keeps (balanced held U H) (DeleteSnapshot cs volumeId)"
proof -
  have r: "reads_keep (balanced held U K) cs" and w: "writes_keep (balanced held U K) cs"
    and i: "invokes_keep (balanced held U K) cs" for K using apartD [OF laws(2)] by blast+
  have g: "keeps (balanced held U H) (fetch_or_gone cs ref)" for ref
    unfolding fetch_or_gone_def by (simp add: triple_rules reads_keep_ops(1) [OF r] split: sum.split)
  have rm: "keeps (balanced held U K) (perform (cl_LvRemove (cs_client cs) q))" for K q
    using w [of K] by (intro keeps_perform) (simp add: writes_keep_def)
  have "balanced held U H (snd (cs_Invoke_DeleteSnapshot cs owner volumeId s))" if "balanced held U H s" for owner s
    using i [of H] that by (simp add: invokes_keep_def)
  then have d: "keeps (balanced held U H) (delegate cs orig f (\<lambda>owner. cs_Invoke_DeleteSnapshot cs owner volumeId))" for orig f
    by (rule keeps_delegate [OF r])
  have main: "keeps (balanced held U H) (andthen (NewUUID cs) (\<lambda>u.
      attempt (checked (vl_Lock (cs_volumeLock cs) v (lock_id h n u))) (\<lambda>r. case r of
        Inl e \<Rightarrow> if error_code e = PermissionDenied
          then delegate cs orig f (\<lambda>owner. cs_Invoke_DeleteSnapshot cs owner volumeId) else throw e'
      | Inr _ \<Rightarrow> deferred (attempt (perform (cl_LvRemove (cs_client cs) q)) (\<lambda>r. case r of
          Inl e \<Rightarrow> if error_code e \<noteq> NotFound then throw e'' else ok () | Inr _ \<Rightarrow> ok ()))
          (tryVolumeUnlock cs v (lock_id h n u)))))" for orig v h n q f e' e''
    by (rule locked_handler [OF laws cs]) (simp_all add: d rm triple_rules split: sum.split)
  show ?thesis
    unfolding DeleteSnapshot_def Let_def
    by (rule keeps_andthen, rule keeps_values, split if_split, intro conjI impI, rule keeps_values,
        split sum.split, intro conjI allI impI, rule keeps_values, rule keeps_andthen, rule g,
        split option.split, intro conjI allI impI, rule keeps_values, rule keeps_andthen, rule g,
        split option.split, intro conjI allI impI, rule keeps_values, rule main)
qed

end

lemma balanced_result:
  "keeps (balanced held U H) m \<Longrightarrow> balanced held U H s \<Longrightarrow>
   case m s of None \<Rightarrow> True | Some (_, s') \<Rightarrow> held s' = H"
  by (auto simp: balanced_def dest: tripleD split: option.split)

text \<open>C4: No handler of the controller leaks a lock. Whatever its outcome and wherever it stops, errors and requests
  handed to another node included, \<open>CreateVolume\<close>, \<open>CreateSnapshot\<close> and \<open>DeleteSnapshot\<close> leave exactly
  the volumes held that were held before, by the same operations: each lock is taken under an id
  made from a uuid that is not in use, and released when the handler returns.
\<close>

theorem handlers_release_locks:
  assumes "cs_volumeLock cs = locker_of vl" and "fresh_uuids U cs" and "apart_from_locks holders U cs"
    and "unused (U s) (holders s)"
  shows "(case CreateVolume cs cv s of None \<Rightarrow> True | Some (_, s') \<Rightarrow> holders s' = holders s) \<and>
    (case CreateSnapshot cs sr s of None \<Rightarrow> True | Some (_, s') \<Rightarrow> holders s' = holders s) \<and>
    (case DeleteSnapshot cs sid s of None \<Rightarrow> True | Some (_, s') \<Rightarrow> holders s' = holders s)"
proof -
  have cs: "vl_Lock (cs_volumeLock cs) = LockVolume vl" "vl_Unlock (cs_volumeLock cs) = UnlockVolume vl"
    using assms(1) by simp_all
  have b: "balanced holders U (holders s) s" using assms(4) by (simp add: balanced_def)
  show ?thesis
    by (intro conjI balanced_result [OF _ b] locker.CreateVolume_balanced [OF assms(2,3) cs]
        locker.CreateSnapshot_balanced [OF assms(2,3) cs] locker.DeleteSnapshot_balanced [OF assms(2,3) cs])
qed

text \<open>A controller of the small installation, and what its uuids may still be.\<close>

definition lab_cs :: "(locks \<times> lab) controllerServer" where
  "lab_cs = \<lparr>
     cs_base = \<lparr>lvmctrld = lift_client lab_client, nodeID = 1\<rparr>,
     cs_volumeLock = locker_of lab_locker,
     cs_Invoke_CreateVolume = (\<lambda>_ _ s. (Inl (Status Unavailable ''alone''), s)),
     cs_Invoke_CreateSnapshot = (\<lambda>_ _ s. (Inl (Status Unavailable ''alone''), s)),
     cs_Invoke_DeleteSnapshot = (\<lambda>_ _ s. (Inl (Status Unavailable ''alone''), s)),
     cs_GetFileSystem = NewFileSystem idle_os,
     cs_defaultFs = ''ext4'',
     cs_uuid = beside (\<lambda>w. (decimal (lb_next w), w\<lparr>lb_next := Suc (lb_next w)\<rparr>)),
     cs_open = (\<lambda>_ _ s. (None, s)), cs_copy = (\<lambda>_ _ s. (Inr 0, s)), cs_close = (\<lambda>_ s. (None, s)),
     cs_order = (\<lambda>l. l),
     cs_ParseFloat = (\<lambda>_. Inl (Plain ''invalid syntax'')), cs_scale = (\<lambda>n _. n)\<rparr>"

definition lab_uuids :: "locks \<times> lab \<Rightarrow> string set" where
  "lab_uuids s = {u. \<exists>n \<ge> lb_next (snd s). u = decimal n}"

lemma lab_fresh: "fresh_uuids lab_uuids lab_cs"
proof -
  have "decimal (lb_next w) \<notin> lab_uuids (l, w\<lparr>lb_next := Suc (lb_next w)\<rparr>)" for l :: locks and w
    by (auto simp: lab_uuids_def decimal_inj)
  moreover have "lab_uuids s' \<subseteq> lab_uuids s" if "LockVolume lab_locker v op s = Some (r, s')" for v op s r s'
    using that lab_lock_keeps(1) [of v op "fst s" "snd s" r "fst s'" "snd s'"] by (simp add: lab_uuids_def)
  moreover have "lab_uuids s' \<subseteq> lab_uuids s" if "UnlockVolume lab_locker v op s = Some (r, s')" for v op s r s'
    using that lab_lock_keeps(2) [of v op "fst s" "snd s" r "fst s'" "snd s'"] by (simp add: lab_uuids_def)
  ultimately show ?thesis
    by (auto simp: fresh_uuids_def lab_cs_def beside_def lab_uuids_def)
qed

lemma lab_untouched:
  assumes "fst s' = fst s" and "lb_next (snd s) \<le> lb_next (snd s')" and "balanced holders lab_uuids H s"
  shows "balanced holders lab_uuids H s'"
proof -
  have "holders s' = holders s" using assms(1) by (simp add: holders_def)
  moreover have "lab_uuids s' \<subseteq> lab_uuids s" unfolding lab_uuids_def using assms(2) by (blast intro: order_trans)
  ultimately show ?thesis using assms(3) unused_mono unfolding balanced_def by fastforce
qed

lemma lab_fs: "NewFileSystem idle_os n = Inr fs \<Longrightarrow> snd (Make fs d s) = s"
  by (auto simp: NewFileSystem_def fs_Make_def raw_Make_def idle_os_def split: if_splits)

lemma lab_owner: "vl_Owner (locker_of lab_locker) v s = Some (r, s') \<Longrightarrow> s' = s"
proof -
  have f: "fetch (base lab_locker) v w = Some (x, w') \<Longrightarrow> w' = w" for x w w'
    using tripleD [OF keeps_fetch [of "\<lambda>y. y = w" "base lab_locker"]] by (simp add: lab_locker_def lab_reads)
  show "vl_Owner (locker_of lab_locker) v s = Some (r, s') \<Longrightarrow> s' = s"
    using f by (cases s) (auto simp: locker_of_def GetOwner_def split: option.splits sum.splits)
qed

lemma lab_cs_simps [simp]:
  "cs_base lab_cs = \<lparr>lvmctrld = lift_client lab_client, nodeID = 1\<rparr>" "cs_volumeLock lab_cs = locker_of lab_locker"
  "cs_open lab_cs p b s = (None, s)" "cs_copy lab_cs p q s = (Inr 0, s)" "cs_close lab_cs p s = (None, s)"
  "cs_GetFileSystem lab_cs = NewFileSystem idle_os"
  "cs_uuid lab_cs = beside (\<lambda>w. (decimal (lb_next w), w\<lparr>lb_next := Suc (lb_next w)\<rparr>))"
  by (simp_all add: lab_cs_def)

lemma lab_writes:
  "lb_next (snd (cl_LvCreate lab_client q w)) = lb_next w" "lb_next (snd (cl_LvRemove lab_client q' w)) = lb_next w"
  by (simp_all add: lab_client_def Let_def)

lemma lab_apart: "apart_from_locks holders lab_uuids lab_cs"
proof -
  have "writes_keep (balanced holders lab_uuids H) lab_cs" for H
    unfolding writes_keep_def by (intro allI impI conjI; rule lab_untouched; (assumption | simp add: lab_writes))
  moreover have "invokes_keep (balanced holders lab_uuids H) lab_cs" for H
    by (simp add: invokes_keep_def lab_cs_def)
  moreover have "reads_keep (balanced holders lab_uuids H) lab_cs" for H
    unfolding reads_keep_def
  proof (intro allI impI conjI)
    fix s assume b: "balanced holders lab_uuids H s"
    show "balanced holders lab_uuids H (snd (cl_Lvs (cs_client lab_cs) q s))" for q
      by (rule lab_untouched [OF _ _ b]) (simp_all add: lab_reads)
    show "balanced holders lab_uuids H (snd (cs_uuid lab_cs s))"
      by (rule lab_untouched [OF _ _ b]) simp_all
    show "balanced holders lab_uuids H (snd (Make fs d s))" if "cs_GetFileSystem lab_cs n = Inr fs" for n fs d
      using that b by (simp add: lab_fs)
    show "balanced holders lab_uuids H s'" if "vl_Owner (cs_volumeLock lab_cs) v s = Some (r, s')" for v r s'
    proof -
      have "s' = s" by (rule lab_owner) (use that in simp)
      with b show ?thesis by simp
    qed
  qed simp_all
  ultimately show ?thesis unfolding apart_from_locks_def by blast
qed

definition lab_pair :: "locks \<times> lab" where
  "lab_pair = (Map.empty, \<lparr>lb_vols = [plain_lv ''vg'' ''o'' 512 [] '''', plain_lv ''vg'' ''s'' 512 [] ''o''], lb_next = 0\<rparr>)"

lemma lab_deletes: "map_option fst (DeleteSnapshot lab_cs ''s@vg'' lab_pair) = Some (Inr ())"
  by code_simp

theorem handlers_release_locks_witness:
  "\<exists>s'. DeleteSnapshot lab_cs ''s@vg'' lab_pair = Some (Inr (), s') \<and> holders s' = {}"
proof -
  obtain s' where s': "DeleteSnapshot lab_cs ''s@vg'' lab_pair = Some (Inr (), s')"
    using lab_deletes by auto
  have e: "holders lab_pair = {}" by (simp add: lab_pair_def holders_def pairs_def)
  have "CHR '','' \<notin> set (decimal n)" for n using decimal_chars [of "CHR '',''" n] by auto
  then have "unused (lab_uuids lab_pair) (holders lab_pair)" unfolding e by (auto simp: unused_def lab_uuids_def)
  moreover have "cs_volumeLock lab_cs = locker_of lab_locker" by (simp add: lab_cs_def)
  ultimately show ?thesis
    using handlers_release_locks [OF _ lab_fresh lab_apart, of lab_locker lab_pair undefined undefined "''s@vg''"] s' e
    by simp
qed

end
