(* ===== verification/VolumeCleanup.thy ===== *)
theory VolumeCleanup
  imports Snapshots
begin

text \<open>
  What \<^verbatim>\<open>CreateVolume\<close> leaves behind in LVM. The handler creates up to two logical volumes, the temporary
  snapshot of its source and the volume itself, and keeps on a list those to remove when it
  returns. The set of logical volumes is an observer of the state, with laws for the calls that change it.
\<close>

section \<open>The volumes of the group\<close>

definition lvc_path :: "LvCreateRequest \<Rightarrow> string" where
  "lvc_path q = ref_VgLv \<lparr>LvName = lvc_LvName q, VgName = lvc_VgName q\<rparr>"

text \<open>
  A volume that is created appears, a removal removes its target, nothing else adds or removes one, and one that
  can be listed is there. A node that is handed a request creates the volume of the request if
  it succeeds, and nothing that lasts if it fails.
\<close>

definition volume_laws :: "('s \<Rightarrow> string set) \<Rightarrow> 's controllerServer \<Rightarrow> bool" where
  "volume_laws vols cs \<longleftrightarrow>
     (\<forall>V. reads_keep (\<lambda>s. vols s = V) cs) \<and>
     (\<forall>q s. vols (snd (cl_LvCreate (cs_client cs) q s)) =
        (if fst (cl_LvCreate (cs_client cs) q s) = Inr () then insert (lvc_path q) (vols s) else vols s)) \<and>
     (\<forall>v s. vols (snd (cl_LvRemove (cs_client cs) \<lparr>lvr_Select = '''', lvr_Target = [v]\<rparr> s)) = vols s - {v}) \<and>
     (\<forall>v op s r s'. vl_Lock (cs_volumeLock cs) v op s = Some (r, s') \<longrightarrow> vols s' = vols s) \<and>
     (\<forall>v op s r s'. vl_Unlock (cs_volumeLock cs) v op s = Some (r, s') \<longrightarrow> vols s' = vols s) \<and>
     (\<forall>c. set (cs_order cs c) = set c) \<and>
     (\<forall>v s lvs. fst (cl_Lvs (cs_client cs) \<lparr>lvs_Select = [], lvs_Sort = [], lvs_Target = [v]\<rparr> s) = Inr lvs \<longrightarrow> v \<in> vols s)"

definition remote_laws :: "('s \<Rightarrow> string set) \<Rightarrow> 's controllerServer \<Rightarrow> CreateVolumeRequest \<Rightarrow> string \<Rightarrow> bool" where
  "remote_laws vols cs req v \<longleftrightarrow>
     (\<forall>n s cap. vols (snd (cs_Invoke_CreateVolume cs n (widen req cap) s)) \<subseteq>
        (case fst (cs_Invoke_CreateVolume cs n (widen req cap) s) of Inl _ \<Rightarrow> vols s | Inr _ \<Rightarrow> insert v (vols s)))"

text \<open>\<open>within V\<close>: every volume is in \<open>V\<close> or on the list.\<close>

definition within :: "('s \<Rightarrow> string set) \<Rightarrow> string set \<Rightarrow> 's \<times> string list \<Rightarrow> bool" where
  "within vols V x \<longleftrightarrow> vols (fst x) \<subseteq> V \<union> set (snd x)"

text \<open>The outcome of the handler: nothing new on an error, and at most the volume on success.\<close>

definition left_over :: "('s \<Rightarrow> string set) \<Rightarrow> string set \<Rightarrow> string \<Rightarrow> go_error + 'a \<Rightarrow> 's \<times> string list \<Rightarrow> bool" where
  "left_over vols V v r = within vols (case r of Inl _ \<Rightarrow> V | Inr _ \<Rightarrow> insert v V)"

lemma within_mono: "within vols V x \<Longrightarrow> V \<subseteq> V' \<Longrightarrow> within vols V' x"
  by (auto simp: within_def)

lemma within_left_over: "within vols V x \<Longrightarrow> left_over vols V v r x"
  by (cases r) (auto simp: left_over_def elim: within_mono)

lemma keeps_left_over: "keeps (within vols V) m \<Longrightarrow> triple (within vols V) m (left_over vols V v)"
  by (rule triple_weaken, assumption) (auto intro: within_left_over)

lemma volume_lawsD:
  assumes "volume_laws vols cs"
  shows "reads_keep (\<lambda>s. vols s = V) cs"
    and "cl_LvCreate (cs_client cs) q s = (r, s') \<Longrightarrow>
      vols s' = (if r = Inr () then insert (lvc_path q) (vols s) else vols s)"
    and "vols (snd (cl_LvRemove (cs_client cs) \<lparr>lvr_Select = '''', lvr_Target = [v]\<rparr> s)) = vols s - {v}"
    and "vl_Lock (cs_volumeLock cs) w op s = Some (e, s') \<Longrightarrow> vols s' = vols s"
    and "vl_Unlock (cs_volumeLock cs) w op s = Some (e, s') \<Longrightarrow> vols s' = vols s"
    and "set (cs_order cs c) = set c"
    and "fst (cl_Lvs (cs_client cs) \<lparr>lvs_Select = [], lvs_Sort = [], lvs_Target = [v]\<rparr> s) = Inr lvs \<Longrightarrow> v \<in> vols s"
proof -
  note a = assms [unfolded volume_laws_def]
  show "reads_keep (\<lambda>s. vols s = V) cs" using a by (elim conjE) (erule spec)
  show "vols s' = (if r = Inr () then insert (lvc_path q) (vols s) else vols s)"
    if "cl_LvCreate (cs_client cs) q s = (r, s')"
    using a [THEN conjunct2, THEN conjunct1, THEN spec [of _ q], THEN spec [of _ s]] that by simp
  show "vols (snd (cl_LvRemove (cs_client cs) \<lparr>lvr_Select = '''', lvr_Target = [v]\<rparr> s)) = vols s - {v}"
    using a by (elim conjE) metis
  show "vols s' = vols s" if "vl_Lock (cs_volumeLock cs) w op s = Some (e, s')"
    using a that by (elim conjE) metis
  show "vols s' = vols s" if "vl_Unlock (cs_volumeLock cs) w op s = Some (e, s')"
    using a that by (elim conjE) metis
  show "set (cs_order cs c) = set c" using a by (elim conjE) metis
  show "v \<in> vols s" if "fst (cl_Lvs (cs_client cs) \<lparr>lvs_Select = [], lvs_Sort = [], lvs_Target = [v]\<rparr> s) = Inr lvs"
    using a that by (elim conjE) metis
qed

text \<open>Operations that keep every value of \<open>vols\<close> keep what is said of the volumes and of the list.\<close>

lemma keeps_observed:
  "(\<And>V. keeps (\<lambda>s. vols s = V) m) \<Longrightarrow> keeps (\<lambda>x. P (vols (fst x)) (snd x)) (inner m)"
  by (rule triple_inner) (fastforce simp: triple_def)

lemma within_eq: "within vols V = (\<lambda>x. vols (fst x) \<subseteq> V \<union> set (snd x))"
  by (simp add: fun_eq_iff within_def)

lemma observed_create:
  assumes "volume_laws vols cs"
  shows "keeps (\<lambda>x. P (vols (fst x)) (snd x)) (inner (checked (vl_Lock (cs_volumeLock cs) w op)))"
    and "keeps (\<lambda>x. P (vols (fst x)) (snd x)) (inner (tryVolumeUnlock cs w op))"
    and "keeps (\<lambda>x. P (vols (fst x)) (snd x)) (inner (NewUUID cs))"
    and "keeps (\<lambda>x. P (vols (fst x)) (snd x)) (inner (new_ref vg t n))"
    and "keeps (\<lambda>x. P (vols (fst x)) (snd x)) (inner (existing_volume cs req vol))"
    and "cs_GetFileSystem cs fsName = Inr fs \<Longrightarrow> keeps (\<lambda>x. P (vols (fst x)) (snd x)) (inner (fill_volume cs fs data vol))"
proof -
  note r = volume_lawsD(1) [OF assms]
  have l: "keeps (\<lambda>s. vols s = W) (checked (vl_Lock (cs_volumeLock cs) w op))" for W
    by (rule keeps_checked) (use volume_lawsD(4) [OF assms] in auto)
  have u: "keeps (\<lambda>s. vols s = W) (tryVolumeUnlock cs w op)" for W
    unfolding tryVolumeUnlock_def
    by (intro keeps_attempt keeps_checked keeps_values) (use volume_lawsD(5) [OF assms] in auto)
  show "keeps (\<lambda>x. P (vols (fst x)) (snd x)) (inner (checked (vl_Lock (cs_volumeLock cs) w op)))" by (rule keeps_observed [OF l])
  show "keeps (\<lambda>x. P (vols (fst x)) (snd x)) (inner (tryVolumeUnlock cs w op))" by (rule keeps_observed [OF u])
  show "keeps (\<lambda>x. P (vols (fst x)) (snd x)) (inner (NewUUID cs))" by (rule keeps_observed [OF reads_keep_ops(2) [OF r]])
  show "keeps (\<lambda>x. P (vols (fst x)) (snd x)) (inner (new_ref vg t n))"
    by (rule keeps_observed) (simp add: new_ref_def triple_rules split: option.split)
  show "keeps (\<lambda>x. P (vols (fst x)) (snd x)) (inner (existing_volume cs req vol))"
    by (rule keeps_observed [OF keeps_existing_volume [OF r]])
  show "keeps (\<lambda>x. P (vols (fst x)) (snd x)) (inner (fill_volume cs fs data vol))" if "cs_GetFileSystem cs fsName = Inr fs"
    by (rule keeps_observed [OF keeps_fill_volume [OF r that]])
qed

lemmas keeps_quiet_create = observed_create [where P = "\<lambda>W c. W \<subseteq> V \<union> set c" for V, folded within_eq]

text \<open>A volume on its way from its creation to the list.\<close>

definition pending_volume :: "('s \<Rightarrow> string set) \<Rightarrow> string set \<Rightarrow> string \<Rightarrow> 's \<times> string list \<Rightarrow> bool" where
  "pending_volume vols V v x \<longleftrightarrow> vols (fst x) \<subseteq> insert v (V \<union> set (snd x))"

lemma triple_LvCreate:
  assumes "volume_laws vols cs"
  shows "triple (within vols V) (inner (perform (cl_LvCreate (cs_client cs) q)))
    (\<lambda>r. case r of Inl _ \<Rightarrow> within vols V | Inr _ \<Rightarrow> pending_volume vols V (lvc_path q))"
proof (rule triple_inner)
  fix c
  show "triple (\<lambda>s. within vols V (s, c)) (perform (cl_LvCreate (cs_client cs) q))
    (\<lambda>r s. (case r of Inl _ \<Rightarrow> within vols V | Inr _ \<Rightarrow> pending_volume vols V (lvc_path q)) (s, c))"
    unfolding triple_def
  proof (intro allI impI)
    fix s r s' assume w: "within vols V (s, c)" and "perform (cl_LvCreate (cs_client cs) q) s = Some (r, s')"
    then have "cl_LvCreate (cs_client cs) q s = (r, s')" by (simp add: perform_def)
    from volume_lawsD(2) [OF assms this] w
    show "(case r of Inl _ \<Rightarrow> within vols V | Inr _ \<Rightarrow> pending_volume vols V (lvc_path q)) (s', c)"
      by (cases r) (auto simp: within_def pending_volume_def)
  qed
qed

lemma triple_listed: "triple (pending_volume vols V v) (add_cleanup v) (\<lambda>_. within vols V)"
  by (rule triple_add_cleanup) (auto simp: pending_volume_def within_def)

lemma triple_kept: "triple (within vols V) (drop_cleanup v) (\<lambda>_. within vols (insert v V))"
  by (rule triple_drop_cleanup) (auto simp: within_def)

lemma source_data_within:
  assumes "volume_laws vols cs"
  shows "keeps (within vols V) (source_data cs c)"
proof (cases "srcVol c")
  case None
  then show ?thesis by (simp add: source_data_def triple_rules split: option.split)
next
  case (Some src)
  have create: "keeps (within vols V) (andthen (inner (or_fail (perform (cl_LvCreate (cs_client cs)
      \<lparr>lvc_VgName = VgName d, lvc_LvName = LvName d, lvc_Size = sz, lvc_LvTags = [], lvc_Origin = og,
       lvc_Activate = LV_ACTIVATION_MODE_ACTIVE_EXCLUSIVE\<rparr>)) f)) (\<lambda>_.
      andthen (add_cleanup (ref_VgLv d)) (\<lambda>_. ok d)))" for d sz og f
  proof (rule triple_andthen [where R = "\<lambda>_. pending_volume vols V (ref_VgLv d)"])
    let ?q = "\<lparr>lvc_VgName = VgName d, lvc_LvName = LvName d, lvc_Size = sz, lvc_LvTags = [], lvc_Origin = og,
       lvc_Activate = LV_ACTIVATION_MODE_ACTIVE_EXCLUSIVE\<rparr>"
    have p: "lvc_path ?q = ref_VgLv d" by (simp add: lvc_path_def ref_VgLv_def)
    have "inner (or_fail (perform (cl_LvCreate (cs_client cs) ?q)) f) =
        attempt (inner (perform (cl_LvCreate (cs_client cs) ?q))) (case_sum (\<lambda>e. throw (f e)) ok)"
      by (auto simp: inner_def or_fail_def attempt_def perform_def ok_def throw_def fun_eq_iff split: sum.split prod.split)
    moreover have "triple (within vols V) (attempt (inner (perform (cl_LvCreate (cs_client cs) ?q))) (case_sum (\<lambda>e. throw (f e)) ok))
        (\<lambda>r s. case r of Inl e \<Rightarrow> within vols V s | Inr x \<Rightarrow> pending_volume vols V (ref_VgLv d) s)"
      by (rule triple_attempt [OF triple_LvCreate [OF assms]])
        (auto simp: p triple_def ok_def throw_def split: sum.split)
    ultimately show "triple (within vols V) (inner (or_fail (perform (cl_LvCreate (cs_client cs) ?q)) f))
        (\<lambda>r s. case r of Inl e \<Rightarrow> within vols V s | Inr x \<Rightarrow> pending_volume vols V (ref_VgLv d) s)" by simp
    show "triple (pending_volume vols V (ref_VgLv d)) (andthen (add_cleanup (ref_VgLv d)) (\<lambda>_. ok d)) (\<lambda>_. within vols V)"
      by (rule triple_andthen [OF triple_weaken [OF triple_listed]]) (auto intro: triple_rules split: sum.split)
  qed
  show ?thesis
    unfolding source_data_def Some option.case
    by (rule keeps_andthen [OF keeps_quiet_create(3) [OF assms]], rule keeps_andthen [OF keeps_quiet_create(4) [OF assms]],
        rule create)
qed

lemma then_left_over:
  assumes "keeps (within vols V) m" and "\<And>x. triple (within vols V) (f x) (left_over vols V v)"
  shows "triple (within vols V) (andthen m f) (left_over vols V v)"
proof (rule triple_andthen [where R = "\<lambda>_. within vols V"])
  show "triple (within vols V) m (\<lambda>r s. case r of Inl e \<Rightarrow> left_over vols V v (Inl e) s | Inr x \<Rightarrow> within vols V s)"
    by (rule triple_weaken [OF assms(1)], assumption) (auto simp: left_over_def split: sum.split)
qed (rule assms(2))

lemma left_over_ok:
  assumes "triple (within vols V) m (left_over vols V v)"
  shows "triple (within vols V) (andthen m (\<lambda>x. ok (g x))) (left_over vols V v)"
proof (rule triple_andthen [where R = "\<lambda>_. within vols (insert v V)"])
  show "triple (within vols V) m (\<lambda>r s. case r of Inl e \<Rightarrow> left_over vols V v (Inl e) s | Inr x \<Rightarrow> within vols (insert v V) s)"
    by (rule triple_weaken [OF assms], assumption) (auto simp: left_over_def split: sum.split)
qed (simp add: triple_ok left_over_def)

lemma fill_locked_left_over:
  assumes laws: "volume_laws vols cs" and fs: "cs_GetFileSystem cs fsName = Inr fs"
  shows "triple (within vols V) (fill_locked cs fs vol data) (left_over vols V (ref_VgLv vol))"
proof -
  note q = keeps_quiet_create [OF laws]
  let ?v = "ref_VgLv vol"
  have body: "triple (within vols V) (andthen (inner (fill_volume cs fs data vol)) (\<lambda>_. drop_cleanup ?v)) (left_over vols V ?v)"
  proof (rule triple_andthen [where R = "\<lambda>_. within vols V"])
    show "triple (within vols V) (inner (fill_volume cs fs data vol))
      (\<lambda>r s. case r of Inl e \<Rightarrow> left_over vols V ?v (Inl e) s | Inr _ \<Rightarrow> within vols V s)"
      by (rule triple_weaken [OF q(6) [OF fs]]) (auto simp: left_over_def split: sum.split)
    show "triple (within vols V) (drop_cleanup ?v) (left_over vols V ?v)" for x :: unit
      by (rule triple_drop_cleanup) (auto simp: left_over_def within_def)
  qed
  have unlock: "triple (left_over vols V ?v r) (inner (tryVolumeUnlock cs vol u)) (\<lambda>_. left_over vols V ?v r)" for r :: "go_error + unit" and u
    unfolding left_over_def by (rule q(2))
  have locked: "triple (within vols V) (andthen (inner (checked (vl_Lock (cs_volumeLock cs) vol u))) (\<lambda>_.
      deferred (andthen (inner (fill_volume cs fs data vol)) (\<lambda>_. drop_cleanup ?v)) (inner (tryVolumeUnlock cs vol u))))
      (left_over vols V ?v)" for u
    by (rule then_left_over [OF q(1)], rule triple_deferred [OF body unlock])
  show ?thesis
    unfolding fill_locked_def Let_def
    by (rule then_left_over [OF q(3)], rule locked)
qed

lemma create_data_left_over:
  assumes laws: "volume_laws vols cs" and fs: "cs_GetFileSystem cs fsName = Inr fs"
  shows "triple (within vols V) (create_data_volume cs req vol fn fs sz source data) (left_over vols V (ref_VgLv vol))"
proof -
  let ?v = "ref_VgLv vol"
  let ?q = "\<lparr>lvc_VgName = VgName vol, lvc_LvName = LvName vol, lvc_Size = nat sz,
     lvc_LvTags = encodeTags (volume_tags fn (cv_Name req) source), lvc_Origin = '''',
     lvc_Activate = LV_ACTIVATION_MODE_ACTIVE_EXCLUSIVE\<rparr>"
  have p: "lvc_path ?q = ?v" by (simp add: lvc_path_def ref_VgLv_def)
  have filled: "triple (within vols V) (andthen (fill_locked cs fs vol data) (\<lambda>_. ok (created_volume req vol sz))) (left_over vols V ?v)"
    by (rule left_over_ok [OF fill_locked_left_over [OF laws fs]])
  have new: "triple (pending_volume vols V ?v) (andthen (add_cleanup ?v) (\<lambda>_.
      andthen (fill_locked cs fs vol data) (\<lambda>_. ok (created_volume req vol sz)))) (left_over vols V ?v)"
    by (rule triple_andthen [where R = "\<lambda>_. within vols V", OF triple_weaken [OF triple_listed]], assumption)
      (auto split: sum.split intro: within_left_over filled)
  have old: "triple (within vols V) (if error_code e = AlreadyExists then inner (existing_volume cs req vol)
      else throw (Status (error_code e) ''failed to create volume %s: %v'')) (left_over vols V ?v)" for e
    by (simp add: keeps_left_over keeps_values keeps_quiet_create(5) [OF laws])
  show ?thesis
    unfolding create_data_volume_def
  proof (rule triple_attempt [OF triple_LvCreate [OF laws], of V ?q, unfolded p])
    fix r :: "go_error + unit"
    show "triple (case r of Inl _ \<Rightarrow> within vols V | Inr _ \<Rightarrow> pending_volume vols V ?v)
      (case r of Inl e \<Rightarrow> if error_code e = AlreadyExists then inner (existing_volume cs req vol)
         else throw (Status (error_code e) ''failed to create volume %s: %v'')
       | Inr _ \<Rightarrow> andthen (add_cleanup ?v) (\<lambda>_.
           andthen (fill_locked cs fs vol data) (\<lambda>_. ok (created_volume req vol sz)))) (left_over vols V ?v)"
      using old new by (cases r) (simp_all only: sum.case)
  qed
qed

lemma create_from_left_over:
  assumes laws: "volume_laws vols cs" and fs: "cs_GetFileSystem cs fsName = Inr fs"
    and remote: "remote_laws vols cs req (ref_VgLv vol)"
  shows "triple (within vols V) (create_from cs (widen req cap) vol fn fs sz c) (left_over vols V (ref_VgLv vol))"
proof -
  note q = keeps_quiet_create [OF laws]
  let ?v = "ref_VgLv vol"
  let ?req = "widen req cap"
  have deleg: "triple (within vols V) (inner (delegate cs ref (\<lambda>e. e) (\<lambda>owner. cs_Invoke_CreateVolume cs owner ?req)))
      (left_over vols V ?v)" for ref
  proof (rule triple_inner)
    fix c
    show "triple (\<lambda>s. within vols V (s, c)) (delegate cs ref (\<lambda>e. e) (\<lambda>owner. cs_Invoke_CreateVolume cs owner ?req))
      (\<lambda>r s. left_over vols V ?v r (s, c))"
      unfolding delegate_def
    proof (rule triple_andthen [where R = "\<lambda>_ s. within vols V (s, c)"])
      have "keeps (\<lambda>s. within vols V (s, c)) (vl_Owner (cs_volumeLock cs) ref)"
        using reads_keep_ops(7) [OF volume_lawsD(1) [OF laws]] unfolding triple_def within_def fst_conv by fastforce
      then show "triple (\<lambda>s. within vols V (s, c)) (or_fail (vl_Owner (cs_volumeLock cs) ref) (\<lambda>e. e))
        (\<lambda>r s. case r of Inl e \<Rightarrow> left_over vols V ?v (Inl e) (s, c) | Inr x \<Rightarrow> within vols V (s, c))"
        by (intro triple_weaken [OF keeps_or_fail], assumption+) (auto simp: left_over_def split: sum.split)
      fix x :: "nat \<times> string"
      show "triple (\<lambda>s. within vols V (s, c)) (case x of (ownerId, ownerNode) \<Rightarrow> perform (cs_Invoke_CreateVolume cs ownerId ?req))
        (\<lambda>r s. left_over vols V ?v r (s, c))"
        unfolding triple_def
      proof (intro allI impI)
        fix s r s' assume w: "within vols V (s, c)"
          and "(case x of (ownerId, ownerNode) \<Rightarrow> perform (cs_Invoke_CreateVolume cs ownerId ?req)) s = Some (r, s')"
        then obtain n where i: "cs_Invoke_CreateVolume cs n ?req s = (r, s')" by (auto simp: perform_def split: prod.splits)
        have "vols s' \<subseteq> (case r of Inl _ \<Rightarrow> vols s | Inr _ \<Rightarrow> insert ?v (vols s))"
          using remote [unfolded remote_laws_def, THEN spec [of _ n], THEN spec [of _ s], THEN spec [of _ cap]] i by simp
        with w show "left_over vols V ?v r (s', c)"
          by (cases r) (auto simp: left_over_def within_def)
      qed
    qed
  qed
  have body: "triple (within vols V) (andthen (source_data cs c) (\<lambda>dataVol.
      andthen (create_data_volume cs ?req vol fn fs sz (Some c) (Some (dataVol, n))) (\<lambda>v. ok (Some v)))) (left_over vols V ?v)" for n
    by (rule then_left_over [OF source_data_within [OF laws]], rule left_over_ok [OF create_data_left_over [OF laws fs]])
  have unlock: "triple (left_over vols V ?v r) (inner (tryVolumeUnlock cs ref u)) (\<lambda>_. left_over vols V ?v r)"
    for r :: "go_error + Volume option" and ref u
    unfolding left_over_def by (rule q(2))
  have refused: "triple (within vols V) (if error_code e = PermissionDenied
      then inner (delegate cs ref (\<lambda>e. e) (\<lambda>owner. cs_Invoke_CreateVolume cs owner ?req)) else throw e)
      (left_over vols V ?v)" for e ref
    by (simp add: deleg keeps_left_over keeps_values)
  have locked: "triple (within vols V) (attempt (inner (checked (vl_Lock (cs_volumeLock cs) ref u))) (\<lambda>r. case r of
      Inl e \<Rightarrow> if error_code e = PermissionDenied
        then inner (delegate cs ref (\<lambda>e. e) (\<lambda>owner. cs_Invoke_CreateVolume cs owner ?req)) else throw e
    | Inr _ \<Rightarrow> deferred (andthen (source_data cs c) (\<lambda>dataVol.
        andthen (create_data_volume cs ?req vol fn fs sz (Some c) (Some (dataVol, n))) (\<lambda>v. ok (Some v))))
        (inner (tryVolumeUnlock cs ref u)))) (left_over vols V ?v)" for ref u n
    by (rule triple_attempt [OF q(1)])
      (simp add: refused triple_deferred [OF body unlock] split: sum.split)
  show ?thesis
    unfolding create_from_def Let_def
    by (rule then_left_over [OF q(3)], rule locked)
qed

lemma triple_conj:
  "triple P m Q \<Longrightarrow> triple P' m Q' \<Longrightarrow> triple (\<lambda>s. P s \<and> P' s) m (\<lambda>r s. Q r s \<and> Q' r s)"
  unfolding triple_def by blast

section \<open>A volume without a source is there\<close>

definition made :: "('s \<Rightarrow> string set) \<Rightarrow> string \<Rightarrow> go_error + 'a \<Rightarrow> 's \<times> string list \<Rightarrow> bool" where
  "made vols v r x \<longleftrightarrow> (case r of Inl _ \<Rightarrow> True | Inr _ \<Rightarrow> v \<in> vols (fst x) \<and> v \<notin> set (snd x))"

lemma made_error: "triple P (throw e) (made vols v)"
  by (simp add: triple_def made_def)

lemma then_made:
  assumes "keeps P m" and "\<And>x. triple P (f x) (made vols v)"
  shows "triple P (andthen m f) (made vols v)"
proof (rule triple_andthen [where R = "\<lambda>_. P"])
  show "triple P m (\<lambda>r s. case r of Inl e \<Rightarrow> made vols v (Inl e) s | Inr x \<Rightarrow> P s)"
    by (rule triple_weaken [OF assms(1)], assumption) (auto simp: made_def split: sum.split)
qed (rule assms(2))

lemma made_ok:
  assumes "triple P m (made vols v)"
  shows "triple P (andthen m (\<lambda>x. ok (g x))) (made vols v)"
proof (rule triple_andthen [where R = "\<lambda>_ x. v \<in> vols (fst x) \<and> v \<notin> set (snd x)"])
  show "triple P m (\<lambda>r s. case r of Inl e \<Rightarrow> made vols v (Inl e) s | Inr x \<Rightarrow> v \<in> vols (fst s) \<and> v \<notin> set (snd s))"
    by (rule triple_weaken [OF assms], assumption) (auto simp: made_def split: sum.split)
qed (simp add: triple_ok made_def)

lemma existing_made:
  assumes "volume_laws vols cs"
  shows "triple (\<lambda>x. snd x = []) (inner (existing_volume cs req vol)) (made vols (ref_VgLv vol))"
  unfolding triple_def
proof (intro allI impI)
  fix x r x' assume c: "snd x = []" and run: "inner (existing_volume cs req vol) x = Some (r, x')"
  show "made vols (ref_VgLv vol) r x'"
  proof (cases r)
    case (Inr y)
    let ?q = "\<lparr>lvs_Select = '''', lvs_Sort = [], lvs_Target = [ref_VgLv vol]\<rparr>"
    obtain s' where s': "existing_volume cs req vol (fst x) = Some (Inr y, s')" "x' = (s', [])"
      using run c Inr by (cases x) (auto simp: inner_def)
    obtain t s1 where f: "fetch (cs_base cs) vol (fst x) = Some (t, s1)"
      using s'(1) by (cases "fetch (cs_base cs) vol (fst x)") (auto simp: existing_volume_def attempt_def)
    have "\<exists>d. t = Inr d"
      using s'(1) f by (cases t) (auto simp: existing_volume_def attempt_def split: if_splits)
    then have "\<exists>lvs. fst (cl_Lvs (cs_client cs) ?q (fst x)) = Inr lvs"
      using f by (auto simp: fetch_def split: sum.splits list.splits prod.splits)
    then have "ref_VgLv vol \<in> vols (fst x)" using volume_lawsD(7) [OF assms] by blast
    moreover have "vols s' = vols (fst x)"
      using tripleD [OF keeps_existing_volume [OF volume_lawsD(1) [OF assms, of "vols (fst x)"]] _ s'(1)] by simp
    ultimately show ?thesis by (simp add: made_def Inr s'(2))
  qed (simp add: made_def)
qed

lemma create_data_made:
  assumes laws: "volume_laws vols cs" and fs: "cs_GetFileSystem cs fsName = Inr fs"
  shows "triple (\<lambda>x. snd x = []) (create_data_volume cs req vol fn fs sz source data) (made vols (ref_VgLv vol))"
proof -
  let ?v = "ref_VgLv vol" and ?P = "\<lambda>x. ref_VgLv vol \<in> vols (fst x)"
  let ?q = "\<lparr>lvc_VgName = VgName vol, lvc_LvName = LvName vol, lvc_Size = nat sz,
     lvc_LvTags = encodeTags (volume_tags fn (cv_Name req) source), lvc_Origin = '''',
     lvc_Activate = LV_ACTIVATION_MODE_ACTIVE_EXCLUSIVE\<rparr>"
  note q = observed_create [OF laws, where P = "\<lambda>V _. ?v \<in> V"]
  have created: "triple (\<lambda>x. snd x = []) (inner (perform (cl_LvCreate (cs_client cs) ?q)))
      (\<lambda>r x. case r of Inl _ \<Rightarrow> snd x = [] | Inr _ \<Rightarrow> ?P x)"
    unfolding triple_def
  proof (intro allI impI)
    fix x r x' assume c: "snd x = []" and run: "inner (perform (cl_LvCreate (cs_client cs) ?q)) x = Some (r, x')"
    obtain s0 s1 c1 where x: "x = (s0, [])" "x' = (s1, c1)" using c by (cases x, cases x') simp
    then have i: "cl_LvCreate (cs_client cs) ?q (fst x) = (r, fst x')" "snd x' = []"
      using run by (simp_all add: inner_def perform_def split: prod.splits)
    from volume_lawsD(2) [OF laws i(1)] i(2)
    show "case r of Inl _ \<Rightarrow> snd x' = [] | Inr _ \<Rightarrow> ?P x'"
      by (cases r) (simp_all add: lvc_path_def ref_VgLv_def)
  qed
  have body: "triple ?P (andthen (inner (fill_volume cs fs data vol)) (\<lambda>_. drop_cleanup ?v)) (made vols ?v)"
    by (rule then_made [OF q(6) [OF fs]], rule triple_drop_cleanup) (simp add: made_def)
  have unlock: "triple (made vols ?v r) (inner (tryVolumeUnlock cs vol u)) (\<lambda>_. made vols ?v r)" for r :: "go_error + unit" and u
    unfolding made_def
    by (rule observed_create(2) [OF laws, where P = "\<lambda>V c. case r of Inl _ \<Rightarrow> True | Inr _ \<Rightarrow> ?v \<in> V \<and> ?v \<notin> set c"])
  have filled: "triple ?P (fill_locked cs fs vol data) (made vols ?v)"
    unfolding fill_locked_def Let_def
    by (rule then_made [OF q(3)], rule then_made [OF q(1)], rule triple_deferred [OF body unlock])
  have new: "triple ?P (andthen (add_cleanup ?v) (\<lambda>_.
      andthen (fill_locked cs fs vol data) (\<lambda>_. ok (created_volume req vol sz)))) (made vols ?v)"
  proof (rule then_made)
    show "keeps ?P (add_cleanup ?v)" by (rule triple_add_cleanup) simp
    show "triple ?P (andthen (fill_locked cs fs vol data) (\<lambda>_. ok (created_volume req vol sz))) (made vols ?v)"
      by (rule made_ok [OF filled])
  qed
  have old: "triple (\<lambda>x. snd x = []) (if error_code e = AlreadyExists then inner (existing_volume cs req vol)
      else throw (Status (error_code e) ''failed to create volume %s: %v'')) (made vols ?v)" for e
    by (simp add: made_error existing_made [OF laws])
  show ?thesis
    unfolding create_data_volume_def
  proof (rule triple_attempt [OF created])
    fix r :: "go_error + unit"
    show "triple (\<lambda>x. case r of Inl _ \<Rightarrow> snd x = [] | Inr _ \<Rightarrow> ?P x)
      (case r of Inl e \<Rightarrow> if error_code e = AlreadyExists then inner (existing_volume cs req vol)
         else throw (Status (error_code e) ''failed to create volume %s: %v'')
       | Inr _ \<Rightarrow> andthen (add_cleanup ?v) (\<lambda>_.
           andthen (fill_locked cs fs vol data) (\<lambda>_. ok (created_volume req vol sz)))) (made vols ?v)"
      using old new by (cases r) (simp_all only: sum.case)
  qed
qed

section \<open>The handler\<close>

lemma cleanup_vols:
  "volume_laws vols cs \<Longrightarrow> vols (cleanup (cs_client cs) l s) = vols s - set l"
  by (induction l arbitrary: s) (auto simp: volume_lawsD(3))

lemma with_cleanup_triple:
  assumes laws: "volume_laws vols cs" and m: "triple (\<lambda>x. vols (fst x) \<subseteq> V \<and> snd x = []) m Q"
    and Q: "\<And>r s c. Q r (s, c) \<Longrightarrow> R r (vols s - set c)"
  shows "triple (\<lambda>s. vols s \<subseteq> V) (with_cleanup cs m) (\<lambda>r s. R r (vols s))"
  unfolding triple_def
proof (intro allI impI)
  fix s r s' assume "vols s \<subseteq> V" and "with_cleanup cs m s = Some (r, s')"
  then obtain s1 c where run: "m (s, []) = Some (r, (s1, c))" "s' = cleanup (cs_client cs) (cs_order cs c) s1"
    by (auto simp: with_cleanup_def)
  have "Q r (s1, c)" using tripleD [OF m _ run(1)] \<open>vols s \<subseteq> V\<close> by simp
  then show "R r (vols s')" using Q by (simp add: run(2) cleanup_vols [OF laws] volume_lawsD(6) [OF laws])
qed

text \<open>What the handler leaves: nothing new on an error; on success at most the volume, which is there if it has no source.\<close>

definition outcome :: "string set \<Rightarrow> string \<Rightarrow> bool \<Rightarrow> go_error + 'a \<Rightarrow> string set \<Rightarrow> bool" where
  "outcome V v fresh r W \<longleftrightarrow> (case r of Inl _ \<Rightarrow> W \<subseteq> V | Inr _ \<Rightarrow> W \<subseteq> insert v V \<and> (fresh \<longrightarrow> v \<in> W))"

lemma outcome_error: "triple (\<lambda>s. vols s = V) (throw e) (\<lambda>r s. outcome V v fresh r (vols s))"
  by (simp add: triple_def outcome_def)

lemma then_outcome:
  assumes "keeps (\<lambda>s. vols s = V) m" and "\<And>x. triple (\<lambda>s. vols s = V) (f x) (\<lambda>r s. outcome V v b r (vols s))"
  shows "triple (\<lambda>s. vols s = V) (andthen m f) (\<lambda>r s. outcome V v b r (vols s))"
proof (rule triple_andthen [where R = "\<lambda>_ s. vols s = V"])
  show "triple (\<lambda>s. vols s = V) m (\<lambda>r s. case r of Inl e \<Rightarrow> outcome V v b (Inl e) (vols s) | Inr x \<Rightarrow> vols s = V)"
    by (rule triple_weaken [OF assms(1)], assumption) (auto simp: outcome_def split: sum.split)
qed (rule assms(2))

lemma create_outcome:
  assumes laws: "volume_laws vols cs" and fs: "cs_GetFileSystem cs fsName = Inr fs"
    and remote: "remote_laws vols cs req (ref_VgLv vol)"
  shows "triple (\<lambda>s. vols s = V) (with_cleanup cs (case source of
      None \<Rightarrow> andthen (create_data_volume cs (widen req cap) vol fn fs sz None None) (\<lambda>v. ok (Some v))
    | Some c \<Rightarrow> create_from cs (widen req cap) vol fn fs sz c))
    (\<lambda>r s. outcome V (ref_VgLv vol) (source = None) r (vols s))"
proof (cases source)
  case None
  let ?v = "ref_VgLv vol"
  have both: "triple (\<lambda>x. vols (fst x) \<subseteq> V \<and> snd x = []) (create_data_volume cs (widen req cap) vol fn fs sz None None)
      (\<lambda>r x. left_over vols V ?v r x \<and> made vols ?v r x)"
    by (rule triple_weaken [OF triple_conj [OF create_data_left_over [OF laws fs, of V] create_data_made [OF laws fs]]])
      (auto simp: within_def)
  have "triple (\<lambda>x. vols (fst x) \<subseteq> V \<and> snd x = [])
      (andthen (create_data_volume cs (widen req cap) vol fn fs sz None None) (\<lambda>v. ok (Some v)))
      (\<lambda>r x. left_over vols V ?v r x \<and> made vols ?v r x)"
    by (rule triple_andthen [where R = "\<lambda>_ x. left_over vols V ?v (Inr ()) x \<and> made vols ?v (Inr ()) x",
          OF triple_weaken [OF both]], assumption)
      (auto simp: left_over_def made_def split: sum.split intro: triple_ok)
  then have "triple (\<lambda>s. vols s \<subseteq> V) (with_cleanup cs
      (andthen (create_data_volume cs (widen req cap) vol fn fs sz None None) (\<lambda>v. ok (Some v))))
      (\<lambda>r s. outcome V ?v True r (vols s))"
    by (rule with_cleanup_triple [OF laws]) (auto simp: left_over_def made_def within_def outcome_def split: sum.splits)
  then show ?thesis unfolding None option.case by (rule triple_weaken) simp_all
next
  case (Some c)
  have "triple (\<lambda>x. vols (fst x) \<subseteq> V \<and> snd x = []) (create_from cs (widen req cap) vol fn fs sz c) (left_over vols V (ref_VgLv vol))"
    by (rule triple_weaken [OF create_from_left_over [OF laws fs remote]]) (simp_all add: within_def)
  then have "triple (\<lambda>s. vols s \<subseteq> V) (with_cleanup cs (create_from cs (widen req cap) vol fn fs sz c))
      (\<lambda>r s. outcome V (ref_VgLv vol) False r (vols s))"
    by (rule with_cleanup_triple [OF laws]) (auto simp: left_over_def within_def outcome_def split: sum.splits)
  then show ?thesis unfolding Some option.case by (rule triple_weaken) simp_all
qed

lemma outcome_weaken: "outcome V v b r W \<Longrightarrow> outcome V v False r W"
  by (auto simp: outcome_def split: sum.splits)

lemma filled_outcome:
  assumes laws: "volume_laws vols cs" and remote: "remote_laws vols cs req (ref_VgLv vol)"
    and src: "source = None \<or> \<not> b"
  shows "triple (\<lambda>s. vols s = V) (andthen (of_result (cs_GetFileSystem cs fsName)) (\<lambda>fs.
      andthen (require (Accepts fs at) er) (\<lambda>_.
      with_cleanup cs
        (case source of
           None \<Rightarrow> andthen (create_data_volume cs (widen req cap) vol fsName fs sz None None) (\<lambda>v. ok (Some v))
         | Some c \<Rightarrow> create_from cs (widen req cap) vol fsName fs sz c))))
    (\<lambda>r s. outcome V (ref_VgLv vol) b r (vols s))"
proof (cases "cs_GetFileSystem cs fsName")
  case (Inl e)
  then show ?thesis by (simp add: outcome_error)
next
  case (Inr fs)
  have "triple (\<lambda>s. vols s = V) (with_cleanup cs
        (case source of
           None \<Rightarrow> andthen (create_data_volume cs (widen req cap) vol fsName fs sz None None) (\<lambda>v. ok (Some v))
         | Some c \<Rightarrow> create_from cs (widen req cap) vol fsName fs sz c))
      (\<lambda>r s. outcome V (ref_VgLv vol) b r (vols s))"
    by (rule triple_weaken [OF create_outcome [OF laws Inr remote]], assumption)
      (use src in \<open>cases b; auto intro: outcome_weaken\<close>)
  then show ?thesis using Inr by (simp add: then_outcome keeps_values)
qed


section \<open>In the small installation\<close>

definition lab_paths :: "locks \<times> lab \<Rightarrow> string set" where
  "lab_paths s = lv_path ` set (lb_vols (snd s))"

lemma lab_paths_same: "snd s' = snd s \<Longrightarrow> lab_paths s' = lab_paths s"
  by (simp add: lab_paths_def)

lemma lab_created: "lv_path (plain_lv (lvc_VgName q) (lvc_LvName q) n t u) = lvc_path q"
  by (simp add: lv_path_def plain_lv_def lvc_path_def NewVolumeRefFromLv_def)

lemma lab_LvCreate:
  "lv_path ` set (lb_vols (snd (cl_LvCreate lab_client q w))) =
     (if fst (cl_LvCreate lab_client q w) = Inr () then insert (lvc_path q) (lv_path ` set (lb_vols w))
      else lv_path ` set (lb_vols w))"
  by (simp add: lab_client_def lab_created Let_def)

lemma lab_LvRemove:
  "lv_path ` set (lb_vols (snd (cl_LvRemove lab_client \<lparr>lvr_Select = [], lvr_Target = [v]\<rparr> w))) =
     lv_path ` set (lb_vols w) - {v}"
  by (auto simp: lab_client_def)

lemma lab_listed:
  "fst (cl_Lvs lab_client \<lparr>lvs_Select = [], lvs_Sort = [], lvs_Target = [v]\<rparr> w) = Inr lvs \<Longrightarrow> v \<in> lv_path ` set (lb_vols w)"
proof (cases "filter (\<lambda>lv. lv_path lv = v) (lb_vols w)")
  case (Cons x xs)
  then have "x \<in> set (filter (\<lambda>lv. lv_path lv = v) (lb_vols w))" by simp
  then show "v \<in> lv_path ` set (lb_vols w)" by auto
qed (simp add: lab_client_def)

lemma lab_volume_laws: "volume_laws lab_paths lab_cs"
proof -
  have "reads_keep (\<lambda>s. lab_paths s = V) lab_cs" for V
    unfolding reads_keep_def
  proof (intro allI impI conjI)
    fix s assume b: "lab_paths s = V"
    show "lab_paths (snd (cl_Lvs (cs_client lab_cs) q s)) = V" for q
      using b by (simp add: lab_paths_def lab_reads)
    show "lab_paths (snd (cs_uuid lab_cs s)) = V" using b by (simp add: lab_paths_def)
    show "lab_paths (snd (Make fs d s)) = V" if "cs_GetFileSystem lab_cs n = Inr fs" for n fs d
      using that b by (simp add: lab_fs)
    show "lab_paths s' = V" if "vl_Owner (cs_volumeLock lab_cs) v s = Some (r, s')" for v r s'
    proof -
      have "s' = s" by (rule lab_owner) (use that in simp)
      with b show ?thesis by simp
    qed
  qed simp_all
  moreover have "lab_paths s' = lab_paths s" if "LockVolume lab_locker v op s = Some (r, s')" for v op s r s'
    using that lab_lock_keeps(1) [of v op "fst s" "snd s" r "fst s'" "snd s'"] by (simp add: lab_paths_def)
  moreover have "lab_paths s' = lab_paths s" if "UnlockVolume lab_locker v op s = Some (r, s')" for v op s r s'
    using that lab_lock_keeps(2) [of v op "fst s" "snd s" r "fst s'" "snd s'"] by (simp add: lab_paths_def)
  moreover have "cs_order lab_cs c = c" for c by (simp add: lab_cs_def)
  ultimately show ?thesis
    unfolding volume_laws_def
    by (intro conjI allI impI) (simp_all add: lab_paths_def lab_LvCreate lab_LvRemove lab_listed)
qed

definition lab_request :: CreateVolumeRequest where
  "lab_request = \<lparr>cv_Name = ''v1'', cv_CapacityRange = None,
     cv_VolumeCapabilities = [\<lparr>access_mode = Some SINGLE_NODE_WRITER, access_type = Some Block\<rparr>],
     cv_Parameters = [''volumeGroup'' \<mapsto> ''vg''], cv_VolumeContentSource = None\<rparr>"

definition lab_empty :: "locks \<times> lab" where
  "lab_empty = (Map.empty, \<lparr>lb_vols = [], lb_next = 0\<rparr>)"

lemma lab_tags: "\<exists>m. decodeTags (encodeTags (volume_tags BlockAccessFsName ''v1'' None)) = Inr m"
proof -
  have "case decodeTags (encodeTags (volume_tags BlockAccessFsName ''v1'' None)) of Inl _ \<Rightarrow> False | Inr _ \<Rightarrow> True" by code_simp
  then show ?thesis by (simp split: sum.splits)
qed

definition new_lv :: "VolumeRef \<Rightarrow> LogicalVolume" where
  "new_lv vol = plain_lv (VgName vol) (LvName vol) 1048576 (encodeTags (volume_tags BlockAccessFsName ''v1'' None)) ''''"

definition lab_one :: "VolumeRef \<Rightarrow> nat \<Rightarrow> lab" where
  "lab_one vol n = \<lparr>lb_vols = [new_lv vol], lb_next = n\<rparr>"

lemma lab_one_lock:
  "LockVolume lab_locker vol op (Map.empty, lab_one vol n) = Some (None, [ref_VgLv vol \<mapsto> {op}], lab_one vol n)"
  "UnlockVolume lab_locker vol op ([ref_VgLv vol \<mapsto> {op}], lab_one vol n) = Some (None, Map.empty, lab_one vol n)"
proof -
  obtain m where m: "decodeTags (encodeTags (volume_tags BlockAccessFsName ''v1'' None)) = Inr m" using lab_tags ..
  have p: "lv_path (new_lv vol) = ref_VgLv vol" by (simp add: lv_path_def new_lv_def plain_lv_def NewVolumeRefFromLv_def ref_VgLv_def)
  have tags: "decodeTags (lv_LvTags (new_lv vol)) = Inr m" using m by (simp add: new_lv_def plain_lv_def)
  show "LockVolume lab_locker vol op (Map.empty, lab_one vol n) = Some (None, [ref_VgLv vol \<mapsto> {op}], lab_one vol n)"
    by (rule lab_lock(1) [OF _ p tags]) (simp add: lab_one_def)
  show "UnlockVolume lab_locker vol op ([ref_VgLv vol \<mapsto> {op}], lab_one vol n) = Some (None, Map.empty, lab_one vol n)"
    by (rule lab_lock(2) [OF _ p tags]) (simp add: lab_one_def)
qed

lemma lab_one_uuid: "NewUUID lab_cs (l, lab_one vol 0) = Some (Inr (decimal 0), (l, lab_one vol 1))"
  by (simp add: NewUUID_def perform_def beside_def lab_one_def del: decimal.simps)

definition raw_fs :: "(locks \<times> lab) FileSystem" where
  "raw_fs = \<lparr>Accepts = raw_Accepts, Make = raw_Make, Grow = raw_Grow, Stage = raw_Stage idle_os,
          Unstage = raw_Unstage, Publish = raw_Publish idle_os, Unpublish = raw_Unpublish idle_os, Stat = raw_Stat\<rparr>"

lemma raw_fs: "NewFileSystem idle_os BlockAccessFsName = Inr raw_fs" "Accepts raw_fs BlockAccessType" "Make raw_fs d s = (None, s)"
  by (simp_all add: NewFileSystem_def raw_fs_def raw_Accepts_def raw_Make_def)

lemma lab_fill: "fill_locked lab_cs raw_fs vol None ((Map.empty, lab_one vol 0), [ref_VgLv vol]) =
      Some (Inr (), ((Map.empty, lab_one vol 1), []))"
  unfolding fill_locked_def
  by (simp add: andthen_def attempt_def inner_def lab_one_uuid checked_def lab_one_lock deferred_def fill_volume_def or_fail_def
        run_err_def raw_fs drop_cleanup_def tryVolumeUnlock_def ok_def throw_def Let_def del: decimal.simps)

lemma lab_create: "cl_LvCreate lab_client \<lparr>lvc_VgName = VgName vol, lvc_LvName = LvName vol, lvc_Size = 1048576,
   lvc_LvTags = encodeTags (volume_tags BlockAccessFsName ''v1'' None), lvc_Origin = '''',
     lvc_Activate = LV_ACTIVATION_MODE_ACTIVE_EXCLUSIVE\<rparr> \<lparr>lb_vols = [], lb_next = 0\<rparr> = (Inr (), lab_one vol 0)"
    by (simp add: lab_client_def lab_one_def new_lv_def)

lemma lab_data: "cv_Name req = ''v1'' \<Longrightarrow> create_data_volume lab_cs req vol BlockAccessFsName raw_fs 1048576 None None (lab_empty, []) =
      Some (Inr (created_volume req vol 1048576), ((Map.empty, lab_one vol 1), []))"
  unfolding create_data_volume_def
  by (simp add: attempt_def inner_def perform_def beside_def lab_empty_def andthen_def add_cleanup_def lab_fill lab_create ok_def)

lemma lab_request_parts:
  "reduceVolumeCapabilities (cv_VolumeCapabilities lab_request) =
     Some (Inr (Some \<lparr>access_mode = Some SINGLE_NODE_WRITER, access_type = Some Block\<rparr>))"
  "cv_Name lab_request = ''v1''" "cv_VolumeCapabilities lab_request \<noteq> []" "cv_CapacityRange lab_request = None"
  "cv_Parameters lab_request vgParamKey = Some ''vg''" "cv_VolumeContentSource lab_request = None"
  "full_match vgRe ''vg''"
  by (simp_all add: lab_request_def reduceVolumeCapabilities_def vgParamKey_def) code_simp

lemma lab_creates:
  assumes vol: "NewVolumeRefFromVgTypeName ''vg'' VolumeVolType ''v1'' = Some vol"
  shows "\<exists>v s'. CreateVolume lab_cs lab_request lab_empty = Some (Inr (Some v), s')"
proof -
  have ref: "(new_ref ''vg'' VolumeVolType ''v1'' :: (locks \<times> lab, VolumeRef) op) = ok vol" using vol by (simp add: new_ref_def)
  have name: "cv_Name (widen lab_request cap) = ''v1''" for cap by (simp add: widen_def lab_request_parts)
  have vg: "full_match vgRe ''vg'' = True" using lab_request_parts(7) by blast
  show ?thesis
    unfolding CreateVolume_def lab_request_parts(1) option.case sum.case lab_request_parts(5) vg
    by (simp add: lab_request_parts(2-6) GetBlock_def ref volume_size_def defaultCapacity_def resolve_source_def raw_fs
        with_cleanup_def andthen_def [of "create_data_volume lab_cs q v f g z a b" for q v f g z a b]
        attempt_def lab_data [OF name] ok_def [of "Some x" for x])
qed


end
