(* ===== verification/Listing.thy ===== *)
theory Listing
  imports Snapshots
begin

text \<open>
  The controller service, \<^verbatim>\<open>pkg/driverd/controllerserver.go\<close>: \<^verbatim>\<open>ListVolumes\<close> and \<^verbatim>\<open>ListSnapshots\<close>. Both ask the
  daemon for the whole sorted list and return a page of it; the token of the next page is the id of its first
  volume. The last section walks the pages the way a client does.
\<close>

section \<open>The handlers\<close>

record ListVolumesRequest =
  lq_MaxEntries :: int
  lq_StartingToken :: string

record ListSnapshotsRequest = ListVolumesRequest +
  lq_SnapshotId :: string
  lq_SourceVolumeId :: string

text \<open>The loop that looks for the volume of the token: its index, or the length of the list.\<close>

fun find_lv :: "VolumeRef \<Rightarrow> LogicalVolume list \<Rightarrow> nat" where
  "find_lv vol [] = 0"
| "find_lv vol (lv # lvs) = (if lv_VgName lv = VgName vol \<and> lv_LvName lv = LvName vol then 0 else Suc (find_lv vol lvs))"

text \<open>The index of the first entry; the handlers differ in the error of an id that does not parse.\<close>

definition page_start :: "(go_error \<Rightarrow> go_error) \<Rightarrow> LogicalVolume list \<Rightarrow> string \<Rightarrow> go_error + nat" where
  "page_start wrap lvs token =
     (if token = [] then Inr 0
      else if \<not> full_match volumeIdRe token then Inl (Status Aborted ''invalid starting token'')
      else case NewVolumeRefFromID token of
        Inl err \<Rightarrow> Inl (wrap err)
      | Inr vol \<Rightarrow>
          let i = find_lv vol lvs in
          if i = length lvs then Inl (Status Aborted ''invalid starting token'') else Inr i)"

definition page_end :: "LogicalVolume list \<Rightarrow> nat \<Rightarrow> int \<Rightarrow> nat" where
  "page_end lvs i maxEntries =
     (if maxEntries > 0 then min (length lvs) (i + nat maxEntries) else length lvs)"

definition next_token :: "LogicalVolume list \<Rightarrow> nat \<Rightarrow> string" where
  "next_token lvs s = (if s < length lvs then ref_ID (fst (NewVolumeInfoFromLv (lvs ! s))) else [])"

definition page ::
  "(go_error \<Rightarrow> go_error) \<Rightarrow> (LogicalVolume \<Rightarrow> 'e) \<Rightarrow> LogicalVolume list \<Rightarrow> string \<Rightarrow> int \<Rightarrow> go_error + 'e list \<times> string" where
  "page wrap entry lvs token maxEntries =
     (case page_start wrap lvs token of
        Inl err \<Rightarrow> Inl err
      | Inr i \<Rightarrow>
          let s = page_end lvs i maxEntries in
          Inr (map entry (take (s - i) (drop i lvs)), next_token lvs s))"

definition list_query :: "string \<Rightarrow> LvsRequest" where
  "list_query select = \<lparr>lvs_Select = select, lvs_Sort = [''vg_name'', ''lv_name''], lvs_Target = []\<rparr>"

definition ListVolumes ::
  "'s controllerServer \<Rightarrow> ListVolumesRequest \<Rightarrow> ('s, Volume list \<times> string) op" where
  "ListVolumes cs req =
     andthen (or_fail (perform (cl_Lvs (cs_client cs) (list_query (''lv_name=~^'' @ volumeLvPrefix))))
       (\<lambda>_. Status Internal ''failed to list volumes: %v'')) (\<lambda>lvs.
     of_result (page (\<lambda>err. err) lvToVolume lvs (lq_StartingToken req) (lq_MaxEntries req)))"

text \<open>
  The two filters of \<^verbatim>\<open>ListSnapshots\<close>. An id that does not have the form of one matches nothing: the answer is an
  empty page (\<open>None\<close>), without a call to the daemon.
\<close>

definition id_filter ::
  "string \<Rightarrow> string \<Rightarrow> string \<Rightarrow> string list \<Rightarrow> go_error + string list option" where
  "id_filter volumeId field msg filters =
     (if volumeId = [] then Inr (Some filters)
      else if \<not> full_match volumeIdRe volumeId then Inr None
      else case NewVolumeRefFromID volumeId of
        Inl _ \<Rightarrow> Inl (Status InvalidArgument msg)
      | Inr vol \<Rightarrow> Inr (Some (filters @ [''vg_name='' @ VgName vol, field @ LvName vol])))"

definition snapshot_filters :: "'z ListSnapshotsRequest_scheme \<Rightarrow> go_error + string list option" where
  "snapshot_filters req =
     (case id_filter (lq_SnapshotId req) ''lv_name='' ''invalid snapshot id: %v'' [''lv_name=~^'' @ snapshotLvPrefix] of
        Inr (Some filters) \<Rightarrow> id_filter (lq_SourceVolumeId req) ''origin='' ''invalid source volume id: %v'' filters
      | r \<Rightarrow> r)"

definition ListSnapshots ::
  "'s controllerServer \<Rightarrow> ListSnapshotsRequest \<Rightarrow> ('s, Snapshot list \<times> string) op" where
  "ListSnapshots cs req =
     andthen (of_result (snapshot_filters req)) (\<lambda>found.
     case found of
       None \<Rightarrow> ok ([], [])
     | Some filters \<Rightarrow>
         andthen (or_fail (perform (cl_Lvs (cs_client cs) (list_query (join_with '' && '' filters))))
           (\<lambda>_. Status Internal ''failed to list snapshots: %v'')) (\<lambda>lvs.
         of_result (page (\<lambda>_. Status InvalidArgument ''invalid volume id: %v'') lvToSnapshot lvs
           (lq_StartingToken req) (lq_MaxEntries req))))"

section \<open>Walking the pages\<close>

text \<open>A client that asks for the next page until there is none; \<open>None\<close> when \<open>n\<close> calls are not enough.\<close>

fun walk :: "nat \<Rightarrow> (string \<Rightarrow> ('s, 'e list \<times> string) op) \<Rightarrow> string \<Rightarrow> ('s, 'e list) op" where
  "walk 0 listing token = panic"
| "walk (Suc n) listing token =
     andthen (listing token) (\<lambda>(entries, next_page).
     if next_page = [] then ok entries
     else andthen (walk n listing next_page) (\<lambda>rest. ok (entries @ rest)))"

text \<open>What a daemon lists: volumes with distinct names that LVM accepts.\<close>

definition listable :: "LogicalVolume list \<Rightarrow> bool" where
  "listable lvs \<longleftrightarrow> distinct (map NewVolumeRefFromLv lvs) \<and>
     (\<forall>lv \<in> set lvs. lvm_name (lv_LvName lv) \<and> lvm_name (lv_VgName lv))"

text \<open>While \<open>I\<close> holds the daemon answers the query with the same list.\<close>

definition reports :: "('s \<Rightarrow> bool) \<Rightarrow> 's controllerServer \<Rightarrow> string \<Rightarrow> LogicalVolume list \<Rightarrow> bool" where
  "reports I cs select lvs \<longleftrightarrow>
     (\<forall>s. I s \<longrightarrow> fst (cl_Lvs (cs_client cs) (list_query select) s) = Inr lvs \<and>
        I (snd (cl_Lvs (cs_client cs) (list_query select) s)))"

definition lv_id :: "LogicalVolume \<Rightarrow> string" where
  "lv_id lv = ref_ID (NewVolumeRefFromLv lv)"

lemma find_lv_nth:
  "distinct (map NewVolumeRefFromLv lvs) \<Longrightarrow> i < length lvs \<Longrightarrow> find_lv (NewVolumeRefFromLv (lvs ! i)) lvs = i"
proof (induction lvs arbitrary: i)
  case (Cons lv lvs)
  then show ?case
  proof (cases i)
    case (Suc j)
    then have "NewVolumeRefFromLv (lvs ! j) \<in> NewVolumeRefFromLv ` set lvs" using Cons.prems by simp
    then have "NewVolumeRefFromLv lv \<noteq> NewVolumeRefFromLv (lvs ! j)" using Cons.prems by auto
    moreover have "find_lv (NewVolumeRefFromLv (lvs ! j)) lvs = j" using Cons Suc by simp
    ultimately show ?thesis using Suc by (auto simp: NewVolumeRefFromLv_def)
  qed (simp add: NewVolumeRefFromLv_def)
qed simp

lemma find_lv_absent: "vol \<notin> NewVolumeRefFromLv ` set lvs \<Longrightarrow> find_lv vol lvs = length lvs"
  by (induction lvs) (auto simp: NewVolumeRefFromLv_def)

lemma page_start_nth:
  assumes "listable lvs" and "i < length lvs"
  shows "page_start wrap lvs (lv_id (lvs ! i)) = Inr i"
proof -
  have n: "lvm_name (LvName (NewVolumeRefFromLv (lvs ! i)))" "lvm_name (VgName (NewVolumeRefFromLv (lvs ! i)))"
    using assms by (auto simp: listable_def NewVolumeRefFromLv_def)
  have "lv_id (lvs ! i) \<noteq> []" by (simp add: lv_id_def ref_ID_def)
  then show ?thesis
    using volumeIdRe_ref_ID [OF n] ref_ID_roundtrip [OF n] find_lv_nth [OF _ assms(2)] assms
    by (simp add: page_start_def lv_id_def listable_def)
qed

lemma page_start_absent:
  assumes "token \<noteq> []" and "token \<notin> lv_id ` set lvs"
  shows "page_start wrap lvs token = Inl (Status Aborted ''invalid starting token'')"
proof (cases "full_match volumeIdRe token")
  case True
  then obtain lv vg where t: "token = ref_ID \<lparr>LvName = lv, VgName = vg\<rparr>" "lvm_name lv" "lvm_name vg"
    unfolding volumeIdRe_match by (auto simp: ref_ID_def)
  then have "NewVolumeRefFromID token = Inr \<lparr>LvName = lv, VgName = vg\<rparr>" by (simp add: ref_ID_roundtrip)
  moreover have "\<lparr>LvName = lv, VgName = vg\<rparr> \<notin> NewVolumeRefFromLv ` set lvs"
    using assms(2) t(1) by (auto simp: lv_id_def)
  ultimately show ?thesis using assms(1) True by (simp add: page_start_def find_lv_absent)
qed (use assms(1) in \<open>simp add: page_start_def\<close>)

lemma next_token_eq: "next_token lvs s = (if s < length lvs then lv_id (lvs ! s) else [])"
  by (simp add: next_token_def lv_id_def NewVolumeInfoFromLv_def NewVolumeRefFromLv_def)

lemma walk_pages:
  assumes listing: "\<And>token s. I s \<Longrightarrow> \<exists>s'. listing token s = Some (page wrap entry lvs token m, s') \<and> I s'"
    and "listable lvs" and "m > 0"
  shows "page_start wrap lvs token = Inr i \<Longrightarrow> i \<le> length lvs \<Longrightarrow> length lvs - i \<le> Suc n * nat m \<Longrightarrow> I s \<Longrightarrow>
    \<exists>s'. walk (Suc n) listing token s = Some (Inr (map entry (drop i lvs)), s') \<and> I s'"
proof (induction n arbitrary: i token s)
  case 0
  obtain s1 where s1: "listing token s = Some (page wrap entry lvs token m, s1)" "I s1" using listing [OF 0(4)] by blast
  have "page_end lvs i m = length lvs" using 0 assms(3) by (simp add: page_end_def)
  then show ?case using s1 0 by (simp add: page_def next_token_eq andthen_def attempt_def)
next
  case (Suc n)
  obtain s1 where s1: "listing token s = Some (page wrap entry lvs token m, s1)" "I s1" using listing [OF Suc.prems(4)] by blast
  let ?s = "i + nat m"
  show ?case
  proof (cases "?s < length lvs")
    case False
    then have "page_end lvs i m = length lvs" using assms(3) by (simp add: page_end_def)
    then show ?thesis using s1 Suc.prems by (simp add: page_def next_token_eq andthen_def attempt_def)
  next
    case True
    have p: "page wrap entry lvs token m = Inr (map entry (take (nat m) (drop i lvs)), lv_id (lvs ! ?s))"
      using True assms(3) Suc.prems(1) by (simp add: page_def page_end_def next_token_eq)
    have e: "lv_id (lvs ! ?s) \<noteq> []" by (simp add: lv_id_def ref_ID_def)
    obtain s2 where s2: "walk (Suc n) listing (lv_id (lvs ! ?s)) s1 = Some (Inr (map entry (drop ?s lvs)), s2)" "I s2"
      using Suc.IH [OF page_start_nth [OF assms(2) True] _ _ s1(2)] Suc.prems(3) True by fastforce
    have d: "map entry (drop i lvs) = map entry (take (nat m) (drop i lvs)) @ map entry (drop ?s lvs)"
      by (metis append_take_drop_id drop_drop add.commute map_append)
    show ?thesis unfolding d using s1 s2 p e by (simp add: andthen_def attempt_def ok_def del: walk.simps(2) add: walk.simps(2) [of "Suc n"])
  qed
qed

lemma page_count:
  assumes "m > 0"
  shows "n \<le> Suc ((n - 1) div m) * (m :: nat)"
proof -
  have "n - 1 = (n - 1) div m * m + (n - 1) mod m" by simp
  moreover have "(n - 1) mod m < m" using assms by simp
  ultimately have "n - 1 < m + (n - 1) div m * m" by linarith
  then show ?thesis by simp
qed

lemma reports_run:
  assumes "reports I cs select lvs" and "I s"
  obtains s' where "cl_Lvs (cs_client cs) (list_query select) s = (Inr lvs, s')" and "I s'"
  using assms unfolding reports_def by (metis prod.collapse)

lemma ListVolumes_page:
  assumes "reports I cs (''lv_name=~^'' @ volumeLvPrefix) lvs" and "I s"
  shows "\<exists>s'. ListVolumes cs \<lparr>lq_MaxEntries = m, lq_StartingToken = token\<rparr> s =
      Some (page (\<lambda>err. err) lvToVolume lvs token m, s') \<and> I s'"
  by (rule reports_run [OF assms])
    (auto simp: ListVolumes_def op_defs split: sum.splits)

lemma ListSnapshots_page:
  assumes "snapshot_filters req = Inr (Some filters)" and "reports I cs (join_with '' && '' filters) lvs" and "I s"
  shows "\<exists>s'. ListSnapshots cs req s =
      Some (page (\<lambda>_. Status InvalidArgument ''invalid volume id: %v'') lvToSnapshot lvs (lq_StartingToken req) (lq_MaxEntries req), s') \<and> I s'"
  by (rule reports_run [OF assms(2,3)])
    (auto simp: ListSnapshots_def assms(1) op_defs split: sum.splits)

section \<open>Properties\<close>

text \<open>C20: Walking the pages of a listing yields every volume exactly once, in the order of the daemon, and ends:
  for every positive page size \<open>m\<close>, following the tokens from the first page returns the whole list after at most
  one page per \<open>m\<close> volumes (one when there are none), for the volumes and for the snapshots under any filters that parse, as long as
  the daemon keeps reporting the same list. A token whose volume is no longer listed is refused with \<open>Aborted\<close>, so a client never skips
  entries silently.
\<close>

theorem listings_walk:
  assumes "m > 0" and "I s" and "listable vols" and "reports I cs (''lv_name=~^'' @ volumeLvPrefix) vols"
    and "snapshot_filters req = Inr (Some filters)" and "listable snaps" and "reports I cs (join_with '' && '' filters) snaps"
  shows "(\<exists>s'. walk (Suc ((length vols - 1) div nat m))
        (\<lambda>token. ListVolumes cs \<lparr>lq_MaxEntries = m, lq_StartingToken = token\<rparr>) [] s =
        Some (Inr (map lvToVolume vols), s')) \<and>
    (\<exists>s'. walk (Suc ((length snaps - 1) div nat m))
        (\<lambda>token. ListSnapshots cs (req\<lparr>lq_MaxEntries := m, lq_StartingToken := token\<rparr>)) [] s =
        Some (Inr (map lvToSnapshot snaps), s')) \<and>
    (\<forall>token. token = [] \<or> token \<in> lv_id ` set vols \<or>
        (\<exists>s'. ListVolumes cs \<lparr>lq_MaxEntries = m, lq_StartingToken = token\<rparr> s =
           Some (Inl (Status Aborted ''invalid starting token''), s'))) \<and>
    (\<forall>token. token = [] \<or> token \<in> lv_id ` set snaps \<or>
        (\<exists>s'. ListSnapshots cs (req\<lparr>lq_MaxEntries := m, lq_StartingToken := token\<rparr>) s =
           Some (Inl (Status Aborted ''invalid starting token''), s')))"
proof -
  have f: "snapshot_filters (req\<lparr>lq_MaxEntries := m, lq_StartingToken := token\<rparr>) = Inr (Some filters)" for token
    using assms(5) by (simp add: snapshot_filters_def cong: sum.case_cong option.case_cong)
  note v = ListVolumes_page [OF assms(4)] and n = ListSnapshots_page [OF f assms(7)]
  let ?V = "\<lambda>token. ListVolumes cs \<lparr>lq_MaxEntries = m, lq_StartingToken = token\<rparr>"
    and ?N = "\<lambda>token. ListSnapshots cs (req\<lparr>lq_MaxEntries := m, lq_StartingToken := token\<rparr>)"
  have n': "\<exists>s'. ?N token s = Some (page (\<lambda>_. Status InvalidArgument ''invalid volume id: %v'') lvToSnapshot snaps token m, s') \<and> I s'"
    if "I s" for token s using n [OF that] by simp
  have z: "page_start w lvs [] = Inr 0" for w lvs by (simp add: page_start_def)
  have c: "length lvs - 0 \<le> Suc ((length lvs - 1) div nat m) * nat m" for lvs :: "LogicalVolume list"
    using page_count [of "nat m" "length lvs"] assms(1) by simp
  show ?thesis
  proof (intro conjI allI)
    show "\<exists>s'. walk (Suc ((length vols - 1) div nat m))
        (\<lambda>token. ListVolumes cs \<lparr>lq_MaxEntries = m, lq_StartingToken = token\<rparr>) [] s = Some (Inr (map lvToVolume vols), s')"
      using walk_pages [where I = I and entry = lvToVolume and listing = ?V, OF _ assms(3,1) z le0 c assms(2)] v
      unfolding drop_0 by blast
    show "\<exists>s'. walk (Suc ((length snaps - 1) div nat m))
        (\<lambda>token. ListSnapshots cs (req\<lparr>lq_MaxEntries := m, lq_StartingToken := token\<rparr>)) [] s = Some (Inr (map lvToSnapshot snaps), s')"
      using walk_pages [where I = I and entry = lvToSnapshot and listing = ?N, OF _ assms(6,1) z le0 c assms(2)] n'
      unfolding drop_0 by blast
  next
    fix token
    show "token = [] \<or> token \<in> lv_id ` set vols \<or> (\<exists>s'. ListVolumes cs \<lparr>lq_MaxEntries = m, lq_StartingToken = token\<rparr> s =
        Some (Inl (Status Aborted ''invalid starting token''), s'))"
      using v [OF assms(2), of m token] page_start_absent [of token vols "\<lambda>e. e"] by (auto simp: page_def)
    show "token = [] \<or> token \<in> lv_id ` set snaps \<or> (\<exists>s'. ListSnapshots cs (req\<lparr>lq_MaxEntries := m, lq_StartingToken := token\<rparr>) s =
        Some (Inl (Status Aborted ''invalid starting token''), s'))"
      using n' [OF assms(2), of token] page_start_absent [of token snaps "\<lambda>_. Status InvalidArgument ''invalid volume id: %v''"]
      by (auto simp: page_def)
  qed
qed

text \<open>A daemon that keeps three volumes and a snapshot.\<close>

definition shelf_vols :: "LogicalVolume list" where
  "shelf_vols = map (\<lambda>n. plain_lv ''vg'' n 512 [] '''') [''csl-v-a'', ''csl-v-b'', ''csl-v-c'']"

definition shelf_snaps :: "LogicalVolume list" where
  "shelf_snaps = [plain_lv ''vg'' ''csl-s-a'' 512 [] ''csl-v-a'']"

definition shelf_cs :: "(locks \<times> lab) controllerServer" where
  "shelf_cs = lab_cs\<lparr>cs_base := \<lparr>lvmctrld = (lift_client lab_client)\<lparr>cl_Lvs := \<lambda>q s.
     (Inr (if lvs_Select q = ''lv_name=~^csl-v-'' then shelf_vols else shelf_snaps), s)\<rparr>, nodeID = 1\<rparr>\<rparr>"

theorem listings_walk_witness:
  "(\<exists>s'. walk 2 (\<lambda>token. ListVolumes shelf_cs \<lparr>lq_MaxEntries = 2, lq_StartingToken = token\<rparr>) []
      (Map.empty, \<lparr>lb_vols = [], lb_next = 0\<rparr>) = Some (Inr (map lvToVolume shelf_vols), s')) \<and>
   (\<exists>s'. walk 1 (\<lambda>token. ListSnapshots shelf_cs
        \<lparr>lq_MaxEntries = 2, lq_StartingToken = token, lq_SnapshotId = '''', lq_SourceVolumeId = ''csl-v-a@vg''\<rparr>) []
      (Map.empty, \<lparr>lb_vols = [], lb_next = 0\<rparr>) = Some (Inr (map lvToSnapshot shelf_snaps), s'))"
proof -
  let ?r = "\<lparr>lq_MaxEntries = 2, lq_StartingToken = '''', lq_SnapshotId = '''', lq_SourceVolumeId = ''csl-v-a@vg''\<rparr>"
  let ?f = "[''lv_name=~^csl-s-'', ''vg_name=vg'', ''origin=csl-v-a'']"
  have names: "lvm_name ''vg'' \<and> lvm_name ''csl-v-a'' \<and> lvm_name ''csl-v-b'' \<and> lvm_name ''csl-v-c'' \<and> lvm_name ''csl-s-a''"
    by (simp add: lvm_name_def id_char_def id_head_def is_alnum_def in_range_def)
  have f: "snapshot_filters ?r = Inr (Some ?f)"
    using volumeIdRe_ref_ID [of "\<lparr>LvName = ''csl-v-a'', VgName = ''vg''\<rparr>"] ref_ID_roundtrip [of "\<lparr>LvName = ''csl-v-a'', VgName = ''vg''\<rparr>"] names
    by (simp add: snapshot_filters_def id_filter_def snapshotLvPrefix_def ref_ID_def)
  have l: "listable shelf_vols" "listable shelf_snaps"
    using names by (simp_all add: listable_def shelf_vols_def shelf_snaps_def NewVolumeRefFromLv_def plain_lv_def)
  have r: "reports (\<lambda>_. True) shelf_cs (''lv_name=~^'' @ volumeLvPrefix) shelf_vols"
      "reports (\<lambda>_. True) shelf_cs (join_with '' && '' ?f) shelf_snaps"
    by (simp_all add: reports_def shelf_cs_def list_query_def volumeLvPrefix_def)
  have "length shelf_vols = 3" "length shelf_snaps = 1" by (simp_all add: shelf_vols_def shelf_snaps_def)
  then show ?thesis
    using listings_walk [where m = 2 and I = "\<lambda>_. True" and s = "(Map.empty, \<lparr>lb_vols = [], lb_next = 0\<rparr>)", OF _ _ l(1) r(1) f l(2) r(2)]
    by (simp add: numeral_2_eq_2)
qed

end
