(* ===== verification/DiskRpc.thy ===== *)
theory DiskRpc
  imports MailBox
begin

text \<open>
  Remote calls over the disk mailbox, \<^verbatim>\<open>pkg/diskrpc/diskrpc.go\<close>. The first part has the code of
  \<^verbatim>\<open>Register\<close>, \<^verbatim>\<open>Invoke\<close>, \<^verbatim>\<open>Handle\<close>, \<^verbatim>\<open>handleResponse\<close> and \<^verbatim>\<open>handleRequest\<close>, cut where the code
  gives up the mutex or blocks; the second composes the pieces into the interleaved steps of the
  callers and of the one goroutine that runs \<^verbatim>\<open>Handle\<close>.

  A pending call is identified with its uuid, which stands for the unbuffered channel it waits
  on. The protobuf codec, the uuid library, the text of errors and the clock are parameters.
\<close>

section \<open>The code\<close>

type_synonym ('q, 'r, 'w) rpc_method = "'q \<Rightarrow> 'w \<Rightarrow> ('r option \<times> go_error option) \<times> 'w"

type_synonym ('q, 'r, 'w) rpc_target = "string \<rightharpoonup> ('q, 'r, 'w) rpc_method"

record ('q, 'r) rpc_env =
  Marshal :: "DiskRpcMessage \<Rightarrow> go_error + string"
  Unmarshal :: "string \<Rightarrow> go_error + DiskRpcMessage"
  req_Marshal :: "'q \<Rightarrow> go_error + string"
  req_Unmarshal :: "string \<Rightarrow> string \<Rightarrow> go_error + 'q"
  res_Marshal :: "'r \<Rightarrow> go_error + string"
  res_Unmarshal :: "string \<Rightarrow> go_error + 'r"
  MarshalBinary :: "string \<Rightarrow> go_error + string"
  FromBytes :: "string \<Rightarrow> go_error + string"
  Error :: "go_error \<Rightarrow> string"

record ('q, 'r, 'w) diskRpc =
  handlers :: "nat \<rightharpoonup> ('q, 'r, 'w) rpc_target"
  pending :: "string set"
  outgoing :: "Message list"

definition NewDiskRpc :: "('q, 'r, 'w) diskRpc" where
  "NewDiskRpc = \<lparr>handlers = Map.empty, pending = {}, outgoing = []\<rparr>"

definition Register ::
  "nat \<Rightarrow> ('q, 'r, 'w) rpc_target option \<Rightarrow> ('q, 'r, 'w) diskRpc \<Rightarrow> ('q, 'r, 'w) diskRpc" where
  "Register channel handler s = s\<lparr>handlers := (handlers s)(channel := handler)\<rparr>"

text \<open>
  \<^verbatim>\<open>Invoke\<close>: the payload it builds (the target channel is not used), the critical section that
  schedules it, how long it waits, and what it makes of the answer.
\<close>

definition Invoke_request ::
  "('q, 'r) rpc_env \<Rightarrow> Timestamp \<Rightarrow> string \<Rightarrow> nat \<Rightarrow> string \<Rightarrow> 'q option \<Rightarrow> go_error + string" where
  "Invoke_request e now rid targetID method req =
     (case (case req of None \<Rightarrow> Inr [] | Some q \<Rightarrow> req_Marshal e q) of
        Inl _ \<Rightarrow> Inl (Plain ''failed to serialize request to message: %v'')
      | Inr reqBuf \<Rightarrow>
          (case MarshalBinary e rid of
             Inl _ \<Rightarrow> Inl (Plain ''failed to serialize request uuid: %v'')
           | Inr idBuf \<Rightarrow>
               (case Marshal e \<lparr>dm_Time = Some now, dm_Type = DISK_RPC_TYPE_REQUEST, dm_Channel = 0,
                       dm_Uuid = idBuf, dm_Method = method, dm_Request = reqBuf, dm_Response = [],
                       dm_ErrorMsg = [], dm_ErrorCode = 0\<rparr> of
                  Inl _ \<Rightarrow> Inl (Plain ''failed to serialize request: %v'')
                | Inr buf \<Rightarrow> Inr buf)))"

definition Invoke_schedule ::
  "string \<Rightarrow> nat \<Rightarrow> string \<Rightarrow> ('q, 'r, 'w) diskRpc \<Rightarrow> (go_error + unit) \<times> ('q, 'r, 'w) diskRpc" where
  "Invoke_schedule rid node_id buf s =
     (if length (outgoing s) > 64 then (Inl (Status ResourceExhausted ''too many queued request''), s)
      else (Inr (), s\<lparr>pending := insert rid (pending s),
              outgoing := outgoing s @ [\<lparr>Sender = 0, Recipient = node_id, Payload = buf\<rparr>]\<rparr>))"

text \<open>
  The wait, in nanoseconds: the test is the wrong way round, so a call without a deadline waits
  from the zero time on (\<^verbatim>\<open>Sub\<close> saturates) and one with a deadline waits 30 seconds.
\<close>

definition Invoke_wait :: "int \<Rightarrow> int option \<Rightarrow> int" where
  "Invoke_wait now deadline =
     (case deadline of None \<Rightarrow> min now (2 ^ 63 - 1) | Some _ \<Rightarrow> 30 * 10 ^ 9)"

text \<open>\<^verbatim>\<open>status.Error\<close>: no error for the code OK.\<close>

definition status_Error :: "code \<Rightarrow> string \<Rightarrow> go_error option" where
  "status_Error c msg = (if c = OK then None else Some (Status c msg))"

definition Invoke_result :: "('q, 'r) rpc_env \<Rightarrow> DiskRpcMessage \<Rightarrow> go_error option \<times> 'r option" where
  "Invoke_result e dMsg =
     (let resErr = (if dm_ErrorMsg dMsg \<noteq> [] \<or> dm_ErrorCode dMsg \<noteq> 0
                    then status_Error (code_of_number (dm_ErrorCode dMsg)) (dm_ErrorMsg dMsg) else None) in
      if dm_Response dMsg \<noteq> [] then
        (case res_Unmarshal e (dm_Response dMsg) of
           Inl _ \<Rightarrow> (Some (Plain ''failed to deserialize response from message: %v''), None)
         | Inr r \<Rightarrow> (resErr, Some r))
      else (resErr, None))"

text \<open>
  \<^verbatim>\<open>handleResponse\<close> up to the send on the channel: the call to deliver to. The entry is deleted
  before the send.
\<close>

definition handleResponse ::
  "('q, 'r) rpc_env \<Rightarrow> DiskRpcMessage \<Rightarrow> ('q, 'r, 'w) diskRpc \<Rightarrow> (go_error + string) \<times> ('q, 'r, 'w) diskRpc" where
  "handleResponse e dMsg s =
     (case FromBytes e (dm_Uuid dMsg) of
        Inl _ \<Rightarrow> (Inl (Plain ''failed to deserialize response id: %v''), s)
      | Inr rid \<Rightarrow>
          if rid \<notin> pending s then (Inl (Plain ''response %s: request not found''), s)
          else (Inr rid, s\<lparr>pending := pending s - {rid}\<rparr>))"

definition response_message ::
  "('q, 'r) rpc_env \<Rightarrow> Timestamp \<Rightarrow> DiskRpcMessage \<Rightarrow> string \<Rightarrow> go_error option \<Rightarrow> DiskRpcMessage" where
  "response_message e now dMsg resBuf err =
     \<lparr>dm_Time = Some now, dm_Type = DISK_RPC_TYPE_RESPONSE, dm_Channel = dm_Channel dMsg,
      dm_Uuid = dm_Uuid dMsg, dm_Method = [], dm_Request = [], dm_Response = resBuf,
      dm_ErrorMsg = (case err of None \<Rightarrow> [] | Some x \<Rightarrow> Error e x),
      dm_ErrorCode = (case err of None \<Rightarrow> 0 | Some x \<Rightarrow> code_number (error_code x))\<rparr>"

definition handleRequest ::
  "('q, 'r) rpc_env \<Rightarrow> Timestamp \<Rightarrow> nat \<Rightarrow> DiskRpcMessage \<Rightarrow> ('q, 'r, 'w) diskRpc \<times> 'w \<Rightarrow>
   go_error option \<times> ('q, 'r, 'w) diskRpc \<times> 'w" where
  "handleRequest e now sender dMsg =
     (\<lambda>(s, w).
      case FromBytes e (dm_Uuid dMsg) of
        Inl _ \<Rightarrow> (Some (Plain ''failed to deserialize request id: %v''), s, w)
      | Inr rid \<Rightarrow>
          if dm_Channel dMsg > 255 then (Some (Plain ''request %s: invalid channel %d''), s, w)
          else case handlers s (dm_Channel dMsg) of
            None \<Rightarrow> (Some (Plain ''request %s: unknown channel %d''), s, w)
          | Some target \<Rightarrow>
              (case target (dm_Method dMsg) of
                 None \<Rightarrow> (Some (Plain ''request %s: unknown method %q''), s, w)
               | Some m \<Rightarrow>
                   (case req_Unmarshal e (dm_Method dMsg) (dm_Request dMsg) of
                      Inl _ \<Rightarrow> (Some (Plain ''failed to deserialize request from message: %v''), s, w)
                    | Inr req \<Rightarrow>
                        (case m req w of
                           ((res, err), w') \<Rightarrow>
                             (case (case res of None \<Rightarrow> Inr [] | Some r \<Rightarrow> res_Marshal e r) of
                                Inl _ \<Rightarrow> (Some (Plain ''failed to serialize response to message: %v''), s, w')
                              | Inr resBuf \<Rightarrow>
                                  (case Marshal e (response_message e now dMsg resBuf err) of
                                     Inl _ \<Rightarrow> (Some (Plain ''failed to marshal request: %v''), s, w')
                                   | Inr buf \<Rightarrow>
                                       if length (outgoing s) > 4 * 64
                                       then (Some (Status ResourceExhausted ''too many queued request''), s, w')
                                       else (None, s\<lparr>outgoing := outgoing s @
                                              [\<lparr>Sender = 0, Recipient = sender, Payload = buf\<rparr>]\<rparr>, w')))))))"

text \<open>The end of \<^verbatim>\<open>Handle\<close>: the queue is emptied, and a message that cannot be sent is only logged.\<close>

fun send_all :: "(Message \<Rightarrow> 'w \<Rightarrow> (go_error + unit) \<times> 'w) \<Rightarrow> Message list \<Rightarrow> 'w \<Rightarrow> 'w" where
  "send_all send [] w = w"
| "send_all send (m # ms) w = send_all send ms (snd (send m w))"

definition Handle_outgoing ::
  "(Message \<Rightarrow> 'w \<Rightarrow> (go_error + unit) \<times> 'w) \<Rightarrow> ('q, 'r, 'w) diskRpc \<times> 'w \<Rightarrow> ('q, 'r, 'w) diskRpc \<times> 'w" where
  "Handle_outgoing send = (\<lambda>(s, w). (s\<lparr>outgoing := []\<rparr>, send_all send (outgoing s) w))"

section \<open>Calls and the handler, interleaved\<close>

text \<open>
  A call is \<open>Waiting\<close> in its \<^verbatim>\<open>select\<close>, has been \<open>Answered\<close> or is \<open>Leaving\<close> after its timeout, and is
  \<open>Gone\<close> once the deferred function has removed its entry. The goroutine of \<^verbatim>\<open>Handle\<close> is idle, has
  messages left to process, or is blocked sending an answer on the channel of a call.
\<close>

datatype waiter = Waiting | Leaving | Answered DiskRpcMessage | Gone

datatype position = Idle | Busy "Message list" | Sending string DiskRpcMessage "Message list"

record ('q, 'r, 'w) rpc_sys =
  rpc :: "('q, 'r, 'w) diskRpc"
  waiters :: "string \<rightharpoonup> waiter"
  pos :: position
  outside :: 'w

text \<open>The loop of \<^verbatim>\<open>Handle\<close>, one message: what it leaves behind and where the goroutine is then.\<close>

definition Handle_message ::
  "('q, 'r) rpc_env \<Rightarrow> Timestamp \<Rightarrow> Message \<Rightarrow> Message list \<Rightarrow> ('q, 'r, 'w) diskRpc \<times> 'w \<Rightarrow>
   position \<times> ('q, 'r, 'w) diskRpc \<times> 'w" where
  "Handle_message e now m ms =
     (\<lambda>(s, w).
      case Unmarshal e (Payload m) of
        Inl _ \<Rightarrow> (Idle, s, w)
      | Inr dMsg \<Rightarrow>
          (case dm_Type dMsg of
             DISK_RPC_TYPE_RESPONSE \<Rightarrow>
               (case handleResponse e dMsg s of
                  (Inl _, s') \<Rightarrow> (Busy ms, s', w)
                | (Inr rid, s') \<Rightarrow> (Sending rid dMsg ms, s', w))
           | DISK_RPC_TYPE_REQUEST \<Rightarrow>
               (case handleRequest e now (Sender m) dMsg (s, w) of (_, s', w') \<Rightarrow> (Busy ms, s', w'))
           | DISK_RPC_TYPE_UNKNOWN \<Rightarrow> (Busy ms, s, w)))"

inductive rpc_step ::
  "('q, 'r) rpc_env \<Rightarrow> ('w \<Rightarrow> (go_error + Message list) \<times> 'w) \<Rightarrow> (Message \<Rightarrow> 'w \<Rightarrow> (go_error + unit) \<times> 'w) \<Rightarrow>
   ('q, 'r, 'w) rpc_sys \<Rightarrow> ('q, 'r, 'w) rpc_sys \<Rightarrow> bool"
  for e recv send
where
  call: "waiters s rid = None \<Longrightarrow> Invoke_request e now rid ch method req = Inr buf \<Longrightarrow>
    Invoke_schedule rid node buf (rpc s) = (Inr (), s') \<Longrightarrow>
    rpc_step e recv send s (s\<lparr>rpc := s', waiters := (waiters s)(rid \<mapsto> Waiting)\<rparr>)"
| expire: "waiters s rid = Some Waiting \<Longrightarrow>
    rpc_step e recv send s (s\<lparr>waiters := (waiters s)(rid \<mapsto> Leaving)\<rparr>)"
| leave: "waiters s rid = Some x \<Longrightarrow> x = Leaving \<or> x = Answered d \<Longrightarrow>
    rpc_step e recv send s
      (s\<lparr>rpc := (rpc s)\<lparr>pending := pending (rpc s) - {rid}\<rparr>, waiters := (waiters s)(rid \<mapsto> Gone)\<rparr>)"
| receive: "pos s = Idle \<Longrightarrow> recv (outside s) = (Inr ms, w) \<Longrightarrow>
    rpc_step e recv send s (s\<lparr>pos := Busy ms, outside := w\<rparr>)"
| receive_failed: "pos s = Idle \<Longrightarrow> recv (outside s) = (Inl err, w) \<Longrightarrow>
    rpc_step e recv send s (s\<lparr>outside := w\<rparr>)"
| message: "pos s = Busy (m # ms) \<Longrightarrow> Handle_message e now m ms (rpc s, outside s) = (p, s', w) \<Longrightarrow>
    rpc_step e recv send s (s\<lparr>rpc := s', pos := p, outside := w\<rparr>)"
| deliver: "pos s = Sending rid d ms \<Longrightarrow> waiters s rid = Some Waiting \<Longrightarrow>
    rpc_step e recv send s (s\<lparr>pos := Busy ms, waiters := (waiters s)(rid \<mapsto> Answered d)\<rparr>)"
| flush: "pos s = Busy [] \<Longrightarrow> Handle_outgoing send (rpc s, outside s) = (s', w) \<Longrightarrow>
    rpc_step e recv send s (s\<lparr>rpc := s', pos := Idle, outside := w\<rparr>)"

definition rpc_start :: "'w \<Rightarrow> ('q, 'r, 'w) rpc_sys" where
  "rpc_start w = \<lparr>rpc = NewDiskRpc, waiters = Map.empty, pos = Idle, outside = w\<rparr>"

text \<open>\<^verbatim>\<open>Register\<close> may run at any time; the runs start from any table of handlers.\<close>

definition rpc_with :: "(nat \<rightharpoonup> ('q, 'r, 'w) rpc_target) \<Rightarrow> 'w \<Rightarrow> ('q, 'r, 'w) rpc_sys" where
  "rpc_with hs w = (rpc_start w)\<lparr>rpc := NewDiskRpc\<lparr>handlers := hs\<rparr>\<rparr>"

inductive_cases rpc_stepE: "rpc_step e recv send s s'"

section \<open>Lemmas\<close>

lemma handleResponse_cases:
  assumes "handleResponse e d s = (r, s')"
  obtains (unknown) err where "r = Inl err" and "s' = s"
  | (known) rid where "r = Inr rid" and "FromBytes e (dm_Uuid d) = Inr rid" and "rid \<in> pending s"
      and "s' = s\<lparr>pending := pending s - {rid}\<rparr>"
proof (cases "FromBytes e (dm_Uuid d)")
  case (Inl x)
  then show thesis using assms unknown by (auto simp: handleResponse_def)
next
  case (Inr rid)
  show thesis
  proof (cases "rid \<in> pending s")
    case True
    then show thesis using assms Inr known [of rid] by (auto simp: handleResponse_def)
  next
    case False
    then show thesis using assms Inr unknown by (auto simp: handleResponse_def)
  qed
qed

lemma handleRequest_pending: "pending (fst (snd (handleRequest e now i d (s, w)))) = pending s"
proof (cases "FromBytes e (dm_Uuid d)")
  case (Inr rid)
  show ?thesis
  proof (cases "handlers s (dm_Channel d)")
    case (Some target)
    show ?thesis
    proof (cases "target (dm_Method d)")
      case (Some m)
      show ?thesis
      proof (cases "req_Unmarshal e (dm_Method d) (dm_Request d)")
        case r: (Inr req)
        obtain res err w' where m: "m req w = ((res, err), w')" by (metis prod.collapse)
        show ?thesis
        proof (cases "case res of None \<Rightarrow> Inr [] | Some r \<Rightarrow> res_Marshal e r")
          case b: (Inr resBuf)
          show ?thesis
            by (cases "Marshal e (response_message e now d resBuf err)")
              (use Inr \<open>handlers s (dm_Channel d) = Some target\<close> Some r m b in
                \<open>simp_all add: handleRequest_def\<close>)
        qed (use Inr \<open>handlers s (dm_Channel d) = Some target\<close> Some r m in \<open>simp_all add: handleRequest_def\<close>)
      qed (use Inr \<open>handlers s (dm_Channel d) = Some target\<close> Some in \<open>simp_all add: handleRequest_def\<close>)
    qed (use Inr Some in \<open>simp_all add: handleRequest_def\<close>)
  qed (use Inr in \<open>simp_all add: handleRequest_def\<close>)
qed (simp add: handleRequest_def)

lemma Handle_message_cases:
  assumes "Handle_message e now m ms (s, w) = (p, s', w')"
  obtains (quiet) "p = Idle \<or> p = Busy ms" and "pending s' = pending s"
  | (answer) rid d where "p = Sending rid d ms" and "FromBytes e (dm_Uuid d) = Inr rid"
      and "dm_Type d = DISK_RPC_TYPE_RESPONSE" and "rid \<in> pending s" and "pending s' = pending s - {rid}"
proof (cases "Unmarshal e (Payload m)")
  case (Inl x)
  then show thesis using assms quiet by (simp add: Handle_message_def)
next
  case (Inr d)
  show thesis
  proof (cases "dm_Type d")
    case DISK_RPC_TYPE_UNKNOWN
    then show thesis using assms Inr quiet by (simp add: Handle_message_def)
  next
    case DISK_RPC_TYPE_REQUEST
    obtain r s1 w1 where h: "handleRequest e now (Sender m) d (s, w) = (r, s1, w1)" by (cases rule: prod_cases3)
    have "pending s1 = pending s" using handleRequest_pending [of e now "Sender m" d s w] h by simp
    then show thesis
      using assms Inr DISK_RPC_TYPE_REQUEST h quiet by (simp add: Handle_message_def)
  next
    case DISK_RPC_TYPE_RESPONSE
    obtain r s1 where h: "handleResponse e d s = (r, s1)" by fastforce
    show thesis
    proof (cases rule: handleResponse_cases [OF h])
      case (1 err)
      then show thesis
        using assms Inr DISK_RPC_TYPE_RESPONSE h quiet by (simp add: Handle_message_def)
    next
      case (2 rid)
      have "p = Sending rid d ms" "s' = s1"
        using assms Inr DISK_RPC_TYPE_RESPONSE h 2(1) by (simp_all add: Handle_message_def)
      then show thesis using answer [of rid d] 2 DISK_RPC_TYPE_RESPONSE by simp
    qed
  qed
qed

text \<open>The invariant of the interleaved steps.\<close>

definition rpc_inv :: "('q, 'r) rpc_env \<Rightarrow> ('q, 'r, 'w) rpc_sys \<Rightarrow> bool" where
  "rpc_inv e s \<longleftrightarrow>
     (\<forall>rid \<in> pending (rpc s). waiters s rid \<in> {Some Waiting, Some Leaving}) \<and>
     (\<forall>rid d. waiters s rid = Some (Answered d) \<longrightarrow>
        FromBytes e (dm_Uuid d) = Inr rid \<and> dm_Type d = DISK_RPC_TYPE_RESPONSE) \<and>
     (\<forall>rid d ms. pos s = Sending rid d ms \<longrightarrow>
        FromBytes e (dm_Uuid d) = Inr rid \<and> dm_Type d = DISK_RPC_TYPE_RESPONSE \<and> rid \<notin> pending (rpc s) \<and>
        waiters s rid \<noteq> None)"

lemma rpc_inv_start: "rpc_inv e (rpc_with hs w)"
  by (simp add: rpc_inv_def rpc_with_def rpc_start_def NewDiskRpc_def)

lemma schedule_pending:
  "Invoke_schedule rid node buf s = (Inr (), s') \<Longrightarrow> pending s' = insert rid (pending s)"
  by (auto simp: Invoke_schedule_def split: if_splits)

lemma flush_pending: "Handle_outgoing send (s, w) = (s', w') \<Longrightarrow> pending s' = pending s"
  by (auto simp: Handle_outgoing_def)

lemma rpc_inv_step:
  assumes "rpc_step e recv send s s'" and inv: "rpc_inv e s"
  shows "rpc_inv e s'"
  using assms(1)
proof cases
  case (call rid now ch meth req buf node t)
  then show ?thesis using inv schedule_pending [OF call(4)] by (auto simp: rpc_inv_def)
next
  case (message m ms now p t w)
  show ?thesis
  proof (cases rule: Handle_message_cases [OF message(3)])
    case 1
    then show ?thesis using inv message(1) by (auto simp: rpc_inv_def)
  next
    case (2 rid d)
    then show ?thesis using inv message(1) by (auto simp: rpc_inv_def)
  qed
next
  case (flush t w)
  then show ?thesis using inv flush_pending [OF flush(3)] by (auto simp: rpc_inv_def)
qed (use inv in \<open>auto simp: rpc_inv_def\<close>)

lemma rpc_inv_reach:
  "rtranclp (rpc_step e recv send) s s' \<Longrightarrow> rpc_inv e s \<Longrightarrow> rpc_inv e s'"
  by (induction rule: rtranclp_induct) (auto intro: rpc_inv_step)

text \<open>A call that has its answer, or has left, never gets another one.\<close>

lemma gone_step: "rpc_step e recv send s s' \<Longrightarrow> waiters s rid = Some Gone \<Longrightarrow> waiters s' rid = Some Gone"
  by (cases rule: rpc_step.cases) auto

lemma left_step:
  "rpc_step e recv send s s' \<Longrightarrow> waiters s rid = Some Leaving \<Longrightarrow> waiters s' rid \<in> {Some Leaving, Some Gone}"
  by (cases rule: rpc_step.cases) auto

lemma answered_step:
  "rpc_step e recv send s s' \<Longrightarrow> waiters s rid = Some (Answered d) \<Longrightarrow>
   waiters s' rid \<in> {Some (Answered d), Some Gone}"
  by (cases rule: rpc_step.cases) auto

lemma left_reach:
  "rtranclp (rpc_step e recv send) s s' \<Longrightarrow> waiters s rid \<in> {Some Leaving, Some Gone} \<Longrightarrow>
   waiters s' rid \<in> {Some Leaving, Some Gone}"
  by (induction rule: rtranclp_induct) (auto dest: gone_step left_step)

lemma answered_reach:
  "rtranclp (rpc_step e recv send) s s' \<Longrightarrow> waiters s rid \<in> {Some (Answered d), Some Gone} \<Longrightarrow>
   waiters s' rid \<in> {Some (Answered d), Some Gone}"
  by (induction rule: rtranclp_induct) (auto dest: gone_step answered_step)

lemma blocked_step:
  assumes "rpc_step e recv send s s'" and "pos s = Sending rid d ms" and "waiters s rid \<in> {Some Leaving, Some Gone}"
  shows "pos s' = Sending rid d ms \<and> outside s' = outside s"
  using assms by cases auto

lemma blocked_reach:
  assumes "rtranclp (rpc_step e recv send) s s'"
    and "pos s = Sending rid d ms" and "waiters s rid \<in> {Some Leaving, Some Gone}"
  shows "pos s' = Sending rid d ms \<and> outside s' = outside s \<and> waiters s' rid \<in> {Some Leaving, Some Gone}"
  using assms
proof (induction rule: rtranclp_induct)
  case (step y z)
  then have y: "pos y = Sending rid d ms" "outside y = outside s" "waiters y rid \<in> {Some Leaving, Some Gone}" by simp_all
  have "waiters z rid \<in> {Some Leaving, Some Gone}"
    using left_reach [of e recv send y z rid] step(2) y(3) by blast
  then show ?case using blocked_step [OF step(2) y(1,3)] y(2) by simp
qed simp

section \<open>Properties\<close>

text \<open>C12: Answers reach the call they are for, once. Whatever the interleaving of callers, timeouts
  and messages, a call that has been answered holds a response message that carries its own
  uuid; from then on no later message can replace that answer, and its entry in the
  table of pending calls is gone.
\<close>

theorem rpc_answered_once:
  assumes run: "rtranclp (rpc_step e recv send) (rpc_with hs w) s"
    and answered: "waiters s rid = Some (Answered d)"
    and later: "rtranclp (rpc_step e recv send) s s'"
  shows "FromBytes e (dm_Uuid d) = Inr rid \<and> dm_Type d = DISK_RPC_TYPE_RESPONSE \<and>
    waiters s' rid \<in> {Some (Answered d), Some Gone} \<and> rid \<notin> pending (rpc s')"
proof -
  have inv: "rpc_inv e s" "rpc_inv e s'"
    using rpc_inv_reach [OF run rpc_inv_start] rpc_inv_reach [OF rtranclp_trans [OF run later] rpc_inv_start]
    by simp_all
  have w: "waiters s' rid \<in> {Some (Answered d), Some Gone}"
    using answered_reach [OF later] answered by simp
  then have "rid \<notin> pending (rpc s')" using inv(2) by (auto simp: rpc_inv_def)
  then show ?thesis using inv(1) answered w by (auto simp: rpc_inv_def)
qed

text \<open>A codec on two messages, and a mailbox that delivers the answer to the call \<open>a\<close> forever.\<close>

definition answer_a :: DiskRpcMessage where
  "answer_a = \<lparr>dm_Time = None, dm_Type = DISK_RPC_TYPE_RESPONSE, dm_Channel = 0, dm_Uuid = ''a'',
     dm_Method = [], dm_Request = [], dm_Response = ''r'', dm_ErrorMsg = [], dm_ErrorCode = 0\<rparr>"

definition answer_env :: "(string, string) rpc_env" where
  "answer_env = \<lparr>Marshal = (\<lambda>_. Inr ''m''), Unmarshal = (\<lambda>_. Inr answer_a), req_Marshal = Inr,
     req_Unmarshal = (\<lambda>_. Inr), res_Marshal = Inr, res_Unmarshal = Inr, MarshalBinary = Inr,
     FromBytes = Inr, Error = (\<lambda>_. [])\<rparr>"

definition answer_recv :: "unit \<Rightarrow> (go_error + Message list) \<times> unit" where
  "answer_recv w = (Inr [\<lparr>Sender = 2, Recipient = 1, Payload = ''m''\<rparr>], w)"

definition no_send :: "Message \<Rightarrow> unit \<Rightarrow> (go_error + unit) \<times> unit" where
  "no_send m w = (Inr (), w)"

abbreviation a_step :: "(string, string, unit) rpc_sys \<Rightarrow> (string, string, unit) rpc_sys \<Rightarrow> bool" where
  "a_step \<equiv> rpc_step answer_env answer_recv no_send"

definition asked :: "(string, string, unit) rpc_sys" where
  "asked = \<lparr>rpc = \<lparr>handlers = Map.empty, pending = {''a''},
       outgoing = [\<lparr>Sender = 0, Recipient = 2, Payload = ''m''\<rparr>]\<rparr>,
     waiters = [''a'' \<mapsto> Waiting], pos = Idle, outside = ()\<rparr>"

definition sending :: "waiter \<Rightarrow> (string, string, unit) rpc_sys" where
  "sending x = asked\<lparr>rpc := (rpc asked)\<lparr>pending := {}\<rparr>, waiters := [''a'' \<mapsto> x],
     pos := Sending ''a'' answer_a []\<rparr>"

definition answered :: "(string, string, unit) rpc_sys" where
  "answered = (sending Waiting)\<lparr>pos := Busy [], waiters := [''a'' \<mapsto> Answered answer_a]\<rparr>"

lemma asked_step: "a_step (rpc_with Map.empty ()) asked"
proof -
  let ?s = "rpc_with Map.empty () :: (string, string, unit) rpc_sys"
  have "a_step ?s (?s\<lparr>rpc := rpc asked, waiters := (waiters ?s)(''a'' \<mapsto> Waiting)\<rparr>)"
  proof (rule rpc_step.call)
    show "waiters ?s ''a'' = None" by (simp add: rpc_with_def rpc_start_def)
    show "Invoke_request answer_env undefined ''a'' 0 ''M'' (Some ''q'') = Inr ''m''"
      by (simp add: Invoke_request_def answer_env_def)
    show "Invoke_schedule ''a'' 2 ''m'' (rpc ?s) = (Inr (), rpc asked)"
      by (simp add: Invoke_schedule_def rpc_with_def rpc_start_def NewDiskRpc_def asked_def)
  qed
  then show ?thesis by (simp add: asked_def rpc_with_def rpc_start_def)
qed

lemma received_step: "a_step asked (asked\<lparr>pos := Busy [\<lparr>Sender = 2, Recipient = 1, Payload = ''m''\<rparr>]\<rparr>)"
proof -
  have "a_step asked (asked\<lparr>pos := Busy [\<lparr>Sender = 2, Recipient = 1, Payload = ''m''\<rparr>], outside := ()\<rparr>)"
    by (rule rpc_step.receive) (simp_all add: asked_def answer_recv_def)
  then show ?thesis by (simp add: asked_def)
qed

lemma sending_step: "a_step (asked\<lparr>pos := Busy [\<lparr>Sender = 2, Recipient = 1, Payload = ''m''\<rparr>]\<rparr>) (sending Waiting)"
proof -
  have "a_step (asked\<lparr>pos := Busy [\<lparr>Sender = 2, Recipient = 1, Payload = ''m''\<rparr>]\<rparr>)
    ((asked\<lparr>pos := Busy [\<lparr>Sender = 2, Recipient = 1, Payload = ''m''\<rparr>]\<rparr>)
       \<lparr>rpc := (rpc asked)\<lparr>pending := {}\<rparr>, pos := Sending ''a'' answer_a [], outside := ()\<rparr>)"
    by (rule rpc_step.message [where now = undefined])
      (simp_all add: asked_def Handle_message_def handleResponse_def answer_env_def answer_a_def)
  then show ?thesis by (simp add: asked_def sending_def)
qed

lemma sending_run: "rtranclp a_step (rpc_with Map.empty ()) (sending Waiting)"
  by (rule rtranclp.rtrancl_into_rtrancl [OF rtranclp.rtrancl_into_rtrancl [OF
        r_into_rtranclp [of a_step, OF asked_step] received_step] sending_step])

lemma answered_step_a: "a_step (sending Waiting) answered"
proof -
  have "a_step (sending Waiting)
    ((sending Waiting)\<lparr>pos := Busy [], waiters := (waiters (sending Waiting))(''a'' \<mapsto> Answered answer_a)\<rparr>)"
    by (rule rpc_step.deliver) (simp_all add: sending_def asked_def)
  then show ?thesis by (simp add: answered_def sending_def asked_def)
qed

theorem rpc_answered_once_witness:
  "rtranclp a_step (rpc_with Map.empty ()) answered \<and> waiters answered ''a'' = Some (Answered answer_a) \<and>
   FromBytes answer_env (dm_Uuid answer_a) = Inr ''a'' \<and> ''a'' \<notin> pending (rpc answered)"
proof -
  have run: "rtranclp a_step (rpc_with Map.empty ()) answered"
    using sending_run answered_step_a by (rule rtranclp.rtrancl_into_rtrancl)
  have w: "waiters answered ''a'' = Some (Answered answer_a)" by (simp add: answered_def)
  show ?thesis using rpc_answered_once [OF run w rtranclp.rtrancl_refl] run w by blast
qed

text \<open>C36: The goroutine of \<open>Handle\<close> can block for good. The entry of a call is deleted before its
  answer is sent on the unbuffered channel; when the call times out between the two, nobody
  reads the channel any more: whatever the other goroutines do, the handler stays at that send, and no message is
  received or sent by this node again.
\<close>

theorem Handle_blocks_forever:
  assumes "pos s = Sending rid d ms" and "waiters s rid \<in> {Some Leaving, Some Gone}"
    and "rtranclp (rpc_step e recv send) s s'"
  shows "pos s' = Sending rid d ms \<and> outside s' = outside s"
  using blocked_reach [OF assms(3,1,2)] by simp

lemma expire_step: "a_step (sending Waiting) (sending Leaving)"
proof -
  have "a_step (sending Waiting) ((sending Waiting)\<lparr>waiters := (waiters (sending Waiting))(''a'' \<mapsto> Leaving)\<rparr>)"
    by (rule rpc_step.expire) (simp add: sending_def)
  then show ?thesis by (simp add: sending_def asked_def)
qed

theorem Handle_blocks_forever_witness:
  "rtranclp a_step (rpc_with Map.empty ()) (sending Leaving) \<and>
   {s'. rtranclp a_step (sending Leaving) s'} \<subseteq> {s'. pos s' = Sending ''a'' answer_a []}"
proof (intro conjI subsetI CollectI)
  show "rtranclp a_step (rpc_with Map.empty ()) (sending Leaving)"
    using sending_run expire_step by (rule rtranclp.rtrancl_into_rtrancl)
  fix s' assume "s' \<in> {s'. rtranclp a_step (sending Leaving) s'}"
  then have r: "rtranclp a_step (sending Leaving) s'" by simp
  have "pos (sending Leaving) = Sending ''a'' answer_a []" "waiters (sending Leaving) ''a'' \<in> {Some Leaving, Some Gone}"
    by (simp_all add: sending_def)
  from Handle_blocks_forever [OF this r] show "pos s' = Sending ''a'' answer_a []" by simp
qed

text \<open>What the calls rely on from the codec: what has been written is read back.\<close>

definition faithful :: "('q, 'r) rpc_env \<Rightarrow> bool" where
  "faithful e \<longleftrightarrow>
     (\<forall>m buf. Marshal e m = Inr buf \<longrightarrow> Unmarshal e buf = Inr m) \<and>
     (\<forall>meth q buf. req_Marshal e q = Inr buf \<longrightarrow> req_Unmarshal e meth buf = Inr q) \<and>
     (\<forall>r buf. res_Marshal e r = Inr buf \<longrightarrow> res_Unmarshal e buf = Inr r) \<and>
     (\<forall>rid b. MarshalBinary e rid = Inr b \<longrightarrow> FromBytes e b = Inr rid)"

text \<open>What the caller sees of an error of the handler: its code and its text.\<close>

definition remote_error :: "('q, 'r) rpc_env \<Rightarrow> go_error option \<Rightarrow> go_error option" where
  "remote_error e err = (case err of None \<Rightarrow> None | Some x \<Rightarrow> status_Error (error_code x) (Error e x))"

lemma Invoke_request_sent:
  assumes "Invoke_request e now rid ch method (Some q) = Inr buf" and "faithful e"
  obtains d where "Unmarshal e buf = Inr d" and "dm_Type d = DISK_RPC_TYPE_REQUEST" and "dm_Channel d = 0"
    and "FromBytes e (dm_Uuid d) = Inr rid" and "dm_Method d = method"
    and "req_Unmarshal e method (dm_Request d) = Inr q"
proof -
  obtain b where b: "req_Marshal e q = Inr b"
    using assms(1) by (cases "req_Marshal e q") (auto simp: Invoke_request_def)
  obtain u where u: "MarshalBinary e rid = Inr u"
    using assms(1) b by (cases "MarshalBinary e rid") (auto simp: Invoke_request_def)
  let ?d = "\<lparr>dm_Time = Some now, dm_Type = DISK_RPC_TYPE_REQUEST, dm_Channel = 0,
     dm_Uuid = u, dm_Method = method, dm_Request = b, dm_Response = [], dm_ErrorMsg = [], dm_ErrorCode = 0\<rparr>"
  have "Marshal e ?d = Inr buf"
    using assms(1) b u by (cases "Marshal e ?d") (auto simp: Invoke_request_def)
  then have "Unmarshal e buf = Inr ?d" using assms(2) by (simp add: faithful_def)
  then show thesis
    using that [of ?d] b u assms(2) by (simp add: faithful_def)
qed

lemma Invoke_result_response:
  assumes "faithful e" and "(case res of None \<Rightarrow> Inr [] | Some r \<Rightarrow> res_Marshal e r) = Inr rb"
    and "\<And>x. err = Some x \<Longrightarrow> error_code x \<in> set named_codes"
  shows "Invoke_result e (response_message e now d rb err) = (remote_error e err, if rb = [] then None else res)"
proof -
  have r: "rb \<noteq> [] \<Longrightarrow> \<exists>r. res = Some r \<and> res_Unmarshal e rb = Inr r"
    using assms(1,2) by (cases res) (auto simp: faithful_def)
  show ?thesis
  proof (cases err)
    case None
    then show ?thesis
      using r by (cases "rb = []") (auto simp: Invoke_result_def response_message_def remote_error_def)
  next
    case (Some x)
    have c: "code_of_number (code_number (error_code x)) = error_code x"
      using assms(3) [OF Some] by (rule code_of_code_number)
    have z: "code_number (error_code x) = 0 \<Longrightarrow> error_code x = OK"
      using assms(3) [OF Some] by (auto simp: named_codes_def)
    show ?thesis
      using r Some c z by (cases "rb = []")
        (auto simp: Invoke_result_def response_message_def remote_error_def status_Error_def)
  qed
qed

text \<open>C13: A remote call returns what the handler returned. With a codec that reads back
  what it wrote, the request of \<open>Invoke\<close> makes the node that receives it run the method registered on
  channel 0, whatever channel the caller named, on the caller's argument, and queue one message for the sender; when
  that message comes back, the pending call is found by its uuid and \<open>Invoke\<close> returns the
  handler's response, and an error with the code and the text of the handler's error.
\<close>

theorem Invoke_returns_remote_result:
  assumes codec: "faithful e"
    and req: "Invoke_request e now rid ch method (Some q) = Inr buf"
    and target: "handlers b 0 = Some t" and meth: "t method = Some m" and run: "m q w = ((res, err), w')"
    and codes: "\<forall>x. err = Some x \<longrightarrow> error_code x \<in> set named_codes"
    and out: "(case res of None \<Rightarrow> Inr [] | Some r \<Rightarrow> res_Marshal e r) = Inr rb"
    and sent: "\<forall>d. Unmarshal e buf = Inr d \<longrightarrow> (\<exists>x. Marshal e (response_message e now' d rb err) = Inr x)"
    and room: "length (outgoing b) \<le> 256" and waits: "rid \<in> pending a"
  shows "\<exists>d buf' d'. Unmarshal e buf = Inr d \<and>
    handleRequest e now' sender d (b, w) =
      (None, b\<lparr>outgoing := outgoing b @ [\<lparr>Sender = 0, Recipient = sender, Payload = buf'\<rparr>]\<rparr>, w') \<and>
    Unmarshal e buf' = Inr d' \<and>
    handleResponse e d' a = (Inr rid, a\<lparr>pending := pending a - {rid}\<rparr>) \<and>
    Invoke_result e d' = (remote_error e err, if rb = [] then None else res)"
proof -
  obtain d where d: "Unmarshal e buf = Inr d" "dm_Channel d = 0" "FromBytes e (dm_Uuid d) = Inr rid"
      "dm_Method d = method" "req_Unmarshal e method (dm_Request d) = Inr q"
    using Invoke_request_sent [OF req codec] by blast
  obtain x where x: "Marshal e (response_message e now' d rb err) = Inr x"
    using sent d(1) by blast
  have "Unmarshal e x = Inr (response_message e now' d rb err)"
    using codec x by (simp add: faithful_def)
  moreover have "handleRequest e now' sender d (b, w) =
      (None, b\<lparr>outgoing := outgoing b @ [\<lparr>Sender = 0, Recipient = sender, Payload = x\<rparr>]\<rparr>, w')"
    using d target meth run out x room by (simp add: handleRequest_def)
  moreover have "handleResponse e (response_message e now' d rb err) a = (Inr rid, a\<lparr>pending := pending a - {rid}\<rparr>)"
    using d(3) waits by (simp add: handleResponse_def response_message_def)
  moreover have "Invoke_result e (response_message e now' d rb err) = (remote_error e err, if rb = [] then None else res)"
    using Invoke_result_response [OF codec out] codes by blast
  ultimately show ?thesis using d(1) by blast
qed

text \<open>Two messages of a table codec: a call of \<open>M\<close> and the refusal it gets.\<close>

definition m_time :: Timestamp where
  "m_time = \<lparr>seconds = 7, nanos = 0\<rparr>"

definition m_request :: DiskRpcMessage where
  "m_request = \<lparr>dm_Time = Some m_time, dm_Type = DISK_RPC_TYPE_REQUEST, dm_Channel = 0, dm_Uuid = ''a'',
     dm_Method = ''M'', dm_Request = ''q'', dm_Response = [], dm_ErrorMsg = [], dm_ErrorCode = 0\<rparr>"

definition m_refusal :: DiskRpcMessage where
  "m_refusal = \<lparr>dm_Time = Some m_time, dm_Type = DISK_RPC_TYPE_RESPONSE, dm_Channel = 0, dm_Uuid = ''a'',
     dm_Method = [], dm_Request = [], dm_Response = [], dm_ErrorMsg = ''no'', dm_ErrorCode = 5\<rparr>"

definition m_env :: "(string, string) rpc_env" where
  "m_env = \<lparr>
     Marshal = (\<lambda>m. if m = m_request then Inr ''1'' else if m = m_refusal then Inr ''2'' else Inl (Plain ''big'')),
     Unmarshal = (\<lambda>b. if b = ''1'' then Inr m_request else if b = ''2'' then Inr m_refusal else Inl (Plain ''bad'')),
     req_Marshal = Inr, req_Unmarshal = (\<lambda>_. Inr), res_Marshal = Inr, res_Unmarshal = Inr,
     MarshalBinary = Inr, FromBytes = Inr, Error = (\<lambda>_. ''no'')\<rparr>"

definition m_server :: "(string, string, nat) diskRpc" where
  "m_server = NewDiskRpc\<lparr>handlers :=
     [0 \<mapsto> [''M'' \<mapsto> (\<lambda>q n. ((None, Some (Status NotFound ''no'')), Suc n))]]\<rparr>"

lemma m_env_faithful: "faithful m_env"
  by (auto simp: faithful_def m_env_def m_request_def m_refusal_def split: if_splits)

theorem Invoke_returns_remote_result_witness:
  "\<exists>d buf' d'. Unmarshal m_env ''1'' = Inr d \<and>
    handleRequest m_env m_time 3 d (m_server, 0) =
      (None, m_server\<lparr>outgoing := [\<lparr>Sender = 0, Recipient = 3, Payload = buf'\<rparr>]\<rparr>, 1) \<and>
    Unmarshal m_env buf' = Inr d' \<and>
    Invoke_result m_env d' = (Some (Status NotFound ''no''), None)"
proof -
  let ?m = "\<lambda>q n. ((None, Some (Status NotFound ''no'')), Suc n)"
  let ?a = "(NewDiskRpc :: (string, string, nat) diskRpc)\<lparr>pending := {''a''}\<rparr>"
  have r: "Invoke_request m_env m_time ''a'' 5 ''M'' (Some ''q'') = Inr ''1''"
    by (simp add: Invoke_request_def m_env_def m_request_def)
  have p: "response_message m_env m_time m_request [] (Some (Status NotFound ''no'')) = m_refusal"
    by (simp add: response_message_def m_env_def m_request_def m_refusal_def)
  have s: "\<forall>d. Unmarshal m_env ''1'' = Inr d \<longrightarrow>
      (\<exists>x. Marshal m_env (response_message m_env m_time d [] (Some (Status NotFound ''no''))) = Inr x)"
    using p by (simp add: m_env_def)
  have t: "handlers m_server 0 = Some [''M'' \<mapsto> ?m]" by (simp add: m_server_def)
  have c: "\<forall>x. Some (Status NotFound ''no'') = Some x \<longrightarrow> error_code x \<in> set named_codes"
    by (simp add: named_codes_def)
  have o: "outgoing m_server = []" by (simp add: m_server_def NewDiskRpc_def)
  have e: "remote_error m_env (Some (Status NotFound ''no'')) = Some (Status NotFound ''no'')"
    by (simp add: remote_error_def status_Error_def m_env_def)
  show ?thesis
    using Invoke_returns_remote_result [OF m_env_faithful r t _ _ c _ s, where m = ?m and w = 0 and w' = 1
        and res = None and sender = 3 and a = ?a] o e by auto
qed

end
