(* ===== verification/DiskRpcService.thy ===== *)
theory DiskRpcService
  imports DriverOps DiskRpc
begin

text \<open>
  The RPC service of the driver, \<^verbatim>\<open>pkg/driverd/diskrpcservice.go\<close>: how it finds and activates the
  two volumes it needs, and the adapter that turns the volume locker into the lock of the mailbox, which retries
  until it succeeds. Opening the mailbox on the data volume is a parameter here.
\<close>

section \<open>The code\<close>

definition rpcRoleLock :: string where "rpcRoleLock = ''lock''"

definition rpcRoleData :: string where "rpcRoleData = ''data''"

definition diskRpcOp :: string where "diskRpcOp = ''diskRpc''"

text \<open>Durations are in nanoseconds.\<close>

definition maxRpcRetryDelay :: nat where
  "maxRpcRetryDelay = 120 * 10 ^ 9"

definition next_delay :: "nat \<Rightarrow> nat" where
  "next_delay delay = (if delay < maxRpcRetryDelay then 2 * delay else delay)"

text \<open>
  The retry loop; \<open>None\<close> when it never returns (or the locker panics). \<open>sleep\<close> lets the rest of the
  world go on for that long.
\<close>

partial_function (option) retry_loop ::
  "('s \<Rightarrow> (go_error option \<times> 's) option) \<Rightarrow> (nat \<Rightarrow> 's \<Rightarrow> 's) \<Rightarrow> nat \<Rightarrow> 's \<Rightarrow> 's option" where
  "retry_loop request sleep delay s =
     (case request s of
        None \<Rightarrow> None
      | Some (r, s') \<Rightarrow>
          (if r = None then Some s' else retry_loop request sleep (next_delay delay) (sleep delay s')))"

definition adapter_Lock :: "'s VolumeLocker \<Rightarrow> (nat \<Rightarrow> 's \<Rightarrow> 's) \<Rightarrow> VolumeRef \<Rightarrow> 's \<Rightarrow> 's option" where
  "adapter_Lock locker sleep vol = retry_loop (vl_Lock locker vol diskRpcOp) sleep (10 ^ 9)"

definition adapter_Unlock :: "'s VolumeLocker \<Rightarrow> (nat \<Rightarrow> 's \<Rightarrow> 's) \<Rightarrow> VolumeRef \<Rightarrow> 's \<Rightarrow> 's option" where
  "adapter_Unlock locker sleep vol = retry_loop (vl_Unlock locker vol diskRpcOp) sleep 1"

text \<open>The loop of \<^verbatim>\<open>NewDiskRpcService\<close> over the volumes that carry a role.\<close>

fun find_roles ::
  "LogicalVolume list \<Rightarrow> VolumeRef option \<Rightarrow> VolumeRef option \<Rightarrow> go_error + VolumeRef option \<times> VolumeRef option" where
  "find_roles [] lock data = Inr (lock, data)"
| "find_roles (lv # lvs) lock data =
     (let ref = NewVolumeInfoFromLv lv in
      case volume_Tags ref of
        Inl _ \<Rightarrow> Inl (Plain ''failed to decode tags for volume %q: %v'')
      | Inr tags \<Rightarrow>
          let role = (case map_of tags rpcRoleTagKey of None \<Rightarrow> '''' | Some r \<Rightarrow> r) in
          if role = rpcRoleLock then
            if lock \<noteq> None then Inl (Plain ''found multiple logical volumes tagged with the %s RPC role'')
            else find_roles lvs (Some (fst ref)) data
          else if role = rpcRoleData then
            if data \<noteq> None then Inl (Plain ''found multiple logical volumes tagged with the %s RPC role'')
            else find_roles lvs lock (Some (fst ref))
          else find_roles lvs lock data)"

definition NewDiskRpcService ::
  "'s LvmCtrldClient \<Rightarrow> (nat \<Rightarrow> VolumeRef \<Rightarrow> string \<Rightarrow> ('s, 'm) op) \<Rightarrow> ('s, nat \<times> VolumeRef \<times> 'm) op" where
  "NewDiskRpcService client new_mailbox =
     andthen (perform (newBaseServer client)) (\<lambda>bs.
     andthen (or_fail (perform (cl_Lvs client
         \<lparr>lvs_Select = ''lv_tags='' @ encodeTagKV rpcRoleTagKey rpcRoleData @ '' || lv_tags='' @
             encodeTagKV rpcRoleTagKey rpcRoleLock,
          lvs_Sort = [], lvs_Target = []\<rparr>)) (\<lambda>_. Plain ''failed to list logical volumes: %v'')) (\<lambda>lvs.
     andthen (of_result (find_roles lvs None None)) (\<lambda>(lock, data).
     case (lock, data) of
       (Some l, Some d) \<Rightarrow>
         andthen (or_fail (perform (cl_LvChange client (activate_request d LV_ACTIVATION_MODE_ACTIVE_SHARED)))
           (\<lambda>_. Plain ''failed to activate rpc data logical volume: %v'')) (\<lambda>_.
         andthen (or_fail (new_mailbox (nodeID bs) l (ref_DevPath d)) (\<lambda>_. Plain ''failed to instance mailbox: %v'')) (\<lambda>mb.
         ok (nodeID bs, l, mb)))
     | _ \<Rightarrow> throw (Plain ''missing lock or data logical volumes (expected [%s%s, %s%s] tags)''))))"

section \<open>The retry loop\<close>

text \<open>The state in which the \<open>n\<close>-th attempt is made, when those before it were refused.\<close>

fun after_refusals ::
  "('s \<Rightarrow> (go_error option \<times> 's) option) \<Rightarrow> (nat \<Rightarrow> 's \<Rightarrow> 's) \<Rightarrow> nat \<Rightarrow> nat \<Rightarrow> 's \<Rightarrow> 's option" where
  "after_refusals request sleep delay 0 s = Some s"
| "after_refusals request sleep delay (Suc n) s =
     (case request s of
        Some (Some _, s') \<Rightarrow> after_refusals request sleep (next_delay delay) n (sleep delay s')
      | _ \<Rightarrow> None)"

lemma retry_loop_return:
  "after_refusals request sleep delay n s = Some s1 \<Longrightarrow> request s1 = Some (None, s2) \<Longrightarrow>
   retry_loop request sleep delay s = Some s2"
proof (induction n arbitrary: delay s)
  case 0
  then show ?case by (simp add: retry_loop.simps)
next
  case (Suc n)
  from Suc.prems(1) obtain e s' where "request s = Some (Some e, s')"
      "after_refusals request sleep (next_delay delay) n (sleep delay s') = Some s1"
    by (auto split: option.splits prod.splits)
  then show ?case using Suc.IH Suc.prems(2) by (subst retry_loop.simps) simp
qed

lemma retry_loop_returned:
  assumes "retry_loop request sleep delay s = Some s2"
  shows "\<exists>n s1. after_refusals request sleep delay n s = Some s1 \<and> request s1 = Some (None, s2)"
proof (rule retry_loop.raw_induct [OF _ assms])
  fix retry request s' and sleep :: "nat \<Rightarrow> 'a \<Rightarrow> 'a" and delay and s t :: 'a
  assume IH: "\<And>request sleep delay s t. retry request sleep delay s = Some t \<Longrightarrow>
      \<exists>n s1. after_refusals request sleep delay n s = Some s1 \<and> request s1 = Some (None, t)"
    and run: "(case request s of None \<Rightarrow> None
       | Some (r, s') \<Rightarrow> if r = None then Some s' else retry request sleep (next_delay delay) (sleep delay s')) = Some t"
  obtain r s' where r: "request s = Some (r, s')" using run by (auto split: option.splits)
  show "\<exists>n s1. after_refusals request sleep delay n s = Some s1 \<and> request s1 = Some (None, t)"
  proof (cases r)
    case None
    then show ?thesis using run r by (intro exI [of _ 0] exI [of _ s]) simp
  next
    case (Some e)
    then obtain n s1 where "after_refusals request sleep (next_delay delay) n (sleep delay s') = Some s1"
        "request s1 = Some (None, t)" using run r IH by fastforce
    then show ?thesis using r Some by (intro exI [of _ "Suc n"] exI [of _ s1]) simp
  qed
qed

text \<open>The \<open>n\<close>-th wait of the loop.\<close>

fun wait_of :: "nat \<Rightarrow> nat \<Rightarrow> nat" where
  "wait_of delay 0 = delay"
| "wait_of delay (Suc n) = wait_of (next_delay delay) n"

lemma wait_of_capped: "maxRpcRetryDelay \<le> d \<Longrightarrow> wait_of d n = d"
  by (induction n arbitrary: d) (auto simp: next_delay_def)

lemma wait_of_doubles:
  "\<forall>j < k. d * 2 ^ j < maxRpcRetryDelay \<Longrightarrow> maxRpcRetryDelay \<le> d * 2 ^ k \<Longrightarrow> wait_of d n = d * 2 ^ min n k"
proof (induction k arbitrary: d n)
  case 0
  then show ?case by (simp add: wait_of_capped)
next
  case (Suc k)
  have d: "next_delay d = 2 * d" using Suc.prems(1) by (auto simp: next_delay_def)
  have "\<forall>j < k. 2 * d * 2 ^ j < maxRpcRetryDelay" using Suc.prems(1) by (auto simp: algebra_simps dest: spec [of _ "Suc _"])
  moreover have "maxRpcRetryDelay \<le> 2 * d * 2 ^ k" using Suc.prems(2) by simp
  ultimately show ?case using Suc.IH [of "2 * d"] d by (cases n) simp_all
qed

lemma doubling_start:
  assumes "0 < k" and "d * 2 ^ (k - 1) < maxRpcRetryDelay"
  shows "\<forall>j < k. d * 2 ^ j < maxRpcRetryDelay"
proof (intro allI impI)
  fix j assume "j < k"
  then have "(2::nat) ^ j \<le> 2 ^ (k - 1)" by (intro power_increasing) auto
  then have "d * 2 ^ j \<le> d * 2 ^ (k - 1)" by simp
  with assms(2) show "d * 2 ^ j < maxRpcRetryDelay" by linarith
qed

lemma lock_waits: "wait_of (10 ^ 9) n = 10 ^ 9 * 2 ^ min n 7"
  by (rule wait_of_doubles [OF doubling_start]) (simp_all add: maxRpcRetryDelay_def)

lemma unlock_waits: "wait_of 1 n = 2 ^ min n 37"
  using wait_of_doubles [OF doubling_start, of 37 1 n] by (simp add: maxRpcRetryDelay_def)

text \<open>C29: Taking the lock of the mailbox returns exactly when some attempt is granted, and then the lock is held:
  \<open>adapter_Lock\<close> returns the state after the first granted attempt, in which the driver's own operation
  holds the lock volume; when it does not return, no attempt is ever granted (or one panics). Between two
  attempts it waits one second, then twice as long each time, up to 128 seconds and not the
  120 named as the maximum; \<open>adapter_Unlock\<close> does the same from one nanosecond on, up to 137 seconds.
\<close>

theorem adapter_Lock_returns:
  "(case adapter_Lock (locker_of vl) sleep vol s of
      Some s' \<Rightarrow>
        (\<exists>n s1. after_refusals (LockVolume vl vol diskRpcOp) sleep (10 ^ 9) n s = Some s1 \<and>
           LockVolume vl vol diskRpcOp s1 = Some (None, s')) \<and>
        (ref_VgLv vol, diskRpcOp) \<in> holders s'
    | None \<Rightarrow>
        (\<nexists>n s1 s'. after_refusals (LockVolume vl vol diskRpcOp) sleep (10 ^ 9) n s = Some s1 \<and>
           LockVolume vl vol diskRpcOp s1 = Some (None, s'))) \<and>
   wait_of (10 ^ 9) n = 10 ^ 9 * 2 ^ min n 7 \<and> wait_of 1 n = 2 ^ min n 37"
proof (intro conjI)
  let ?lock = "LockVolume vl vol diskRpcOp"
  show "case adapter_Lock (locker_of vl) sleep vol s of
      Some s' \<Rightarrow> (\<exists>n s1. after_refusals ?lock sleep (10 ^ 9) n s = Some s1 \<and> ?lock s1 = Some (None, s')) \<and>
        (ref_VgLv vol, diskRpcOp) \<in> holders s'
    | None \<Rightarrow> (\<nexists>n s1 s'. after_refusals ?lock sleep (10 ^ 9) n s = Some s1 \<and> ?lock s1 = Some (None, s'))"
  proof (cases "adapter_Lock (locker_of vl) sleep vol s")
    case None
    have "False" if "after_refusals ?lock sleep (10 ^ 9) n s = Some s1" "?lock s1 = Some (None, s')" for n s1 s'
      using retry_loop_return [OF that] None by (simp add: adapter_Lock_def)
    then show ?thesis unfolding None option.case by blast
  next
    case (Some s')
    then obtain n s1 where n: "after_refusals ?lock sleep (10 ^ 9) n s = Some s1" "?lock s1 = Some (None, s')"
      using retry_loop_returned [of ?lock sleep "10 ^ 9" s s'] by (auto simp: adapter_Lock_def)
    have "(ref_VgLv vol, diskRpcOp) \<in> holders s'" using LockVolume_holders [OF n(2)] by simp
    with n show ?thesis unfolding Some option.case by blast
  qed
qed (rule lock_waits unlock_waits)+

section \<open>The two volumes\<close>

definition role_of :: "LogicalVolume \<Rightarrow> string" where
  "role_of lv =
     (case volume_Tags (NewVolumeInfoFromLv lv) of
        Inl _ \<Rightarrow> ''''
      | Inr tags \<Rightarrow> (case map_of tags rpcRoleTagKey of None \<Rightarrow> '''' | Some r \<Rightarrow> r))"

definition with_role :: "string \<Rightarrow> LogicalVolume list \<Rightarrow> VolumeRef list" where
  "with_role r lvs = map NewVolumeRefFromLv (filter (\<lambda>lv. role_of lv = r) lvs)"

lemma with_role_simps [simp]:
  "with_role r [] = []"
  "with_role r (lv # lvs) = (if role_of lv = r then [NewVolumeRefFromLv lv] else []) @ with_role r lvs"
  by (simp_all add: with_role_def)

definition list_of :: "'a option \<Rightarrow> 'a list" where
  "list_of x = (case x of None \<Rightarrow> [] | Some y \<Rightarrow> [y])"

lemma list_of_simps [simp]: "list_of None = []" "list_of (Some y) = [y]"
  by (simp_all add: list_of_def)

lemma info_ref: "fst (NewVolumeInfoFromLv lv) = NewVolumeRefFromLv lv"
  by (simp add: NewVolumeInfoFromLv_def NewVolumeRefFromLv_def)

lemma roles_differ: "rpcRoleLock \<noteq> rpcRoleData"
  by (simp add: rpcRoleLock_def rpcRoleData_def)

lemma find_roles_step:
  "volume_Tags (NewVolumeInfoFromLv lv) = Inr tags \<Longrightarrow>
   find_roles (lv # lvs) lock data =
     (if role_of lv = rpcRoleLock then
        (if lock \<noteq> None then Inl (Plain ''found multiple logical volumes tagged with the %s RPC role'')
         else find_roles lvs (Some (NewVolumeRefFromLv lv)) data)
      else if role_of lv = rpcRoleData then
        (if data \<noteq> None then Inl (Plain ''found multiple logical volumes tagged with the %s RPC role'')
         else find_roles lvs lock (Some (NewVolumeRefFromLv lv)))
      else find_roles lvs lock data)"
  by (simp add: role_of_def info_ref Let_def)

text \<open>What is found are all the volumes of each role, at most one.\<close>

lemma find_roles_found:
  "find_roles lvs lock data = Inr (lock', data') \<Longrightarrow>
   list_of lock @ with_role rpcRoleLock lvs = list_of lock' \<and>
   list_of data @ with_role rpcRoleData lvs = list_of data'"
proof (induction lvs arbitrary: lock data)
  case (Cons lv lvs)
  then obtain tags where t: "volume_Tags (NewVolumeInfoFromLv lv) = Inr tags"
    by (auto simp: Let_def split: sum.splits)
  note step = find_roles_step [OF t, of lvs lock data] and run = Cons.prems
  consider "role_of lv = rpcRoleLock" | "role_of lv = rpcRoleData" "role_of lv \<noteq> rpcRoleLock"
    | "role_of lv \<noteq> rpcRoleData" "role_of lv \<noteq> rpcRoleLock" by blast
  then show ?case
  proof cases
    case 1
    then show ?thesis
      using run step roles_differ Cons.IH [of "Some (NewVolumeRefFromLv lv)" data] by (cases lock) auto
  next
    case 2
    then show ?thesis
      using run step Cons.IH [of lock "Some (NewVolumeRefFromLv lv)"] by (cases data) auto
  next
    case 3
    then show ?thesis using run step Cons.IH [of lock data] by simp
  qed
qed simp

end
