(* ===== verification/Node.thy ===== *)
theory Node
  imports DriverOps
begin

text \<open>
  The node service, \<^verbatim>\<open>pkg/driverd/nodeserver.go\<close>: staging and publishing volumes on a node, their statistics and
  their growth. The handlers are operations on the state behind \<open>nodeServer\<close>: the daemon, the volume
  locker and the file systems; \<open>lvsVolume\<close> is in \<^verbatim>\<open>DriverOps\<close>.
\<close>

section \<open>State and requests\<close>

record 's nodeServer =
  ns_nodeID :: nat
  ns_lvmctrld :: "'s LvmCtrldClient"
  ns_volumeLock :: "'s VolumeLocker"
  ns_GetFileSystem :: "string \<Rightarrow> go_error + 's FileSystem"

record NodePublishVolumeRequest =
  np_VolumeId :: string
  np_VolumeCapability :: "VolumeCapability option"
  np_TargetPath :: string
  np_StagingTargetPath :: string
  np_Readonly :: bool

record NodeUnpublishVolumeRequest =
  nu_VolumeId :: string
  nu_TargetPath :: string

record NodeStageVolumeRequest =
  st_VolumeId :: string
  st_VolumeCapability :: "VolumeCapability option"
  st_StagingTargetPath :: string

record NodeUnstageVolumeRequest =
  us_VolumeId :: string
  us_StagingTargetPath :: string

record NodeGetVolumeStatsRequest =
  gs_VolumeId :: string
  gs_VolumePath :: string

record NodeExpandVolumeRequest =
  ne_VolumeId :: string
  ne_VolumePath :: string
  ne_CapacityRange :: "CapacityRange option"

datatype VolumeUsage_Unit = VolumeUsage_BYTES | VolumeUsage_INODES

record VolumeUsage =
  Available :: int
  Total :: int
  Used :: int
  Unit :: VolumeUsage_Unit

definition topologyKeyNode :: string where "topologyKeyNode = ''csi-sanlock-lvm/topology''"

definition nodeCapabilities :: "string list" where
  "nodeCapabilities = [''EXPAND_VOLUME'', ''GET_VOLUME_STATS'', ''STAGE_UNSTAGE_VOLUME'', ''VOLUME_MOUNT_GROUP'']"

definition NewNodeServer ::
  "'s LvmCtrldClient \<Rightarrow> 's VolumeLocker \<Rightarrow> (string \<Rightarrow> go_error + 's FileSystem) \<Rightarrow> ('s, 's nodeServer) op" where
  "NewNodeServer client locker registry =
     andthen (or_fail (perform (cl_GetStatus client))
       (\<lambda>_. Plain ''failed to retrieve status from lvmctrld: %v'')) (\<lambda>st.
     ok \<lparr>ns_nodeID = st mod 2 ^ 16, ns_lvmctrld = client, ns_volumeLock = locker, ns_GetFileSystem = registry\<rparr>)"

text \<open>The id of the node and its topology; the order of the capabilities is the one Go walks the map in.\<close>

definition NodeGetInfo :: "'s nodeServer \<Rightarrow> ('s, string \<times> (string \<times> string) list) op" where
  "NodeGetInfo ns = (let node = decimal (ns_nodeID ns) in ok (node, [(topologyKeyNode, node)]))"

definition NodeGetCapabilities :: "(string list \<Rightarrow> string list) \<Rightarrow> 's nodeServer \<Rightarrow> ('s, string list) op" where
  "NodeGetCapabilities order ns = ok (order nodeCapabilities)"

section \<open>Shared steps\<close>

definition getAccessType :: "VolumeCapability \<Rightarrow> go_error + VolumeAccessType" where
  "getAccessType volCap =
     (if (\<not> GetBlock volCap) = (GetMount volCap = None) then Inl (Status InvalidArgument ''inconsistent access type'')
      else if GetMount volCap \<noteq> None then Inr MountAccessType
      else Inr BlockAccessType)"

definition invalid_volume :: "go_error \<Rightarrow> go_error" where
  "invalid_volume err = Status InvalidArgument ''invalid volume id: %v''"

text \<open>The logical volume and the file system its tag names, as every handler retrieves them.\<close>

definition volume_fs :: "'s nodeServer \<Rightarrow> VolumeRef \<Rightarrow> ('s, LogicalVolume \<times> 's FileSystem) op" where
  "volume_fs ns vol =
     andthen (lvsVolume (ns_lvmctrld ns) vol) (\<lambda>lv.
     andthen (or_fail (of_result (decodeTags (lv_LvTags lv)))
       (\<lambda>_. Status Internal ''failed to decode tags for volume %q: %v'')) (\<lambda>tags.
     case map_of tags fsTagKey of
       None \<Rightarrow> throw (Status Internal ''volume %q is missing filesystem type'')
     | Some fsName \<Rightarrow>
         andthen (or_fail (of_result (ns_GetFileSystem ns fsName))
           (\<lambda>_. Status Internal ''volume %q has an invalid filesystem: %v'')) (\<lambda>fs. ok (lv, fs))))"

section \<open>Publishing\<close>

definition NodePublishVolume :: "'s nodeServer \<Rightarrow> NodePublishVolumeRequest \<Rightarrow> ('s, unit) op" where
  "NodePublishVolume ns req =
     andthen (require (np_VolumeId req \<noteq> []) (Status InvalidArgument ''missing volume id'')) (\<lambda>_.
     case np_VolumeCapability req of
       None \<Rightarrow> throw (Status InvalidArgument ''missing volume capability'')
     | Some volCap \<Rightarrow>
         andthen (require (np_TargetPath req \<noteq> []) (Status InvalidArgument ''missing target path'')) (\<lambda>_.
         andthen (require (np_StagingTargetPath req \<noteq> [])
           (Status InvalidArgument ''missing staging target path'')) (\<lambda>_.
         andthen (of_result (getAccessType volCap)) (\<lambda>accessType.
         andthen (or_fail (of_result (NewVolumeRefFromID (np_VolumeId req))) invalid_volume) (\<lambda>vol.
         andthen (volume_fs ns vol) (\<lambda>(lv, fs).
         andthen (require (Accepts fs accessType)
           (Status InvalidArgument ''incompatible access type for this volume'')) (\<lambda>_.
         run_err (Publish fs (ref_DevPath vol) (np_StagingTargetPath req) (np_TargetPath req) (np_Readonly req)))))))))"

definition NodeUnpublishVolume :: "'s nodeServer \<Rightarrow> NodeUnpublishVolumeRequest \<Rightarrow> ('s, unit) op" where
  "NodeUnpublishVolume ns req =
     andthen (require (nu_VolumeId req \<noteq> []) (Status InvalidArgument ''missing volume id'')) (\<lambda>_.
     andthen (require (nu_TargetPath req \<noteq> []) (Status InvalidArgument ''missing target path'')) (\<lambda>_.
     andthen (or_fail (of_result (NewVolumeRefFromID (nu_VolumeId req))) invalid_volume) (\<lambda>vol.
     andthen (volume_fs ns vol) (\<lambda>(lv, fs).
     run_err (Unpublish fs (nu_TargetPath req))))))"

section \<open>Staging\<close>

text \<open>The group of the volume: only a mount has one, and it is a number.\<close>

definition mount_group :: "VolumeCapability \<Rightarrow> VolumeAccessType \<Rightarrow> go_error + int option" where
  "mount_group volCap accessType =
     (if accessType = MountAccessType then
        (let volumeMountGroup = (case GetMount volCap of None \<Rightarrow> [] | Some m \<Rightarrow> VolumeMountGroup m) in
         if volumeMountGroup = [] then Inr None
         else case atoi volumeMountGroup of
           None \<Rightarrow> Inl (Status InvalidArgument ''invalid volume mount group %q: %v'')
         | Some gid \<Rightarrow> Inr (Some gid))
      else Inr None)"

text \<open>The checks before anything is touched.\<close>

definition stage_request ::
  "NodeStageVolumeRequest \<Rightarrow> go_error + VolumeRef \<times> VolumeCapability \<times> VolumeAccessType \<times> int option" where
  "stage_request req =
     (if st_VolumeId req = [] then Inl (Status InvalidArgument ''missing volume id'')
      else case st_VolumeCapability req of
        None \<Rightarrow> Inl (Status InvalidArgument ''missing volume capability'')
      | Some volCap \<Rightarrow>
          if st_StagingTargetPath req = [] then Inl (Status InvalidArgument ''missing staging target path'')
          else case getAccessType volCap of
            Inl err \<Rightarrow> Inl err
          | Inr accessType \<Rightarrow>
              (case mount_group volCap accessType of
                 Inl err \<Rightarrow> Inl err
               | Inr volumeGid \<Rightarrow>
                   (case NewVolumeRefFromID (st_VolumeId req) of
                      Inl err \<Rightarrow> Inl (invalid_volume err)
                    | Inr vol \<Rightarrow> Inr (vol, volCap, accessType, volumeGid))))"

definition stage_flags :: "VolumeCapability \<Rightarrow> VolumeAccessType \<Rightarrow> string list" where
  "stage_flags volCap accessType =
     (if accessType = MountAccessType then (case GetMount volCap of None \<Rightarrow> [] | Some m \<Rightarrow> MountFlags m) else [])"

definition NodeStageVolume :: "'s nodeServer \<Rightarrow> NodeStageVolumeRequest \<Rightarrow> ('s, unit) op" where
  "NodeStageVolume ns req =
     andthen (of_result (stage_request req)) (\<lambda>(vol, volCap, accessType, volumeGid).
     andthen (checked (vl_Lock (ns_volumeLock ns) vol defaultLockOp)) (\<lambda>_.
     andthen (volume_fs ns vol) (\<lambda>(lv, fs).
     andthen (require (Accepts fs accessType)
       (Status InvalidArgument ''incompatible access type for this volume'')) (\<lambda>_.
     run_err (Stage fs (ref_DevPath vol) (st_StagingTargetPath req) (stage_flags volCap accessType) volumeGid)))))"

definition NodeUnstageVolume :: "'s nodeServer \<Rightarrow> NodeUnstageVolumeRequest \<Rightarrow> ('s, unit) op" where
  "NodeUnstageVolume ns req =
     andthen (require (us_VolumeId req \<noteq> []) (Status InvalidArgument ''missing volume id'')) (\<lambda>_.
     andthen (require (us_StagingTargetPath req \<noteq> []) (Status InvalidArgument ''missing staging target path'')) (\<lambda>_.
     andthen (or_fail (of_result (NewVolumeRefFromID (us_VolumeId req))) invalid_volume) (\<lambda>vol.
     andthen (volume_fs ns vol) (\<lambda>(lv, fs).
     andthen (run_err (Unstage fs (us_StagingTargetPath req))) (\<lambda>_.
     checked (vl_Unlock (ns_volumeLock ns) vol defaultLockOp))))))"

section \<open>Statistics and growth\<close>

text \<open>The usage reported, in \<^verbatim>\<open>int64\<close> arithmetic: the size alone when the file system gives no statistics.\<close>

definition volume_usage :: "nat \<Rightarrow> Statfs option \<Rightarrow> VolumeUsage list" where
  "volume_usage sz stat =
     (case stat of
        None \<Rightarrow> [\<lparr>Available = 0, Total = i64 (int sz), Used = 0, Unit = VolumeUsage_BYTES\<rparr>]
      | Some st \<Rightarrow>
          [\<lparr>Available = i64 (i64 (int (Bavail st)) * i64 (Bsize st)), Total = i64 (i64 (int (Blocks st)) * i64 (Bsize st)),
            Used = i64 (i64 (i64 (int (Blocks st)) - i64 (int (Bfree st))) * i64 (Bsize st)), Unit = VolumeUsage_BYTES\<rparr>,
           \<lparr>Available = i64 (int (Ffree st)), Total = i64 (int (Files st)),
            Used = i64 (i64 (int (Files st)) - i64 (int (Ffree st))), Unit = VolumeUsage_INODES\<rparr>])"

definition stat_op :: "('s \<Rightarrow> (Statfs option \<times> os_error option) \<times> 's) \<Rightarrow> ('s, Statfs option) op" where
  "stat_op f =
     (\<lambda>s. case f s of
        ((st, None), s') \<Rightarrow> Some (Inr st, s')
      | ((_, Some err), s') \<Rightarrow>
          Some (Inl (if os_IsNotExist err then Status NotFound ''failed to stat volume %q on non existent path %q: %v''
            else Status Internal ''failed to stat volume %q on path %q: %v''), s'))"

definition NodeGetVolumeStats :: "'s nodeServer \<Rightarrow> NodeGetVolumeStatsRequest \<Rightarrow> ('s, VolumeUsage list) op" where
  "NodeGetVolumeStats ns req =
     andthen (require (gs_VolumePath req \<noteq> []) (Status InvalidArgument ''missing volume path'')) (\<lambda>_.
     andthen (require (gs_VolumeId req \<noteq> []) (Status InvalidArgument ''missing volume id'')) (\<lambda>_.
     andthen (require (full_match volumeIdRe (gs_VolumeId req)) (Status NotFound ''invalid volume id'')) (\<lambda>_.
     andthen (or_fail (of_result (NewVolumeRefFromID (gs_VolumeId req))) invalid_volume) (\<lambda>vol.
     andthen (volume_fs ns vol) (\<lambda>(lv, fs).
     andthen (stat_op (Stat fs (gs_VolumePath req))) (\<lambda>stat.
     ok (volume_usage (lv_LvSize lv) stat)))))))"

text \<open>A request without a capacity range is a nil dereference, after the volume has been looked up.\<close>

definition NodeExpandVolume :: "'s nodeServer \<Rightarrow> NodeExpandVolumeRequest \<Rightarrow> ('s, unit) op" where
  "NodeExpandVolume ns req =
     andthen (require (ne_VolumeId req \<noteq> []) (Status InvalidArgument ''missing volume id'')) (\<lambda>_.
     andthen (require (full_match volumeIdRe (ne_VolumeId req)) (Status NotFound ''invalid volume id'')) (\<lambda>_.
     andthen (require (ne_VolumePath req \<noteq> []) (Status InvalidArgument ''missing volume path'')) (\<lambda>_.
     andthen (or_fail (of_result (NewVolumeRefFromID (ne_VolumeId req))) invalid_volume) (\<lambda>vol.
     andthen (volume_fs ns vol) (\<lambda>(lv, fs).
     case ne_CapacityRange req of
       None \<Rightarrow> panic
     | Some rng \<Rightarrow>
         let requiredBytes = u64 (RequiredBytes rng) in
         andthen (if int (lv_LvSize lv) < requiredBytes then
             or_fail (perform (cl_LvResize (ns_lvmctrld ns)
                 \<lparr>lrs_VgName = VgName vol, lrs_LvName = LvName vol, lrs_Size = nat requiredBytes\<rparr>))
               (\<lambda>e. if error_code e = OutOfRange then Status OutOfRange ''insufficient free space''
                    else Status Internal ''failed to resize volume %q: %v'')
           else ok ()) (\<lambda>_.
         or_fail (run_err (Grow fs (ref_DevPath vol))) (\<lambda>_. Status Internal ''failed to resize filesystem: %s'')))))))"

section \<open>Lemmas\<close>

text \<open>
  What the handlers need from the daemon and the file systems to reason about locks: their calls do
  not take or release any.
\<close>

definition lock_free :: "('s \<Rightarrow> bool) \<Rightarrow> 's nodeServer \<Rightarrow> bool" where
  "lock_free I ns \<longleftrightarrow>
     (\<forall>s. I s \<longrightarrow> (\<forall>q. I (snd (cl_Lvs (ns_lvmctrld ns) q s))) \<and> (\<forall>q. I (snd (cl_LvResize (ns_lvmctrld ns) q s))) \<and>
        (\<forall>n fs. ns_GetFileSystem ns n = Inr fs \<longrightarrow>
           (\<forall>d. I (snd (Grow fs d s))) \<and> (\<forall>d p fl g. I (snd (Stage fs d p fl g s))) \<and> (\<forall>p. I (snd (Unstage fs p s))) \<and>
           (\<forall>d p t ro. I (snd (Publish fs d p t ro s))) \<and> (\<forall>p. I (snd (Unpublish fs p s))) \<and>
           (\<forall>p. I (snd (Stat fs p s)))))"

text \<open>The file systems of the registry.\<close>

definition served :: "'s nodeServer \<Rightarrow> 's FileSystem \<Rightarrow> bool" where
  "served ns fs \<longleftrightarrow> (\<exists>n. ns_GetFileSystem ns n = Inr fs)"

lemma lock_freeD:
  assumes "lock_free I ns" and "I s"
  shows "I (snd (cl_Lvs (ns_lvmctrld ns) q s))" "I (snd (cl_LvResize (ns_lvmctrld ns) z s))"
    "served ns fs \<Longrightarrow> I (snd (Grow fs d s))" "served ns fs \<Longrightarrow> I (snd (Stage fs d p fl g s))"
    "served ns fs \<Longrightarrow> I (snd (Unstage fs p s))" "served ns fs \<Longrightarrow> I (snd (Publish fs d p t ro s))"
    "served ns fs \<Longrightarrow> I (snd (Unpublish fs p s))" "served ns fs \<Longrightarrow> I (snd (Stat fs p s))"
  using assms(1) [unfolded lock_free_def, THEN spec [of _ s]] assms(2) unfolding served_def by blast+

lemma keeps_stat_op: "(\<And>s. I s \<Longrightarrow> I (snd (f s))) \<Longrightarrow> keeps I (stat_op f)"
  by (auto simp: triple_def stat_op_def split: prod.splits option.splits if_splits) (metis snd_conv)+

lemma lock_free_ops:
  assumes "lock_free I ns"
  shows "keeps I (lvsVolume (ns_lvmctrld ns) v)" "keeps I (perform (cl_LvResize (ns_lvmctrld ns) z))"
    "served ns fs \<Longrightarrow> keeps I (run_err (Grow fs d))" "served ns fs \<Longrightarrow> keeps I (run_err (Stage fs d p fl g))"
    "served ns fs \<Longrightarrow> keeps I (run_err (Unstage fs p))" "served ns fs \<Longrightarrow> keeps I (run_err (Publish fs d p t ro))"
    "served ns fs \<Longrightarrow> keeps I (run_err (Unpublish fs p))" "served ns fs \<Longrightarrow> keeps I (stat_op (Stat fs p))"
  by (intro keeps_lvsVolume keeps_perform keeps_run_err keeps_stat_op lock_freeD [OF assms]; assumption)+

text \<open>What \<open>volume_fs\<close> finds comes from the registry.\<close>

lemma volume_fs_served: "volume_fs ns vol s = Some (Inr (lv, fs), s') \<Longrightarrow> served ns fs"
  unfolding volume_fs_def served_def op_defs
  by (auto split: option.splits prod.splits sum.splits)

lemma keeps_with_fs:
  assumes "lock_free I ns" and "\<And>lv fs. served ns fs \<Longrightarrow> triple I (f (lv, fs)) Q" and "\<And>e s. I s \<Longrightarrow> Q (Inl e) s"
  shows "triple I (andthen (volume_fs ns vol) f) Q"
proof (rule triple_andthen [where R = "\<lambda>x s. I s \<and> served ns (snd x)"])
  have "keeps I (volume_fs ns vol)"
    unfolding volume_fs_def by (intro triple_rules lock_free_ops [OF assms(1)]) (auto split: option.split intro!: triple_rules)
  then show "triple I (volume_fs ns vol) (\<lambda>r s. case r of Inl e \<Rightarrow> Q (Inl e) s | Inr x \<Rightarrow> I s \<and> served ns (snd x))"
    using volume_fs_served assms(3) unfolding triple_def by (fastforce split: sum.splits)
  show "triple (\<lambda>s. I s \<and> served ns (snd x)) (f x) Q" for x
    by (rule triple_pure) (use assms(2) in \<open>cases x; simp\<close>)
qed

lemma keeps_after_fs:
  "lock_free I ns \<Longrightarrow> (\<And>lv fs. served ns fs \<Longrightarrow> keeps I (f (lv, fs))) \<Longrightarrow> keeps I (andthen (volume_fs ns vol) f)"
  by (rule keeps_with_fs)

lemma other_handlers_keep:
  assumes "lock_free I ns"
  shows "keeps I (NodePublishVolume ns p)" "keeps I (NodeUnpublishVolume ns u)"
    "keeps I (NodeGetVolumeStats ns g)" "keeps I (NodeExpandVolume ns x)"
proof -
  note rules = keeps_after_fs [OF assms] triple_rules lock_free_ops [OF assms]
  show "keeps I (NodePublishVolume ns p)"
    unfolding NodePublishVolume_def by (cases "np_VolumeCapability p"; simp; intro rules; simp; intro rules)
  show "keeps I (NodeUnpublishVolume ns u)"
    unfolding NodeUnpublishVolume_def by (intro rules; simp; intro rules)
  show "keeps I (NodeGetVolumeStats ns g)"
    unfolding NodeGetVolumeStats_def by (intro rules; simp; intro rules)
  show "keeps I (NodeExpandVolume ns x)"
    unfolding NodeExpandVolume_def Let_def
    by (cases "ne_CapacityRange x"; intro rules; simp; intro rules conjI impI)
qed

section \<open>Locks of staged volumes\<close>

lemma keeps_result:
  assumes "keeps (\<lambda>t. h t = h s) m"
  shows "case m s of None \<Rightarrow> True | Some (_, s') \<Rightarrow> h s' = h s"
proof (cases "m s")
  case (Some x)
  then show ?thesis using tripleD [OF assms refl, of "fst x" "snd x"] by (auto split: prod.split)
qed simp

context volume_locker
begin

lemma stage_held:
  assumes "vl_Lock (ns_volumeLock ns) = lock" and free: "\<And>H. lock_free (\<lambda>s. held s = H) ns"
    and run: "NodeStageVolume ns req s = Some (r, s')"
  shows "case stage_request req of
      Inl e \<Rightarrow> r = Inl e \<and> s' = s
    | Inr (vol, _) \<Rightarrow>
        (case lock vol defaultLockOp s of
           None \<Rightarrow> False
         | Some (Some e, _) \<Rightarrow> r = Inl e \<and> held s' = held s
         | Some (None, _) \<Rightarrow> held s' = insert (ref_VgLv vol, defaultLockOp) (held s))"
proof (cases "stage_request req")
  case (Inl e)
  then show ?thesis using run by (simp add: NodeStageVolume_def)
next
  case (Inr x)
  obtain vol volCap accessType gid where x: "x = (vol, volCap, accessType, gid)" by (cases x)
  define rest where "rest = andthen (volume_fs ns vol) (\<lambda>(lv, fs).
     andthen (require (Accepts fs accessType) (Status InvalidArgument ''incompatible access type for this volume'')) (\<lambda>_.
     run_err (Stage fs (ref_DevPath vol) (st_StagingTargetPath req) (stage_flags volCap accessType) gid)))"
  have run': "andthen (checked (lock vol defaultLockOp)) (\<lambda>_. rest) s = Some (r, s')"
    using run Inr by (simp add: NodeStageVolume_def x rest_def assms(1))
  then obtain e s1 where l: "lock vol defaultLockOp s = Some (e, s1)"
    by (auto simp: andthen_def attempt_def checked_def split: option.splits)
  show ?thesis
  proof (cases e)
    case (Some err)
    then show ?thesis using run' l lock_refused [of vol defaultLockOp s err s1]
      by (simp add: Inr x andthen_def attempt_def checked_def throw_def)
  next
    case None
    have k: "keeps (\<lambda>t. held t = insert (ref_VgLv vol, defaultLockOp) (held s)) rest"
      unfolding rest_def
      by (intro keeps_after_fs [OF free], simp, intro triple_rules lock_free_ops [OF free])
    have "rest s1 = Some (r, s')" "held s1 = insert (ref_VgLv vol, defaultLockOp) (held s)"
      using run' l None lock_granted by (simp_all add: andthen_def attempt_def checked_def)
    then have "held s' = insert (ref_VgLv vol, defaultLockOp) (held s)" using tripleD [OF k, of s1 r s'] by simp
    then show ?thesis using l None by (simp add: Inr x)
  qed
qed

lemma unstage_held:
  assumes "vl_Unlock (ns_volumeLock ns) = unlock" and free: "\<And>H. lock_free (\<lambda>s. held s = H) ns"
  shows "triple (\<lambda>s. held s = H) (NodeUnstageVolume ns req) (\<lambda>r s.
     case NewVolumeRefFromID (us_VolumeId req) of
       Inl _ \<Rightarrow> held s = H \<and> r \<noteq> Inr ()
     | Inr vol \<Rightarrow> held s = H - {(ref_VgLv vol, defaultLockOp)} \<or> held s = H \<and> r \<noteq> Inr ())"
proof (cases "NewVolumeRefFromID (us_VolumeId req)")
  case (Inl e)
  show ?thesis unfolding NodeUnstageVolume_def
    by (auto simp: Inl triple_def require_def op_defs split: if_splits)
next
  case (Inr vol)
  let ?Q = "\<lambda>r s. held s = H - {(ref_VgLv vol, defaultLockOp)} \<or> held s = H \<and> r \<noteq> Inr ()"
  have u: "triple (\<lambda>s. held s = H) (checked (unlock vol defaultLockOp)) ?Q"
    using unlock_held by (fastforce simp: triple_def checked_def split: option.splits prod.splits)
  have b: "triple (\<lambda>s. held s = H) (andthen (run_err (Unstage fs p)) (\<lambda>_. checked (unlock vol defaultLockOp))) ?Q"
    if "served ns fs" for fs p
    by (rule triple_andthen [OF triple_weaken [OF lock_free_ops(5) [OF free that]] u]) (auto split: sum.split)
  have v: "triple (\<lambda>s. held s = H) (andthen (volume_fs ns vol) (\<lambda>(lv, fs).
      andthen (run_err (Unstage fs (us_StagingTargetPath req))) (\<lambda>_. checked (unlock vol defaultLockOp)))) ?Q"
    by (rule keeps_with_fs [OF free]) (simp_all add: b)
  have "triple (\<lambda>s. held s = H) (NodeUnstageVolume ns req) ?Q"
  proof (cases "us_VolumeId req = [] \<or> us_StagingTargetPath req = []")
    case True
    then show ?thesis
      by (cases "us_VolumeId req = []") (simp_all add: NodeUnstageVolume_def triple_def)
  qed (use v in \<open>simp add: NodeUnstageVolume_def Inr assms(1)\<close>)
  then show ?thesis by (simp add: Inr)
qed

end

section \<open>Properties\<close>


text \<open>
  A volume without a file system tag: it cannot be staged, and is held when the request fails.
\<close>

definition lab_ns :: "(locks \<times> lab) nodeServer" where
  "lab_ns = \<lparr>ns_nodeID = 1, ns_lvmctrld = lift_client lab_client, ns_volumeLock = locker_of lab_locker,
     ns_GetFileSystem = NewFileSystem idle_os\<rparr>"

definition bare_lab :: "locks \<times> lab" where
  "bare_lab = (Map.empty, \<lparr>lb_vols = [plain_lv ''vg'' ''csl-v-a'' 512 [] ''''], lb_next = 0\<rparr>)"

definition bare_stage :: NodeStageVolumeRequest where
  "bare_stage = \<lparr>st_VolumeId = ''csl-v-a@vg'',
     st_VolumeCapability = Some \<lparr>access_mode = Some SINGLE_NODE_WRITER, access_type = Some Block\<rparr>,
     st_StagingTargetPath = ''/stage''\<rparr>"

lemma idle_fs:
  assumes "NewFileSystem idle_os n = Inr fs"
  shows "snd (Grow fs d w) = w" "snd (Stage fs d p fl g w) = w" "snd (Unstage fs p w) = w"
    "snd (Publish fs d p t ro w) = w" "snd (Unpublish fs p w) = w" "snd (Stat fs p w) = w"
  using assms unfolding NewFileSystem_def
  by (auto simp: fs_methods raw_methods idle_os_def mountFs_def umountFs_def mount_now_def grant_group_def grantGroupAccess_def
      split: if_splits option.splits prod.splits)

lemma lab_ns_free: "lock_free (\<lambda>s. holders s = H) lab_ns"
  by (simp add: lock_free_def lab_ns_def holders_def idle_fs lab_client_def)

lemma bare_stage_valid: "stage_request bare_stage = Inr (\<lparr>LvName = ''csl-v-a'', VgName = ''vg''\<rparr>,
    \<lparr>access_mode = Some SINGLE_NODE_WRITER, access_type = Some Block\<rparr>, BlockAccessType, None)"
  by code_simp


end
