(* ===== verification/Bootstrap.thy ===== *)
theory Bootstrap
  imports DiskRpcService Node Controller
begin

text \<open>
  The start of the two programs: \<^verbatim>\<open>cmd/lvmctrld/main.go\<close> with \<^verbatim>\<open>pkg/lvmctrld/lock.go\<close> and
  \<^verbatim>\<open>pkg/lvmctrld/listener.go\<close>, and \<^verbatim>\<open>cmd/driverd/main.go\<close> with the identity server, the connection to lvmctrld and
  the listener of \<^verbatim>\<open>pkg/driverd\<close>. Processes, the network, \<^verbatim>\<open>net.ParseIP\<close>, \<^verbatim>\<open>url.Parse\<close> and the splitting of
  shell words are parameters.
\<close>

unbundle bit_operations_syntax

section \<open>The host id\<close>

text \<open>\<^verbatim>\<open>ParseIP\<close> gives the 16 bytes of an address.\<close>

definition be_uint32 :: "8 word list \<Rightarrow> 32 word" where
  "be_uint32 bs = word_rcat bs"

definition addressToHostId :: "(string \<Rightarrow> 8 word list option) \<Rightarrow> string \<Rightarrow> go_error + 16 word" where
  "addressToHostId ParseIP ip =
     (case ParseIP ip of
        None \<Rightarrow> Inl (Plain ''invalid ip address: %s'')
      | Some adr \<Rightarrow> Inr (ucast ((be_uint32 (drop (length adr - 4) adr) AND 0x7ff) mod 1999 + 1)))"

definition parseHostId :: "(string \<Rightarrow> 8 word list option) \<Rightarrow> nat \<Rightarrow> string \<Rightarrow> go_error + 16 word" where
  "parseHostId ParseIP hostId hostAddr =
     (if hostId \<noteq> 0 then
        (if hostId > 2000 then Inl (Plain ''invalid host id %d, expected a value in range [1, 2000]'')
         else Inr (word_of_nat hostId))
      else map_sum (\<lambda>_. Plain ''invalid address: %v'') (\<lambda>i. i) (addressToHostId ParseIP hostAddr))"

section \<open>Starting the lock managers\<close>

record 's host_env =
  he_ParseIP :: "string \<Rightarrow> 8 word list option"
  he_Split :: "string \<Rightarrow> go_error + string list"
  he_Start :: "string list \<Rightarrow> 's \<Rightarrow> go_error option \<times> 's"
  he_Run :: "string list \<Rightarrow> 's \<Rightarrow> go_error option \<times> 's"
  he_Sleep :: "nat \<Rightarrow> 's \<Rightarrow> 's"
  he_ParseURL :: "string \<Rightarrow> go_error + string \<times> string \<times> string"
  he_Remove :: "string \<Rightarrow> 's \<Rightarrow> os_error option \<times> 's"
  he_Listen :: "string \<Rightarrow> string \<Rightarrow> 's \<Rightarrow> go_error option \<times> 's"
  he_Serve :: "'s \<Rightarrow> go_error option \<times> 's"

definition daemonize :: "'s host_env \<Rightarrow> string \<Rightarrow> string list \<Rightarrow> ('s, unit) op" where
  "daemonize env executable args = run_err (he_Start env (executable # args))"

definition sleep_for :: "'s host_env \<Rightarrow> nat \<Rightarrow> ('s, unit) op" where
  "sleep_for env d = (\<lambda>s. Some (Inr (), he_Sleep env d s))"

definition lockstart :: "'s host_env \<Rightarrow> ('s, unit) op" where
  "lockstart env = run_err (he_Run env [''vgchange'', ''--lockstart'', ''--verbose''])"

definition StartLock :: "'s host_env \<Rightarrow> 16 word \<Rightarrow> string \<Rightarrow> string \<Rightarrow> ('s, unit) op" where
  "StartLock env host sanlockArgs lvmlockdArgs =
     andthen (daemonize env ''wdmd'' [''-D'']) (\<lambda>_.
     andthen (or_fail (of_result (he_Split env sanlockArgs)) (\<lambda>_. Plain ''failed to parse sanlock-args: %v'')) (\<lambda>extraArgs.
     andthen (daemonize env ''sanlock'' ([''daemon'', ''-D''] @ extraArgs)) (\<lambda>_.
     andthen (or_fail (of_result (he_Split env lvmlockdArgs)) (\<lambda>_. Plain ''failed to parse lvmlockd-args: %v'')) (\<lambda>extraArgs.
     andthen (daemonize env ''lvmlockd'' ([''--host-id'', decimal (unat host), ''-f''] @ extraArgs)) (\<lambda>_.
     andthen (sleep_for env (10 ^ 9)) (\<lambda>_.
     DriverOps.attempt (lockstart env) (\<lambda>r.
     case r of
       Inr _ \<Rightarrow> ok ()
     | Inl _ \<Rightarrow>
         andthen (sleep_for env (10 ^ 9)) (\<lambda>_.
         or_fail (lockstart env) (\<lambda>_. Plain ''failed to start global lock: %v'')))))))))"

section \<open>lvmctrld\<close>

record host_flags =
  fl_noLock :: bool
  fl_lockAddr :: string
  fl_lockId :: nat
  fl_sanlockArgs :: string
  fl_lvmlockdArgs :: string
  fl_listen :: string

record Listener =
  ls_addr :: string
  ls_id :: "16 word"

definition NewListener :: "string \<Rightarrow> 16 word \<Rightarrow> ('s, Listener) op" where
  "NewListener addr host = ok \<lparr>ls_addr = addr, ls_id = host\<rparr>"

definition bootstrap :: "'s host_env \<Rightarrow> host_flags \<Rightarrow> ('s, Listener) op" where
  "bootstrap env f =
     (if (fl_noLock f = (fl_lockId f \<noteq> 0)) = ((fl_lockId f \<noteq> 0) = (fl_lockAddr f \<noteq> []))
      then throw (Plain ''invalid lock configuration, expected one of: no-lock|lock-host-addr|lock-host-id flag'')
      else
        andthen (if fl_noLock f then ok 1
            else
              andthen (or_fail (of_result (parseHostId (he_ParseIP env) (fl_lockId f) (fl_lockAddr f)))
                (\<lambda>_. Plain ''failed to parse host id: %v'')) (\<lambda>host.
              andthen (or_fail (StartLock env host (fl_sanlockArgs f) (fl_lvmlockdArgs f))
                (\<lambda>_. Plain ''failed to start lock: %v'')) (\<lambda>_.
              ok host))) (\<lambda>host.
        NewListener (fl_listen f) host))"

text \<open>
  \<^verbatim>\<open>parseAddress\<close> of lvmctrld: the error of an address with both a host and a path is built from the
  nil error of the parser.
\<close>

definition parseAddress_lvmctrld :: "'s host_env \<Rightarrow> string \<Rightarrow> ('s, string \<times> string) op" where
  "parseAddress_lvmctrld env addr =
     (case he_ParseURL env addr of
        Inl _ \<Rightarrow> throw (Plain ''failed to parse listen address: %s'')
      | Inr (scheme, host, path) \<Rightarrow>
          if host \<noteq> [] \<and> path \<noteq> [] then panic
          else if host \<noteq> [] then ok (scheme, host)
          else ok (scheme, path))"

definition serve_on :: "'s host_env \<Rightarrow> ('s, string \<times> string) op \<Rightarrow> ('s, unit) op" where
  "serve_on env parsed =
     andthen (or_fail parsed (\<lambda>_. Plain ''invalid listen address: %s'')) (\<lambda>(lsProto, lsAddr).
     andthen (if lsProto = ''unix'' then
         (\<lambda>s. case he_Remove env lsAddr s of
            (Some e, s') \<Rightarrow> Some (if os_IsNotExist e then Inr () else Inl (Plain ''failed to remove %s: %s''), s')
          | (None, s') \<Rightarrow> Some (Inr (), s'))
       else ok ()) (\<lambda>_.
     andthen (or_fail (run_err (he_Listen env lsProto lsAddr)) (\<lambda>_. Plain ''failed to listen %s://%s: %s'')) (\<lambda>_.
     or_fail (run_err (he_Serve env)) (\<lambda>_. Plain ''failed to start server: %s''))))"

definition Run_lvmctrld :: "'s host_env \<Rightarrow> Listener \<Rightarrow> ('s, unit) op" where
  "Run_lvmctrld env l = serve_on env (parseAddress_lvmctrld env (ls_addr l))"

section \<open>driverd\<close>

definition NewIdentityServer :: "string \<Rightarrow> string \<Rightarrow> go_error + string \<times> string" where
  "NewIdentityServer drvName version =
     (if drvName = [] then Inl (Status Unavailable ''missing driver name'')
      else if version = [] then Inl (Status Unavailable ''missing driver version'')
      else Inr (drvName, version))"

definition GetPluginInfo :: "string \<times> string \<Rightarrow> ('s, string \<times> string) op" where
  "GetPluginInfo server = ok (fst server, snd server)"

datatype PluginCapability = CONTROLLER_SERVICE | VOLUME_ACCESSIBILITY_CONSTRAINTS | VolumeExpansion_ONLINE

definition GetPluginCapabilities :: "string \<times> string \<Rightarrow> ('s, PluginCapability list) op" where
  "GetPluginCapabilities server = ok [CONTROLLER_SERVICE, VOLUME_ACCESSIBILITY_CONSTRAINTS, VolumeExpansion_ONLINE]"

definition Probe :: "string \<times> string \<Rightarrow> ('s, unit) op" where
  "Probe server = ok ()"

text \<open>\<^verbatim>\<open>Wait\<close> asks for the volume groups once a second until lvmctrld answers.\<close>

partial_function (option) Wait :: "'s LvmCtrldClient \<Rightarrow> (nat \<Rightarrow> 's \<Rightarrow> 's) \<Rightarrow> 's \<Rightarrow> 's option" where
  "Wait client sleep s =
     (case cl_Vgs client \<lparr>vgs_Select = '''', vgs_Target = []\<rparr> s of
        (Inl _, s') \<Rightarrow> Wait client sleep (sleep (10 ^ 9) s')
      | (Inr _, s') \<Rightarrow> Some s')"

definition NewControllerServer ::
  "'s controllerServer \<Rightarrow> ('s, unit) op \<Rightarrow> 's LvmCtrldClient \<Rightarrow> 's VolumeLocker \<Rightarrow>
   (string \<Rightarrow> go_error + 's FileSystem) \<Rightarrow> string \<Rightarrow> ('s, 's controllerServer) op" where
  "NewControllerServer cs register client locker registry defaultFs =
     andthen (perform (newBaseServer client)) (\<lambda>bs.
     andthen (or_fail register (\<lambda>_. Plain ''failed to register controller server channel: %v'')) (\<lambda>_.
     ok (cs\<lparr>cs_base := bs, cs_volumeLock := locker, cs_GetFileSystem := registry, cs_defaultFs := defaultFs\<rparr>)))"

text \<open>\<^verbatim>\<open>parseAddress\<close> of the driver checks the host and the path after the error of the parser.\<close>

definition parseAddress_driverd :: "'s host_env \<Rightarrow> string \<Rightarrow> ('s, string \<times> string) op" where
  "parseAddress_driverd env addr =
     (case he_ParseURL env addr of
        Inl _ \<Rightarrow> throw (Plain ''failed to parse listen address: %s'')
      | Inr (scheme, host, path) \<Rightarrow>
          if host \<noteq> [] \<and> path \<noteq> [] then throw (Plain ''failed to parse listen address: invalid address'')
          else if host \<noteq> [] then ok (scheme, host)
          else ok (scheme, path))"

text \<open>
  \<^verbatim>\<open>bootstrap\<close> of driverd, on the table of locks and the state behind the client: the flags name the node,
  the driver and the address, \<open>de_controller\<close> holds what the controller reaches besides the parts built here.
\<close>

record driver_flags =
  df_nodeName :: string
  df_drvName :: string
  df_version :: string
  df_defaultFs :: string
  df_listen :: string

record 'w driver_env =
  de_Connect :: "'w \<Rightarrow> go_error option \<times> 'w"
  de_Sleep :: "nat \<Rightarrow> 'w \<Rightarrow> 'w"
  de_Hostname :: "go_error + string"
  de_NewMailBox :: "(locks \<times> 'w) VolumeLocker \<Rightarrow> nat \<Rightarrow> VolumeRef \<Rightarrow> string \<Rightarrow> (locks \<times> 'w, unit) op"
  de_Register :: "(locks \<times> 'w, unit) op"
  de_Start :: "(locks \<times> 'w, unit) op"
  de_os :: "(locks \<times> 'w) os_env"
  de_controller :: "(locks \<times> 'w) controllerServer"

record 'w driver =
  dr_addr :: string
  dr_identity :: "string \<times> string"
  dr_node :: "(locks \<times> 'w) nodeServer"
  dr_controller :: "(locks \<times> 'w) controllerServer"

definition wait_op :: "'w LvmCtrldClient \<Rightarrow> (nat \<Rightarrow> 'w \<Rightarrow> 'w) \<Rightarrow> (locks \<times> 'w, unit) op" where
  "wait_op client sleep = (\<lambda>(l, w). map_option (\<lambda>w'. (Inr (), (l, w'))) (Wait client sleep w))"

definition bootstrap_driverd :: "'w driver_env \<Rightarrow> 'w LvmCtrldClient \<Rightarrow> driver_flags \<Rightarrow> (locks \<times> 'w, 'w driver) op" where
  "bootstrap_driverd env cl f =
     andthen (or_fail (run_err (beside (de_Connect env))) (\<lambda>_. Plain ''failed to instance lvmctrld client: %v'')) (\<lambda>_.
     andthen (wait_op cl (de_Sleep env)) (\<lambda>_.
     andthen (if df_nodeName f \<noteq> [] then ok (df_nodeName f)
         else or_fail (of_result (de_Hostname env)) (\<lambda>_. Plain ''failed to retrieve hostname: %v'')) (\<lambda>node.
     andthen (or_fail (\<lambda>(_, w). NewVolumeLocker cl node w) (\<lambda>_. Plain ''failed to instance volume lock: %v'')) (\<lambda>vl.
     let client = lift_client cl; locker = locker_of vl; registry = GetFileSystem (de_os env) in
     andthen (or_fail (NewDiskRpcService client (de_NewMailBox env locker))
         (\<lambda>_. Plain ''failed to instance disk rpc service: %v'')) (\<lambda>drpc.
     andthen (or_fail (of_result (NewIdentityServer (df_drvName f) (df_version f)))
         (\<lambda>_. Plain ''failed to instance identity server: %v'')) (\<lambda>is.
     andthen (or_fail (NewNodeServer client locker registry)
         (\<lambda>_. Plain ''failed to instance identity server: %v'')) (\<lambda>ns.
     andthen (or_fail (NewControllerServer (de_controller env) (de_Register env) client locker registry (df_defaultFs f))
         (\<lambda>_. Plain ''failed to instance controller server: %v'')) (\<lambda>cs.
     andthen (or_fail (de_Start env) (\<lambda>_. Plain ''failed to start disk rpc: %v'')) (\<lambda>_.
     if df_listen f = [] then throw (Plain ''failed to instance listener: %s'')
     else ok \<lparr>dr_addr = df_listen f, dr_identity = is, dr_node = ns, dr_controller = cs\<rparr>)))))))))"

definition Run_driverd :: "'s host_env \<Rightarrow> string \<Rightarrow> ('s, unit) op" where
  "Run_driverd env addr = serve_on env (parseAddress_driverd env addr)"

section \<open>Lemmas\<close>

lemma andthenE:
  assumes "andthen m f s = Some (Inr y, s')"
  obtains x t where "m s = Some (Inr x, t)" and "f x t = Some (Inr y, s')"
  using assms by (auto simp: andthen_def DriverOps.attempt_def throw_def split: option.splits sum.splits)

lemma or_failE:
  assumes "or_fail m g s = Some (Inr y, s')"
  obtains "m s = Some (Inr y, s')"
  using assms by (auto simp: or_fail_def DriverOps.attempt_def throw_def ok_def split: option.splits sum.splits)

lemma Wait_return:
  assumes "cl_Vgs client \<lparr>vgs_Select = '''', vgs_Target = []\<rparr> s = (r, s')"
  shows "Wait client sleep s = (case r of Inl _ \<Rightarrow> Wait client sleep (sleep (10 ^ 9) s') | Inr _ \<Rightarrow> Some s')"
  by (subst Wait.simps) (simp add: assms split: sum.split)

lemma hashed_id:
  assumes "addressToHostId ParseIP ip = Inr i"
  shows "1 \<le> unat i" "unat i \<le> 1999"
proof -
  obtain bs where i: "i = ucast ((be_uint32 bs AND 0x7ff) mod 1999 + 1)"
    using assms by (auto simp: addressToHostId_def split: option.splits)
  let ?m = "(be_uint32 bs AND 0x7ff) mod 1999"
  have "unat ?m = unat (be_uint32 bs AND 0x7ff) mod 1999" by (simp add: unat_mod)
  then have m: "unat ?m < 1999" by simp
  then have "unat (?m + 1) = unat ?m + 1" by (simp add: unat_word_ariths(1))
  then show "1 \<le> unat i" "unat i \<le> 1999"
    using m unfolding i by (simp_all add: unsigned_ucast_eq take_bit_nat_eq_self)
qed

lemma parsed_id:
  assumes "parseHostId ParseIP n ip = Inr i"
  shows "1 \<le> unat i" "unat i \<le> 2000" "if n \<noteq> 0 then unat i = n else addressToHostId ParseIP ip = Inr i"
proof -
  have "1 \<le> unat i \<and> unat i \<le> 2000 \<and> (if n \<noteq> 0 then unat i = n else addressToHostId ParseIP ip = Inr i)"
  proof (cases "n = 0")
    case True
    then obtain j where "addressToHostId ParseIP ip = Inr j" "i = j"
      using assms by (auto simp: parseHostId_def map_sum_def split: sum.splits)
    then show ?thesis using hashed_id [of ParseIP ip j] True by simp
  next
    case False
    then have "n \<le> 2000" "i = word_of_nat n" using assms by (simp_all add: parseHostId_def split: if_splits)
    then have "unat i = n" by (simp add: unsigned_of_nat take_bit_nat_eq_self)
    then show ?thesis using False \<open>n \<le> 2000\<close> by simp
  qed
  then show "1 \<le> unat i" "unat i \<le> 2000" "if n \<noteq> 0 then unat i = n else addressToHostId ParseIP ip = Inr i" by simp_all
qed

lemma StartLock_total: "StartLock env host sa la s \<noteq> None"
  unfolding StartLock_def daemonize_def lockstart_def sleep_for_def
  by (simp add: op_defs split: option.split sum.split prod.split)

text \<open>The servers of a started driver share one locker, registry and client.\<close>

lemma bootstrap_driverd_shares:
  assumes "bootstrap_driverd env cl f s = Some (Inr d, s')"
  shows "ns_volumeLock (dr_node d) = cs_volumeLock (dr_controller d)"
    and "ns_lvmctrld (dr_node d) = cs_client (dr_controller d)"
    and "ns_GetFileSystem (dr_node d) = cs_GetFileSystem (dr_controller d)"
    and "\<exists>vl. cs_volumeLock (dr_controller d) = locker_of vl"
proof -
  have node: "ns_volumeLock ns = lk \<and> ns_lvmctrld ns = c \<and> ns_GetFileSystem ns = rg"
    if "NewNodeServer c lk rg t = Some (Inr ns, t')" for c lk rg t ns t'
    using that by (auto simp: NewNodeServer_def op_defs split: sum.splits prod.splits)
  have ctl: "cs_volumeLock cs = lk \<and> cs_client cs = c \<and> cs_GetFileSystem cs = rg"
    if "NewControllerServer tm reg c lk rg fs t = Some (Inr cs, t')" for tm reg c lk rg fs t cs t'
    using that by (auto simp: NewControllerServer_def newBaseServer_def op_defs split: sum.splits prod.splits option.splits)
  obtain vl t1 t2 t3 t4 where
    "NewNodeServer (lift_client cl) (locker_of vl) (GetFileSystem (de_os env)) t1 = Some (Inr (dr_node d), t2)"
    "NewControllerServer (de_controller env) (de_Register env) (lift_client cl) (locker_of vl) (GetFileSystem (de_os env))
      (df_defaultFs f) t3 = Some (Inr (dr_controller d), t4)"
    using assms unfolding bootstrap_driverd_def Let_def
    by (auto elim!: andthenE or_failE split: if_splits simp: ok_def throw_def)
  with node ctl show "ns_volumeLock (dr_node d) = cs_volumeLock (dr_controller d)"
    "ns_lvmctrld (dr_node d) = cs_client (dr_controller d)"
    "ns_GetFileSystem (dr_node d) = cs_GetFileSystem (dr_controller d)"
    "\<exists>vl. cs_volumeLock (dr_controller d) = locker_of vl" by metis+
qed

section \<open>Properties\<close>

text \<open>C30: What a node starts with. The flags are refused, before anything is started, exactly when \<open>no-lock\<close>
  and \<open>lock-host-addr\<close> are both given or both missing, whatever \<open>lock-host-id\<close> says. Otherwise lvmctrld starts
  with an id in \<open>1 .. 2000\<close>: 1 without locking, the given host id, or one in \<open>1 .. 1999\<close> computed from the address; and with locking
  the lock managers were started under this id before, without it nothing was.
\<close>

theorem bootstrap_host_ids:
  "if fl_noLock f = (fl_lockAddr f \<noteq> []) then
     bootstrap env f s =
       Some (Inl (Plain ''invalid lock configuration, expected one of: no-lock|lock-host-addr|lock-host-id flag''), s)
   else
     (case bootstrap env f s of
        None \<Rightarrow> False
      | Some (Inl _, s') \<Rightarrow> \<not> fl_noLock f
      | Some (Inr l, s') \<Rightarrow>
          ls_addr l = fl_listen f \<and> 1 \<le> unat (ls_id l) \<and> unat (ls_id l) \<le> 2000 \<and>
          (if fl_noLock f then unat (ls_id l) = 1 \<and> s' = s
           else StartLock env (ls_id l) (fl_sanlockArgs f) (fl_lvmlockdArgs f) s = Some (Inr (), s') \<and>
             (if fl_lockId f \<noteq> 0 then unat (ls_id l) = fl_lockId f
              else addressToHostId (he_ParseIP env) (fl_lockAddr f) = Inr (ls_id l) \<and> unat (ls_id l) \<le> 1999)))"
proof (cases "fl_noLock f = (fl_lockAddr f \<noteq> [])")
  case True
  then show ?thesis by (auto simp: bootstrap_def)
next
  case flags: False
  then have accepted: "\<not> (fl_noLock f = (fl_lockId f \<noteq> 0)) = ((fl_lockId f \<noteq> 0) = (fl_lockAddr f \<noteq> []))" by blast
  show ?thesis
  proof (cases "fl_noLock f")
    case True
    then show ?thesis using flags accepted by (simp add: bootstrap_def NewListener_def)
  next
    case locking: False
    show ?thesis
    proof (cases "parseHostId (he_ParseIP env) (fl_lockId f) (fl_lockAddr f)")
      case (Inl e)
      then show ?thesis using flags accepted locking by (simp add: bootstrap_def)
    next
      case (Inr i)
      obtain r s' where run: "StartLock env i (fl_sanlockArgs f) (fl_lvmlockdArgs f) s = Some (r, s')"
        using StartLock_total [of env i "fl_sanlockArgs f" "fl_lvmlockdArgs f" s] by fastforce
      have "bootstrap env f s = (case r of
          Inl _ \<Rightarrow> Some (Inl (Plain ''failed to start lock: %v''), s')
        | Inr _ \<Rightarrow> Some (Inr \<lparr>ls_addr = fl_listen f, ls_id = i\<rparr>, s'))"
        using flags accepted locking Inr run
        by (cases r) (simp_all add: bootstrap_def NewListener_def andthen_def DriverOps.attempt_def or_fail_def ok_def throw_def)
      then show ?thesis
        using flags locking run parsed_id [OF Inr] hashed_id(2) [of "he_ParseIP env" "fl_lockAddr f" i]
        by (cases r) auto
    qed
  qed
qed

end
