(* ===== verification/Cluster.thy ===== *)
theory Cluster
  imports DriverOps
begin

text \<open>
  Several hosts on one set of volumes. Each host has its own lvmctrld client and runs at most one driver, whose
  locker (\<^verbatim>\<open>volumelock.go\<close>) keeps its table in memory; LVM and sanlock behind the clients are shared. Drivers start,
  serve requests and die in any order; a request, or the start of a locker, is one step, so the LVM commands
  of two requests do not interleave here.
\<close>

section \<open>The steps of the hosts\<close>

type_synonym 'w cluster = "(nat \<Rightarrow> ('w volumeLocker \<times> locks) option) \<times> 'w"

inductive cluster_step ::
  "(nat \<Rightarrow> 'w LvmCtrldClient) \<Rightarrow> (nat \<Rightarrow> string) \<Rightarrow> 'w cluster \<Rightarrow> 'w cluster \<Rightarrow> bool"
  for cl :: "nat \<Rightarrow> 'w LvmCtrldClient" and name :: "nat \<Rightarrow> string" where
  start: "hosts n = None \<Longrightarrow> NewVolumeLocker (cl n) (name n) w = Some (Inr vl, l, w') \<Longrightarrow>
    cluster_step cl name (hosts, w) (hosts(n \<mapsto> (vl, l)), w')"
| start_fails: "hosts n = None \<Longrightarrow> NewVolumeLocker (cl n) (name n) w = Some (Inl e, l, w') \<Longrightarrow>
    cluster_step cl name (hosts, w) (hosts, w')"
| lock: "hosts n = Some (vl, l) \<Longrightarrow> LockVolume vl v op (l, w) = Some (r, l', w') \<Longrightarrow>
    cluster_step cl name (hosts, w) (hosts(n \<mapsto> (vl, l')), w')"
| unlock: "hosts n = Some (vl, l) \<Longrightarrow> UnlockVolume vl v op (l, w) = Some (r, l', w') \<Longrightarrow>
    cluster_step cl name (hosts, w) (hosts(n \<mapsto> (vl, l')), w')"
| die: "cluster_step cl name (hosts, w) (hosts(n := None), w)"

section \<open>What LVM promises across hosts\<close>

text \<open>
  Documented behaviour of LVM on a volume group with sanlock: on every host the laws of \<open>VolumeLock\<close>; no command changes
  what is active on another host; and an exclusive activation succeeds only where no other host has the volume active.
\<close>

definition lvm_cluster :: "(nat \<Rightarrow> 'w LvmCtrldClient) \<Rightarrow> (nat \<Rightarrow> string \<Rightarrow> 'w \<Rightarrow> bool) \<Rightarrow> bool" where
  "lvm_cluster cl active \<longleftrightarrow>
     (\<forall>n. lvm_activation (cl n) (active n) \<and> lvm_listing (cl n) (active n)) \<and>
     (\<forall>n m k w. m \<noteq> n \<longrightarrow> active m k (snd (cl_GetStatus (cl n) w)) = active m k w) \<and>
     (\<forall>n m k q w. m \<noteq> n \<longrightarrow> active m k (snd (cl_Lvs (cl n) q w)) = active m k w) \<and>
     (\<forall>n m k q w. m \<noteq> n \<longrightarrow> active m k (snd (cl_LvChange (cl n) q w)) = active m k w) \<and>
     (\<forall>n m k q w. m \<noteq> n \<longrightarrow> lch_Activate q = LV_ACTIVATION_MODE_ACTIVE_EXCLUSIVE \<longrightarrow> k \<in> set (lch_Target q) \<longrightarrow>
        fst (cl_LvChange (cl n) q w) = Inr () \<longrightarrow> \<not> active m k w)"

definition one_active :: "(nat \<Rightarrow> string \<Rightarrow> 'w \<Rightarrow> bool) \<Rightarrow> 'w \<Rightarrow> bool" where
  "one_active active w \<longleftrightarrow> (\<forall>n m k. active n k w \<longrightarrow> active m k w \<longrightarrow> n = m)"

text \<open>What host \<open>n\<close> leaves alone: at most one host active on a volume, and the other hosts.\<close>

definition apart :: "(nat \<Rightarrow> string \<Rightarrow> 'w \<Rightarrow> bool) \<Rightarrow> nat \<Rightarrow> 'w \<Rightarrow> 'w \<Rightarrow> bool" where
  "apart active n w0 w \<longleftrightarrow> one_active active w \<and> (\<forall>m k. m \<noteq> n \<longrightarrow> active m k w = active m k w0)"

lemma lvm_clusterD:
  assumes "lvm_cluster cl active"
  shows "lvm_activation (cl n) (active n)" "lvm_listing (cl n) (active n)"
    "m \<noteq> n \<Longrightarrow> active m k (snd (cl_GetStatus (cl n) w)) = active m k w"
    "m \<noteq> n \<Longrightarrow> active m k (snd (cl_Lvs (cl n) q w)) = active m k w"
    "m \<noteq> n \<Longrightarrow> active m k (snd (cl_LvChange (cl n) c w)) = active m k w"
    "m \<noteq> n \<Longrightarrow> lch_Activate c = LV_ACTIVATION_MODE_ACTIVE_EXCLUSIVE \<Longrightarrow> k \<in> set (lch_Target c) \<Longrightarrow>
      fst (cl_LvChange (cl n) c w) = Inr () \<Longrightarrow> \<not> active m k w"
  using assms unfolding lvm_cluster_def by (elim conjE, simp)+

lemma apart_reads:
  assumes "lvm_cluster cl active" and "apart active n w0 w"
  shows "apart active n w0 (snd (cl_GetStatus (cl n) w))" "apart active n w0 (snd (cl_Lvs (cl n) q w))"
proof -
  note laws = lvm_clusterD [OF assms(1)]
  have "active m k (snd (cl_GetStatus (cl n) w)) = active m k w" "active m k (snd (cl_Lvs (cl n) q w)) = active m k w" for m k
    using laws(1) [of n] laws(3,4) [of m n] by (cases "m = n"; simp add: lvm_activation_def)+
  then show "apart active n w0 (snd (cl_GetStatus (cl n) w))" "apart active n w0 (snd (cl_Lvs (cl n) q w))"
    using assms(2) by (simp_all add: apart_def one_active_def)
qed

lemma apart_changes:
  assumes "lvm_cluster cl active" and "lch_Activate q \<noteq> LV_ACTIVATION_MODE_ACTIVE_SHARED" and "apart active n w0 w"
  shows "apart active n w0 (snd (cl_LvChange (cl n) q w))"
proof -
  let ?w = "snd (cl_LvChange (cl n) q w)"
  note laws = lvm_clusterD [OF assms(1)]
  have others: "active m k ?w = active m k w" if "m \<noteq> n" for m k using laws(5) [OF that] .
  have own: "active n k w" if "active n k ?w" "active m k w" "m \<noteq> n" for m k
  proof (rule ccontr)
    assume off: "\<not> active n k w"
    then have run: "fst (cl_LvChange (cl n) q w) = Inr ()" "k \<in> set (lch_Target q)"
        "mode_active (lch_Activate q) False"
      using laws(1) [of n] that(1) by (auto simp: lvm_activation_def split: if_splits)
    then have "lch_Activate q = LV_ACTIVATION_MODE_ACTIVE_EXCLUSIVE"
      using assms(2) by (cases "lch_Activate q") simp_all
    then show False using laws(6) [OF that(3) _ run(2,1)] that(2) by simp
  qed
  have "one_active active ?w"
    unfolding one_active_def
  proof (intro allI impI)
    fix a b k assume "active a k ?w" "active b k ?w"
    then have "active a k w" "active b k w" if "a \<noteq> b" using others own that by metis+
    then show "a = b" using assms(3) by (auto simp: apart_def one_active_def)
  qed
  then show ?thesis using assms(3) others by (simp add: apart_def)
qed

section \<open>The start of a locker\<close>

lemma sync_loop_keeps:
  assumes "\<And>q w. I w \<Longrightarrow> I (snd (cl_Lvs (lvmctrld bs) q w))"
    and "\<And>q w. lch_Activate q \<noteq> LV_ACTIVATION_MODE_ACTIVE_SHARED \<Longrightarrow> I w \<Longrightarrow> I (snd (cl_LvChange (lvmctrld bs) q w))"
  shows "sync_loop bs lvs (l, w) = Some (l', w') \<Longrightarrow> I w \<Longrightarrow> I w'"
proof (induction lvs arbitrary: l w)
  case (Cons lv lvs)
  let ?v = "NewVolumeRefFromLv lv"
  show ?case
  proof (cases "lv_LvDeviceOpen lv = LV_DEVICE_OPEN_OPEN")
    case True
    then show ?thesis using Cons by (simp add: Let_def)
  next
    case False
    obtain r w1 where c: "cl_LvChange (lvmctrld bs) (activate_request ?v LV_ACTIVATION_MODE_DEACTIVATE) w = (r, w1)"
      by fastforce
    then have w1: "I w1"
      using assms(2) [OF _ Cons.prems(2), of "activate_request ?v LV_ACTIVATION_MODE_DEACTIVATE"] by (simp add: activate_request_def)
    obtain e w2 where o: "setOwner bs ?v None None w1 = Some (e, w2)" and rest: "sync_loop bs lvs (l, w2) = Some (l', w')"
      using Cons.prems(1) False c by (auto simp: Let_def split: option.splits)
    have "I w2" by (rule setOwner_keeps [where I = I, OF assms w1 o])
    then show ?thesis using Cons.IH [OF rest] by blast
  qed
qed simp

lemma NewVolumeLocker_keeps:
  assumes "\<And>w. I w \<Longrightarrow> I (snd (cl_GetStatus cl w))" and "\<And>q w. I w \<Longrightarrow> I (snd (cl_Lvs cl q w))"
    and "\<And>q w. lch_Activate q \<noteq> LV_ACTIVATION_MODE_ACTIVE_SHARED \<Longrightarrow> I w \<Longrightarrow> I (snd (cl_LvChange cl q w))"
    and "I w" and run: "NewVolumeLocker cl name w = Some (r, l, w')"
  shows "I w'"
proof -
  obtain b w1 where b: "newBaseServer cl w = (b, w1)" by fastforce
  then have w1: "I w1" using assms(1) [OF assms(4)] by (auto simp: newBaseServer_def split: prod.splits sum.splits)
  show ?thesis
  proof (cases b)
    case (Inl e)
    then show ?thesis using run b w1 by (simp add: NewVolumeLocker_def)
  next
    case (Inr bs)
    have bs: "lvmctrld bs = cl" using b Inr by (auto simp: newBaseServer_def split: prod.splits sum.splits)
    obtain q x w2 where q: "cl_Lvs cl q w1 = (x, w2)"
        and s: "(\<exists>e. x = Inl e \<and> w' = w2) \<or> (\<exists>lvs m. x = Inr lvs \<and> sync_loop bs lvs (Map.empty, w2) = Some (m, w'))"
      using run b Inr bs
      by (auto simp: NewVolumeLocker_def sync_def Let_def split: option.splits prod.splits sum.splits)
    have "I w2" using assms(2) [OF w1, of q] q by simp
    then show ?thesis using s sync_loop_keeps [of I bs] assms(2,3) bs by blast
  qed
qed

section \<open>The invariant\<close>

definition cluster_inv ::
  "(nat \<Rightarrow> 'w LvmCtrldClient) \<Rightarrow> (nat \<Rightarrow> string \<Rightarrow> 'w \<Rightarrow> bool) \<Rightarrow> 'w cluster \<Rightarrow> bool" where
  "cluster_inv cl active s \<longleftrightarrow>
     one_active active (snd s) \<and>
     (\<forall>n vl l. fst s n = Some (vl, l) \<longrightarrow> lvmctrld (base vl) = cl n \<and> held_active (active n) (l, snd s))"

lemma cluster_inv_update:
  assumes "cluster_inv cl active (hosts, w)" and "apart active n w w'"
    and "x = None \<or> (\<exists>vl l. x = Some (vl, l) \<and> lvmctrld (base vl) = cl n \<and> held_active (active n) (l, w'))"
  shows "cluster_inv cl active (hosts(n := x), w')"
  using assms by (auto simp: cluster_inv_def apart_def held_active_def holders_def)

lemma cluster_inv_step:
  assumes laws: "lvm_cluster cl active" and "cluster_step cl name s s'" and inv: "cluster_inv cl active s"
  shows "cluster_inv cl active s'"
proof -
  have a0: "apart active n w w" if "cluster_inv cl active (hosts, w)" for n hosts w
    using that by (simp add: cluster_inv_def apart_def)
  note reads = apart_reads [OF laws] and changes = apart_changes [OF laws]
  show ?thesis
    using assms(2)
  proof cases
    case (start hosts n w vl l w')
    have i: "cluster_inv cl active (hosts, w)" using inv start(1) by simp
    have "apart active n w w'"
      by (rule NewVolumeLocker_keeps [where I = "apart active n w", OF reads changes a0 [OF i] start(4)])
    from cluster_inv_update [OF i this, of "Some (vl, l)"] NewVolumeLocker_active [OF lvm_clusterD(1,2) [OF laws] start(4)]
    show ?thesis using start(2) by simp
  next
    case (start_fails hosts n w e l w')
    have i: "cluster_inv cl active (hosts, w)" using inv start_fails(1) by simp
    have "apart active n w w'"
      by (rule NewVolumeLocker_keeps [where I = "apart active n w", OF reads changes a0 [OF i] start_fails(4)])
    from cluster_inv_update [OF i this, of None] show ?thesis using start_fails(2,3) by (simp add: fun_upd_idem)
  next
    case (lock hosts n vl l v op w r l' w')
    have i: "cluster_inv cl active (hosts, w)" using inv lock(1) by simp
    have vl: "lvmctrld (base vl) = cl n" "held_active (active n) (l, w)" using i lock(3) by (simp_all add: cluster_inv_def)
    have "apart active n w w'"
      by (rule LockVolume_keeps [where I = "apart active n w", OF _ _ a0 [OF i] lock(4)]) (simp_all add: vl(1) reads(2) changes)
    moreover have "held_active (active n) (l', w')"
      by (rule LockVolume_active [OF _ vl(2) lock(4)]) (simp add: vl(1) lvm_clusterD(1) [OF laws])
    ultimately show ?thesis using cluster_inv_update [OF i, of n w' "Some (vl, l')"] lock(2) vl(1) by simp
  next
    case (unlock hosts n vl l v op w r l' w')
    have i: "cluster_inv cl active (hosts, w)" using inv unlock(1) by simp
    have vl: "lvmctrld (base vl) = cl n" "held_active (active n) (l, w)" using i unlock(3) by (simp_all add: cluster_inv_def)
    have "apart active n w w'"
      by (rule UnlockVolume_keeps [where I = "apart active n w", OF _ _ a0 [OF i] unlock(4)]) (simp_all add: vl(1) reads(2) changes)
    moreover have "held_active (active n) (l', w')"
      by (rule UnlockVolume_active [OF _ vl(2) unlock(4)]) (simp add: vl(1) lvm_clusterD(1) [OF laws])
    ultimately show ?thesis using cluster_inv_update [OF i, of n w' "Some (vl, l')"] unlock(2) vl(1) by simp
  next
    case (die hosts w n)
    have i: "cluster_inv cl active (hosts, w)" using inv die(1) by simp
    show ?thesis using cluster_inv_update [OF i a0 [OF i], of None] die(2) by simp
  qed
qed

lemma cluster_inv_reach:
  "rtranclp (cluster_step cl name) s s' \<Longrightarrow> lvm_cluster cl active \<Longrightarrow> cluster_inv cl active s \<Longrightarrow> cluster_inv cl active s'"
  by (induction rule: rtranclp_induct) (blast intro: cluster_inv_step)+

section \<open>Properties\<close>

text \<open>C1: A volume is never held on two hosts. In every run of the hosts, with drivers that start, take over the
  volumes still open, serve lock and unlock requests whatever LVM answers, die and start again, no volume is in the tables of
  two drivers at once, and a volume in a table is active on the host of that driver and on no other.
\<close>

theorem one_host_per_volume:
  assumes "lvm_cluster cl active" and "one_active active w0"
    and "rtranclp (cluster_step cl name) (\<lambda>_. None, w0) (hosts, w)"
    and "hosts n = Some (vl, l)" and "(k, op) \<in> holders (l, w)"
  shows "(\<forall>m vl' l' op'. hosts m = Some (vl', l') \<longrightarrow> (k, op') \<in> holders (l', w) \<longrightarrow> m = n) \<and> (\<forall>m. active m k w \<longleftrightarrow> m = n)"
proof -
  have "cluster_inv cl active (\<lambda>_. None, w0)" using assms(2) by (simp add: cluster_inv_def)
  then have inv: "cluster_inv cl active (hosts, w)" by (rule cluster_inv_reach [OF assms(3,1)])
  then have held: "active m k w" if "hosts m = Some (vl', l')" "(k, op') \<in> holders (l', w)" for m vl' l' op'
  proof -
    have "held_active (active m) (l', w)" using inv that(1) unfolding cluster_inv_def fst_conv snd_conv by blast
    then show ?thesis using that(2) unfolding held_active_def snd_conv by blast
  qed
  have "active n k w" using held assms(4,5) by blast
  moreover have "m = n" if "active m k w" for m
    using inv that calculation unfolding cluster_inv_def one_active_def snd_conv by blast
  ultimately show ?thesis using held by blast
qed

text \<open>Hosts that share one logical volume: who has it active, and its tags.\<close>

definition shared_lv :: "nat \<Rightarrow> nat option \<times> string list \<Rightarrow> LogicalVolume" where
  "shared_lv n w = lw_lv \<lparr>lw_active = (fst w = Some n), lw_tags = snd w, lw_elsewhere = False\<rparr>"

definition shared_client :: "nat \<Rightarrow> (nat option \<times> string list) LvmCtrldClient" where
  "shared_client n =
     \<lparr>cl_GetStatus = (\<lambda>w. (Inr (Suc n), w)), cl_Vgs = (\<lambda>_ w. (Inr [], w)),
      cl_LvCreate = (\<lambda>_ w. (Inl (Status AlreadyExists ''''), w)), cl_LvRemove = (\<lambda>_ w. (Inl (Status PermissionDenied ''''), w)),
      cl_Lvs = (\<lambda>q w.
        (if lvs_Target q = [lv_key] then Inr [shared_lv n w]
         else if lvs_Target q = [] then Inr (if fst w = Some n then [shared_lv n w] else [])
         else Inl (Status NotFound ''''), w)),
      cl_LvChange = (\<lambda>q w.
        if lch_Target q \<noteq> [lv_key] then (Inl (Status NotFound ''''), w)
        else if fst w \<notin> {None, Some n} then (Inl (Status PermissionDenied ''LV locked by other host''), w)
        else (Inr (), if mode_active (lch_Activate q) (fst w = Some n) then Some n else None,
          filter (\<lambda>t. t \<notin> set (lch_DelTag q)) (snd w) @ lch_AddTag q)),
      cl_LvResize = (\<lambda>_ w. (Inr (), w))\<rparr>"

abbreviation shared_active :: "nat \<Rightarrow> string \<Rightarrow> nat option \<times> string list \<Rightarrow> bool" where
  "shared_active n k w \<equiv> k = lv_key \<and> fst w = Some n"

lemma shared_laws: "lvm_cluster shared_client shared_active"
  unfolding lvm_cluster_def lvm_activation_def lvm_listing_def
  by (auto simp: shared_client_def shared_lv_def lw_ref)
    (auto simp: lw_lv_def split: if_splits)

abbreviation shared_locker :: "nat \<Rightarrow> (nat option \<times> string list) volumeLocker" where
  "shared_locker n \<equiv> \<lparr>base = \<lparr>lvmctrld = shared_client n, nodeID = Suc n\<rparr>, nodeName = ''node''\<rparr>"

lemma shared_start:
  "n < 2 \<Longrightarrow> NewVolumeLocker (shared_client n) ''node'' (None, []) = Some (Inr (shared_locker n), Map.empty, (None, []))"
  by (simp add: NewVolumeLocker_def newBaseServer_def sync_def shared_client_def)

lemma shared_lock:
  "LockVolume (shared_locker 0) lw_vol ''a'' (Map.empty, (None, [])) =
     Some (None, [lv_key \<mapsto> {''a''}], (Some 0, owner_add (Some 1) (Some ''node'')))"
  by (simp add: LockVolume_def lw_vol_key activate_request_def shared_client_def [THEN arg_cong [of _ _ cl_LvChange]]
      setOwner_def fetch_def shared_client_def [THEN arg_cong [of _ _ cl_Lvs]] shared_lv_def lw_lv_def NewVolumeInfoFromLv_def
      volume_Tags_def decodeTags_def owner_del_def stale_tag_def tag_request_def err_of_def ref_VgLv_def owner_add_def)

lemma shared_refused:
  "LockVolume (shared_locker 1) lw_vol ''b'' (Map.empty, (Some 0, tags)) =
     Some (Some (Status PermissionDenied ''failed to lock volume %s: %v''), [lv_key \<mapsto> {}], (Some 0, tags))"
  by (simp add: LockVolume_def lw_vol_key activate_request_def shared_client_def [THEN arg_cong [of _ _ cl_LvChange]])

theorem one_host_per_volume_witness:
  "\<exists>hosts w l0 l1.
     rtranclp (cluster_step shared_client (\<lambda>_. ''node'')) (\<lambda>_. None, (None, [])) (hosts, w) \<and>
     hosts 0 = Some (shared_locker 0, l0) \<and> (lv_key, ''a'') \<in> holders (l0, w) \<and>
     hosts 1 = Some (shared_locker 1, l1) \<and> (lv_key, ''b'') \<notin> holders (l1, w)"
proof -
  let ?step = "cluster_step shared_client (\<lambda>_. ''node'')" and ?w = "(Some (0 :: nat), owner_add (Some 1) (Some ''node''))"
  let ?h0 = "(\<lambda>_. None)((0 :: nat) \<mapsto> (shared_locker 0, Map.empty))"
  let ?h1 = "?h0(1 \<mapsto> (shared_locker 1, Map.empty))"
  let ?h2 = "?h1(0 \<mapsto> (shared_locker 0, [lv_key \<mapsto> {''a''}]))"
  let ?h3 = "?h2(1 \<mapsto> (shared_locker 1, [lv_key \<mapsto> {}]))"
  have s1: "?step (\<lambda>_. None, (None, [])) (?h0, (None, []))" by (rule cluster_step.start [OF _ shared_start]) simp_all
  have s2: "?step (?h0, (None, [])) (?h1, (None, []))" by (rule cluster_step.start [OF _ shared_start]) simp_all
  have s3: "?step (?h1, (None, [])) (?h2, ?w)" by (rule cluster_step.lock [OF _ shared_lock]) simp
  have s4: "?step (?h2, ?w) (?h3, ?w)" by (rule cluster_step.lock [OF _ shared_refused]) simp
  have run: "rtranclp ?step (\<lambda>_. None, (None, [])) (?h3, ?w)"
    by (rule rtranclp.rtrancl_into_rtrancl [where r = ?step, OF _ s4],
        rule rtranclp.rtrancl_into_rtrancl [where r = ?step, OF _ s3],
        rule rtranclp.rtrancl_into_rtrancl [where r = ?step, OF _ s2],
        rule r_into_rtranclp [where r = ?step, OF s1])
  have h: "?h3 0 = Some (shared_locker 0, [lv_key \<mapsto> {''a''}])" "?h3 1 = Some (shared_locker 1, [lv_key \<mapsto> {}])" by simp_all
  have mem: "(lv_key, ''a'') \<in> holders ([lv_key \<mapsto> {''a''}], ?w)" by (simp add: holders_def pairs_mem)
  have "one_active shared_active (None, [])" by (simp add: one_active_def)
  from one_host_per_volume [OF shared_laws this run h(1) mem]
  have only: "\<forall>m vl' l' op'. ?h3 m = Some (vl', l') \<longrightarrow> (lv_key, op') \<in> holders (l', ?w) \<longrightarrow> m = 0" by (rule conjunct1)
  have no: "(lv_key, ''b'') \<notin> holders ([lv_key \<mapsto> {}], ?w)"
    using only [THEN spec [of _ 1], THEN spec, THEN spec, THEN spec, THEN mp, OF h(2), of "''b''"] by linarith
  show ?thesis by (intro exI conjI) (rule run, rule h(1), rule mem, rule h(2), rule no)
qed

end
