(* ===== verification/Spec2Isabelle.thy ===== *)
theory Spec2Isabelle
  imports MailBoxService LvmCtrld VolumeCleanup Listing Bootstrap Cluster
begin

text \<open>
  A model of csi-sanlock-lvm, a CSI driver that gives Kubernetes volumes on LVM logical volumes shared by
  several hosts. Two programs run on every host. \<^verbatim>\<open>lvmctrld\<close> starts the lock managers and turns gRPC requests into
  LVM commands. \<^verbatim>\<open>driverd\<close> serves the CSI identity, node and controller services over one lvmctrld
  client; a volume is used by the host that has activated it exclusively and
  written its id and name into the volume's tags, and requests for a volume held elsewhere are handed
  to its owner through mailboxes on a shared logical volume.

  \<^bold>\<open>Theories and sources.\<close>

  \<^item> \<^verbatim>\<open>Prelude\<close>, \<^verbatim>\<open>Proto\<close>, \<^verbatim>\<open>GoStrings\<close>, \<^verbatim>\<open>GoRegexp\<close>, \<^verbatim>\<open>GoCrypto\<close>: Go errors and integers, the protobuf messages of
    \<^verbatim>\<open>pkg/proto\<close>, and what the source uses of the standard library (\<^verbatim>\<open>strings\<close>, \<^verbatim>\<open>strconv\<close>, \<^verbatim>\<open>regexp\<close> by derivatives,
    SHA-256, base64), all executable.
  \<^item> \<^verbatim>\<open>Buddy\<close>, \<^verbatim>\<open>Allocator\<close>: \<^verbatim>\<open>pkg/diskrpc/allocator.go\<close>. The node array is a list of \<^verbatim>\<open>int32\<close> fields; \<^verbatim>\<open>Buddy\<close> has the
    tree it represents, with the invariant and the set of live blocks (C14, C15, C16, C17, C18, C19, C39).
  \<^item> \<^verbatim>\<open>Disk\<close>, \<^verbatim>\<open>MailBox\<close>, \<^verbatim>\<open>MailBoxState\<close>, \<^verbatim>\<open>MailBoxSpec\<close>, \<^verbatim>\<open>MailBoxFormat\<close>, \<^verbatim>\<open>MailBoxService\<close>: \<^verbatim>\<open>pkg/diskrpc/mailbox.go\<close>. A file
    is a byte list behind a handle whose operations can fail or crash at any tick; the three copies of the state, the format, \<^verbatim>\<open>Send\<close>
    and \<^verbatim>\<open>Recv\<close> are refined to message lists per recipient, through the locale \<^verbatim>\<open>mail_service\<close> (C2, C7, C8, C9, C10, C11, C33, C34, C35).
  \<^item> \<^verbatim>\<open>DiskRpc\<close>: \<^verbatim>\<open>pkg/diskrpc/diskrpc.go\<close>. The code of \<^verbatim>\<open>Invoke\<close> and \<^verbatim>\<open>Handle\<close>, cut where it blocks or gives up the mutex, and the
    interleaving of callers and handler as the step relation \<^verbatim>\<open>rpc_step\<close> (C12, C13, C36).
  \<^item> \<^verbatim>\<open>TagEncoder\<close>, \<^verbatim>\<open>Tags\<close>, \<^verbatim>\<open>VolumeRef\<close>: \<^verbatim>\<open>tagencoder.go\<close>, \<^verbatim>\<open>tags.go\<close>, \<^verbatim>\<open>volumeref.go\<close> and \<^verbatim>\<open>volumeinfo.go\<close> of \<^verbatim>\<open>pkg/driverd\<close>
    (C25, C26, C27, C40).
  \<^item> \<^verbatim>\<open>LvmCtrld\<close>: \<^verbatim>\<open>pkg/lvmctrld/lvmctrldserver.go\<close>, every handler over a runner of commands, with the
    classification of LVM's error output (C31, C32).
  \<^item> \<^verbatim>\<open>VolumeLock\<close>: \<^verbatim>\<open>baseserver.go\<close> and \<^verbatim>\<open>volumelock.go\<close>, the table of locks and the owner tags, with the
    interface of the locker as the locale \<^verbatim>\<open>volume_locker\<close> (C6, C21, C22, C37).
  \<^item> \<^verbatim>\<open>Cluster\<close>: the lockers of several hosts over one LVM, as the step relation \<^verbatim>\<open>cluster_step\<close> of drivers that start, serve
    requests and die; a request is one step (C1).
  \<^item> \<^verbatim>\<open>FileSystem\<close>: \<^verbatim>\<open>filesystem.go\<close> over the operating system \<^verbatim>\<open>os_env\<close> (C24, C38).
  \<^item> \<^verbatim>\<open>DriverOps\<close>: the effects of the handlers, a panic, an error or a value on an arbitrary state, their
    Hoare triples (\<^verbatim>\<open>triple_rules\<close>), the CSI messages, and a small installation for the witnesses.
  \<^item> \<^verbatim>\<open>Controller\<close>, \<^verbatim>\<open>Snapshots\<close>, \<^verbatim>\<open>Listing\<close>, \<^verbatim>\<open>VolumeCleanup\<close>: \<^verbatim>\<open>controllerserver.go\<close>: volumes (C28), snapshots and the
    locks of all three locking handlers (C4), listings and their pages (C20), and what is left of a \<^verbatim>\<open>CreateVolume\<close> (C3).
  \<^item> \<^verbatim>\<open>Node\<close>: \<^verbatim>\<open>nodeserver.go\<close> (C5). \<^verbatim>\<open>DiskRpcService\<close>: \<^verbatim>\<open>diskrpcservice.go\<close> (C29).
  \<^item> \<^verbatim>\<open>Bootstrap\<close>: \<^verbatim>\<open>cmd/lvmctrld/main.go\<close>, \<^verbatim>\<open>lock.go\<close> and the listeners, \<^verbatim>\<open>cmd/driverd/main.go\<close>, \<^verbatim>\<open>identityserver.go\<close> and the wait of
    \<^verbatim>\<open>lvmctrldclient.go\<close> (C30).

  \<^bold>\<open>How the parts meet.\<close> \<^verbatim>\<open>Proto\<close> has the generated client as a record of functions on the state of the daemon; the
  locker, the servers and the RPC service are written against it. The locker is used by the handlers as a record of
  its methods, of which \<^verbatim>\<open>locker_of\<close> is the one instance; their lemmas about locks are proved in the
  locale \<^verbatim>\<open>volume_locker\<close> and reach the properties through its interpretation on \<^verbatim>\<open>LockVolume\<close> and \<^verbatim>\<open>UnlockVolume\<close>.
  The three calls of the controller on other nodes are fields of its record; \<^verbatim>\<open>DiskRpc\<close> shows what such a call returns. This theory
  connects the tags the driver writes with the report lvmctrld parses (C23).

  \<^bold>\<open>Bounds and termination.\<close> Loops over lists are structural. The retry loop of the mailbox lock and the wait for
  lvmctrld are \<^verbatim>\<open>partial_function (option)\<close>, where \<open>None\<close> is not returning; C29 says when the former returns. The
  traversal of a message list in \<^verbatim>\<open>Recv\<close> has the number of allocation nodes as fuel, which no list without a cycle
  exceeds (C11). The walk over the pages of a listing needs one call per page (C20). Integers that can overflow are at their
  width: \<^verbatim>\<open>int32\<close> in the allocator, \<^verbatim>\<open>uint64\<close> and \<^verbatim>\<open>int64\<close> in sizes, words in SHA-256 and in the host id.

  \<^bold>\<open>Assumptions.\<close> Code outside the repository is a parameter: the protobuf codec (what is written is read
  back), uuids (fresh), LVM and the commands (laws of the volume group in C1, C3, C6, C21), the mounter (C24, C38), the
  other nodes (C3, C4), floating point, \<^verbatim>\<open>net.ParseIP\<close>, \<^verbatim>\<open>url.Parse\<close> and the splitting of shell words. Every hypothesis holds for the concrete
  instance of a witness.

  \<^bold>\<open>Not modelled.\<close> The gRPC transport and \<^verbatim>\<open>connect\<close>, the logger \<^verbatim>\<open>pkg/grpclogger\<close>, \<^verbatim>\<open>osRunner\<close>, log lines and the text
  interpolated into messages (an error carries its format string), \<^verbatim>\<open>Dump\<close>, contexts and deadlines
  except the wait of \<^verbatim>\<open>Invoke\<close>, the mutexes of the servers whose handlers are run one at a time here, the death of a lock manager, and mocks and tests.
\<close>

section \<open>Tags across the driver, lvmctrld and LVM\<close>

lemma encodeTags_carries:
  assumes "\<forall>(k, v) \<in> set tags. good_key k \<and> good_value v"
  shows "(\<exists>t \<in> set (encodeTags tags). carries t k v) \<longleftrightarrow> map_of tags k = Some v"
    and "t \<in> set (encodeTags tags) \<Longrightarrow> carries t k v \<Longrightarrow> t = encodeTagKV k v"
    and "t \<in> set (encodeTags tags) \<Longrightarrow> \<exists>x. decodeTagKV t = Inr x"
proof -
  have good: "good_key k \<and> good_value v" if "map_of tags k = Some v" for k v
    using map_of_SomeD [OF that] assms by auto
  have mem: "t \<in> set (encodeTags tags) \<longleftrightarrow> (\<exists>k v. map_of tags k = Some v \<and> t = encodeTagKV k v)" for t
  proof -
    have "k \<in> fst ` set tags \<longleftrightarrow> (\<exists>v. map_of tags k = Some v)" for k
      using map_of_eq_None_iff [of tags k] by auto
    then show ?thesis unfolding encodeTags_def set_map set_sort by (auto simp only: image_iff bex_simps) force+
  qed
  show "(\<exists>t \<in> set (encodeTags tags). carries t k v) \<longleftrightarrow> map_of tags k = Some v"
    using good carries_encoded by (metis mem)
  show "t = encodeTagKV k v" if "t \<in> set (encodeTags tags)" "carries t k v"
    using that good carries_encoded by (metis mem)
  show "\<exists>x. decodeTagKV t = Inr x" if "t \<in> set (encodeTags tags)"
    using that good decodeTagKV_encodeTagKV by (metis mem)
qed

lemma foreign_tag: "\<not> has_prefix t tagPrefix \<Longrightarrow> decodeTagKV t = Inr None \<and> \<not> carries t k v"
  by (simp add: decodeTagKV_def carries_def encodedTagPrefix_eq)

text \<open>C23: Tags survive the way through LVM: when a volume carries the tags of a map, in any order and
  together with tags of other owners, the list LVM reports for it, joined with commas, is split
  and decoded back into that map.\<close>

theorem reported_tags_decode:
  assumes "\<forall>(k, v) \<in> set tags. good_key k \<and> good_value v"
    and "distinct ts" and "set (encodeTags tags) \<subseteq> set ts"
    and "\<forall>t \<in> set ts - set (encodeTags tags). \<not> has_prefix t tagPrefix \<and> t \<noteq> [] \<and> list_all tag_char t"
    and "rl_LvTags lv = join_with '','' ts"
  shows "\<exists>m. volume_Tags (NewVolumeInfoFromLv (lvmToLogicalVolume e lv)) = Inr m \<and> map_of m = map_of tags"
proof -
  note enc = encodeTags_carries [OF assms(1)]
  have "t \<noteq> [] \<and> list_all tag_char t" if "t \<in> set ts" for t
    using encodeTags_members [OF assms(1)] assms(4) that by blast
  then have split: "splitLvmField (rl_LvTags lv) = ts" unfolding assms(5) by (rule split_tags)
  have own: "carries t k v \<Longrightarrow> t \<in> set (encodeTags tags)" if "t \<in> set ts" for t k v
    using foreign_tag assms(4) that by blast
  have "\<forall>t \<in> set ts. \<exists>x. decodeTagKV t = Inr x" using enc(3) foreign_tag assms(4) by blast
  moreover have "t = u" if "t \<in> set ts" "u \<in> set ts" "carries t k v" "carries u k w" for t u k v w
  proof -
    have mem: "t \<in> set (encodeTags tags)" "u \<in> set (encodeTags tags)" using own that by blast+
    then have "map_of tags k = Some v" "map_of tags k = Some w" using enc(1) that by blast+
    then show ?thesis using enc(2) [OF mem(1) that(3)] enc(2) [OF mem(2) that(4)] by simp
  qed
  ultimately obtain m where m: "decodeTags ts = Inr m" using decodeTags_total [of ts] assms(2) by blast
  have "map_of m k = Some v \<longleftrightarrow> map_of tags k = Some v" for k v
    unfolding decodeTags_ok(1) [OF m] using enc(1) [of k v] own assms(3) by blast
  then have "map_of m = map_of tags" by (intro ext) (metis option.exhaust)
  then show ?thesis
    using m by (simp add: volume_Tags_def NewVolumeInfoFromLv_def lvmToLogicalVolume_def split)
qed

abbreviation reported_lv :: "string \<Rightarrow> lvmReportLvs" where
  "reported_lv ts \<equiv>
     \<lparr>rl_LvName = ''lv'', rl_VgName = ''vg'', rl_LvAttr = '''', rl_LvSize = 512, rl_PoolLv = '''',
      rl_Origin = '''', rl_DataPercent = '''', rl_MetadataPercent = '''', rl_MovePv = '''',
      rl_MirrorLog = '''', rl_CopyPercent = '''', rl_ConvertLv = '''', rl_LvTags = ts, rl_LvRole = '''',
      rl_LvTime = \<lparr>seconds = 0, nanos = 0\<rparr>, rl_LvDeviceOpen = ''''\<rparr>"

theorem reported_tags_decode_witness:
  "\<exists>m. volume_Tags (NewVolumeInfoFromLv (lvmToLogicalVolume recorder
       (reported_lv ''backup,csi-sanlock-lvm.vleo.net/name=my&20vol''))) = Inr m \<and>
     map_of m nameTagKey = Some ''my vol''"
proof -
  let ?tags = "[(nameTagKey, ''my vol'')]" and ?ts = "[''backup'', ''csi-sanlock-lvm.vleo.net/name=my&20vol'']"
  have enc: "encodeTags ?tags = [''csi-sanlock-lvm.vleo.net/name=my&20vol'']" by code_simp
  have "\<exists>m. volume_Tags (NewVolumeInfoFromLv (lvmToLogicalVolume recorder
       (reported_lv (join_with '','' ?ts)))) = Inr m \<and> map_of m = map_of ?tags"
  proof (rule reported_tags_decode [where ts = ?ts])
    show "\<forall>(k, v) \<in> set ?tags. good_key k \<and> good_value v"
      using good_keys by (simp add: good_value_def two_digits_def)
    have "\<not> has_prefix ''backup'' tagPrefix \<and> list_all tag_char ''backup''"
      by (simp add: has_prefix_def tagPrefix_def tag_char_def in_range_def)
    then show "\<forall>t \<in> set ?ts - set (encodeTags ?tags). \<not> has_prefix t tagPrefix \<and> t \<noteq> [] \<and> list_all tag_char t"
      unfolding enc by auto
  qed (simp_all add: enc)
  then show ?thesis by (auto simp: nameTagKey_def)
qed

end
